(* ===== verification/Prelude.thy ===== *)
theory Prelude
  imports Main "HOL-Library.Word"
begin

text \<open>
  What the components of the Faultline model share: names for the machine integers of the C
  sources, the error numbers, the search loop that returns the first matching slot, the successor rule of the
  identifier allocators, and the two interfaces every stateful component is an instance of: an
  invariant of a transition system, and a source of identifiers that never repeat.
\<close>

section \<open>Machine integers\<close>

type_synonym u8 = "8 word"
type_synonym u16 = "16 word"
type_synonym u32 = "32 word"
type_synonym u64 = "64 word"
type_synonym bytes = "u8 list"

text \<open>
  Clock readings are C's \<^verbatim>\<open>int64_t\<close> and descriptors and timeouts its \<^verbatim>\<open>int\<close>; both are \<^typ>\<open>int\<close> here.
  Signed overflow is undefined in C, so where the code bounds such a value the bound is written
  out with these limits.
\<close>

abbreviation INT64_MAX :: int where
  "INT64_MAX \<equiv> 9223372036854775807"

abbreviation INT_MAX :: int where
  "INT_MAX \<equiv> 2147483647"

text \<open>Collections the component theories add to.\<close>

named_theorems wf_simps \<open>characterisations of the components' well-formedness invariants\<close>
named_theorems outcome_simps \<open>what an operation returns on each of its branches\<close>
named_theorems frame_simps \<open>fields an operation leaves unchanged\<close>
named_theorems codec_simps \<open>lengths and round trips of byte encodings\<close>

section \<open>Error numbers\<close>

text \<open>The values of \<^verbatim>\<open>errno\<close> the sources name; \<^verbatim>\<open>EWOULDBLOCK\<close> is \<^verbatim>\<open>EAGAIN\<close>.\<close>

type_synonym errno = int

definition EINTR :: errno where "EINTR = 4"
definition EIO :: errno where "EIO = 5"
definition EBADF :: errno where "EBADF = 9"
definition EAGAIN :: errno where "EAGAIN = 11"
definition ENOMEM :: errno where "ENOMEM = 12"
definition EEXIST :: errno where "EEXIST = 17"
definition EINVAL :: errno where "EINVAL = 22"
definition EPIPE :: errno where "EPIPE = 32"
definition EOVERFLOW :: errno where "EOVERFLOW = 75"
definition EILSEQ :: errno where "EILSEQ = 84"
definition ETIMEDOUT :: errno where "ETIMEDOUT = 110"
definition EINPROGRESS :: errno where "EINPROGRESS = 115"

section \<open>First matching slot\<close>

text \<open>
  The loop \<^verbatim>\<open>for (i = 0; i < n; ++i) if (p(a[i])) return i; return n;\<close> of the registry, the
  scheduler and the replay code.
\<close>

fun first_index :: "('a \<Rightarrow> bool) \<Rightarrow> 'a list \<Rightarrow> nat" where
  "first_index P [] = 0"
| "first_index P (x # xs) = (if P x then 0 else Suc (first_index P xs))"

lemma first_index_le [simp]: "first_index P xs \<le> length xs"
  by (induction xs) auto

lemma first_index_less_iff: "first_index P xs < length xs \<longleftrightarrow> (\<exists>x \<in> set xs. P x)"
  by (induction xs) auto

lemma first_index_eq_length_iff: "first_index P xs = length xs \<longleftrightarrow> (\<forall>x \<in> set xs. \<not> P x)"
  by (induction xs) auto

lemma first_index_holds: "first_index P xs < length xs \<Longrightarrow> P (xs ! first_index P xs)"
  by (induction xs) auto

lemma first_index_minimal: "i < first_index P xs \<Longrightarrow> \<not> P (xs ! i)"
proof (induction xs arbitrary: i)
  case (Cons x xs)
  then show ?case by (cases i) (auto split: if_splits)
qed simp

lemma first_index_unique:
  assumes "i < length xs" "P (xs ! i)" "\<And>j. j < length xs \<Longrightarrow> P (xs ! j) \<Longrightarrow> j = i"
  shows "first_index P xs = i"
proof -
  have "\<exists>x \<in> set xs. P x" using assms(1,2) by (meson nth_mem)
  then have "first_index P xs < length xs" by (simp add: first_index_less_iff)
  then show ?thesis using assms(3) first_index_holds by blast
qed

text \<open>A slot found by a key that occurs once is the slot of that key.\<close>

lemma first_index_distinct:
  assumes "distinct (map f xs)" "i < length xs"
  shows "first_index (\<lambda>x. f x = f (xs ! i)) xs = i"
proof (rule first_index_unique)
  fix j assume "j < length xs" "f (xs ! j) = f (xs ! i)"
  then show "j = i" using assms by (metis length_map nth_eq_iff_index_eq nth_map)
qed (use assms in auto)

text \<open>The list forms of the search: the first element itself.\<close>

lemma find_eq_first_index:
  "List.find P xs = (if first_index P xs < length xs then Some (xs ! first_index P xs) else None)"
  by (induction xs) auto

lemma find_Some_set: "List.find P xs = Some x \<Longrightarrow> x \<in> set xs \<and> P x"
  by (induction xs) (auto split: if_splits)

section \<open>Updating one slot\<close>

lemma map_list_update_same:
  "i < length xs \<Longrightarrow> f x = f (xs ! i) \<Longrightarrow> map f (xs[i := x]) = map f xs"
  by (simp add: map_update list_update_same_conv)

lemma set_list_update_cases:
  "y \<in> set (xs[i := x]) \<Longrightarrow> y = x \<or> y \<in> set xs"
  using set_update_subset_insert by fastforce

lemma set_list_updateD:
  assumes "y \<in> set (xs[i := x])" "i < length xs"
  shows "y = x \<or> (\<exists>k < length xs. k \<noteq> i \<and> y = xs ! k)"
  using assms by (auto simp: in_set_conv_nth nth_list_update split: if_splits)

text \<open>No two slots in use carry the same key.\<close>

definition slots_distinct :: "('a \<Rightarrow> bool) \<Rightarrow> ('a \<Rightarrow> 'k) \<Rightarrow> 'a list \<Rightarrow> bool" where
  "slots_distinct used key xs \<longleftrightarrow>
     (\<forall>i < length xs. \<forall>j < length xs. used (xs ! i) \<and> used (xs ! j) \<and> key (xs ! i) = key (xs ! j) \<longrightarrow> i = j)"

lemma slots_distinctD:
  "slots_distinct used key xs \<Longrightarrow> i < length xs \<Longrightarrow> j < length xs \<Longrightarrow> used (xs ! i) \<Longrightarrow> used (xs ! j) \<Longrightarrow>
     key (xs ! i) = key (xs ! j) \<Longrightarrow> i = j"
  by (simp add: slots_distinct_def)

lemma slots_distinct_update:
  assumes "slots_distinct used key xs"
    and "\<And>j. used x \<Longrightarrow> j < length xs \<Longrightarrow> j \<noteq> i \<Longrightarrow> used (xs ! j) \<Longrightarrow> key (xs ! j) \<noteq> key x"
  shows "slots_distinct used key (xs[i := x])"
  unfolding slots_distinct_def
proof (intro allI impI)
  fix a b
  assume ab: "a < length (xs[i := x])" "b < length (xs[i := x])"
    and eq: "used (xs[i := x] ! a) \<and> used (xs[i := x] ! b) \<and> key (xs[i := x] ! a) = key (xs[i := x] ! b)"
  then show "a = b"
    using slots_distinctD [OF assms(1), of a b] assms(2) [of a] assms(2) [of b]
    by (cases "a = i"; cases "b = i") auto
qed

text \<open>A scan for a key some used slot carries stops at that slot.\<close>

lemma first_index_slot:
  assumes "slots_distinct used key xs" "i < length xs" "used (xs ! i)" "key (xs ! i) = k"
  shows "first_index (\<lambda>x. used x \<and> key x = k) xs = i"
  using assms by (intro first_index_unique) (auto dest: slots_distinctD)

section \<open>Identifier successors\<close>

text \<open>
  Every allocator of the code advances with \<^verbatim>\<open>next = id == MAX ? 0 : id + 1\<close>: zero is never
  issued, so it stands for "exhausted".
\<close>

definition next_id :: "'a::len word \<Rightarrow> 'a word" where
  "next_id i = (if i = - 1 then 0 else i + 1)"

lemma next_id_eq_zero_iff: "next_id i = 0 \<longleftrightarrow> i = - 1"
  by (simp add: next_id_def flip: eq_neg_iff_add_eq_0)

lemma unat_next_id: "next_id i \<noteq> 0 \<Longrightarrow> unat (next_id i) = Suc (unat i)"
  by (simp add: next_id_def add.commute [of i 1] unatSuc eq_neg_iff_add_eq_0 split: if_splits)

lemma less_next_id: "next_id i \<noteq> 0 \<Longrightarrow> i < next_id i"
  by (simp add: word_less_nat_alt unat_next_id)

lemma less_next_id_iff: "next_id i \<noteq> 0 \<Longrightarrow> j < next_id i \<longleftrightarrow> j \<le> i"
  by (simp add: word_less_nat_alt word_le_nat_alt unat_next_id less_Suc_eq_le)

text \<open>The identifiers issued before the allocator reached \<open>nxt\<close>.\<close>

definition id_before :: "'a::len word \<Rightarrow> 'a word \<Rightarrow> bool" where
  "id_before i nxt \<longleftrightarrow> i \<noteq> 0 \<and> (nxt = 0 \<or> i < nxt)"

lemma id_before_next_id: "nxt \<noteq> 0 \<Longrightarrow> id_before i (next_id nxt) \<longleftrightarrow> i = nxt \<or> id_before i nxt"
proof (cases "next_id nxt = 0")
  case True
  assume "nxt \<noteq> 0"
  moreover from True have "nxt = - 1" by (simp add: next_id_eq_zero_iff)
  moreover have "i < - 1 \<longleftrightarrow> i \<noteq> - 1" using word_order.not_eq_extremum by blast
  ultimately show ?thesis using True by (auto simp: id_before_def)
qed (auto simp: id_before_def less_next_id_iff word_le_less_eq)

lemma id_before_self [simp]: "nxt \<noteq> 0 \<Longrightarrow> \<not> id_before nxt nxt"
  by (simp add: id_before_def)

section \<open>Counters below a limit\<close>

text \<open>A counter still below some limit of its own width can be incremented without wrapping.\<close>

lemma unat_inc_below:
  assumes "(r :: 'a::len word) < m"
  shows "unat (r + 1) = Suc (unat r)"
proof -
  have "r \<noteq> - 1" using assms by auto
  then have "1 + r \<noteq> 0" by (simp add: eq_neg_iff_add_eq_0 add.commute)
  then show ?thesis by (simp add: add.commute [of r 1] unatSuc)
qed

lemma inc_below:
  assumes "(r :: 'a::len word) < m"
  shows "r + 1 \<le> m \<and> r + 1 \<noteq> 0"
proof -
  have "unat (r + 1) = Suc (unat r)" using assms by (rule unat_inc_below)
  moreover have "unat r < unat m" using assms by (simp add: word_less_nat_alt)
  ultimately show ?thesis by (auto simp: word_le_nat_alt)
qed

lemma unat_u32_less: "unat (r :: u32) < 2 ^ 32"
proof -
  have "unat r < 2 ^ LENGTH(32)" by (rule unsigned_less)
  then show ?thesis by simp
qed

lemma unat_widen_u32 [simp]: "unat (ucast (r :: u32) :: u64) = unat r"
  using unat_u32_less [of r] by (simp add: unsigned_ucast_eq take_bit_nat_eq_self)

lemma widen_inc_below: "(r :: u32) < m \<Longrightarrow> (ucast (r + 1) :: u64) = ucast r + 1"
proof -
  assume below: "r < m"
  have "unat (ucast r + 1 :: u64) = Suc (unat r)"
    using unat_u32_less [of r] by (simp add: unat_word_ariths)
  then show ?thesis using unat_inc_below [OF below] by (simp add: word_unat_eq_iff)
qed

section \<open>Transition systems and their invariants\<close>

text \<open>
  The reachable states of a component: those some sequence of its operations leads to from a
  start state. A component instantiates \<open>invariant_system\<close> with its own operations; the laws are
  that the start states satisfy the invariant and that every operation keeps it.
\<close>

inductive reachable :: "('s \<Rightarrow> bool) \<Rightarrow> ('s \<Rightarrow> 's \<Rightarrow> bool) \<Rightarrow> 's \<Rightarrow> bool"
  for start step
where
  reachable_start: "start s \<Longrightarrow> reachable start step s"
| reachable_step: "reachable start step s \<Longrightarrow> step s t \<Longrightarrow> reachable start step t"

locale invariant_system =
  fixes start :: "'s \<Rightarrow> bool"
    and step :: "'s \<Rightarrow> 's \<Rightarrow> bool"
    and inv :: "'s \<Rightarrow> bool"
  assumes start_inv: "start s \<Longrightarrow> inv s"
    and step_inv: "inv s \<Longrightarrow> step s t \<Longrightarrow> inv t"
begin

lemma reachable_inv: "reachable start step s \<Longrightarrow> inv s"
  by (induction rule: reachable.induct) (blast intro: start_inv step_inv)+

lemma steps_inv: "step\<^sup>*\<^sup>* s t \<Longrightarrow> inv s \<Longrightarrow> inv t"
  by (induction rule: rtranclp_induct) (blast intro: step_inv)+

end

section \<open>Sources of identifiers\<close>

text \<open>
  A component that hands out identifiers: \<open>issue s i t\<close> says that one of its operations goes from
  \<open>s\<close> to \<open>t\<close> and issues \<open>i\<close>, \<open>keep s t\<close> that an operation issues nothing. \<open>issued\<close> collects, oldest
  first, what a run issues.
\<close>

inductive issued ::
  "('s \<Rightarrow> 'i \<Rightarrow> 's \<Rightarrow> bool) \<Rightarrow> ('s \<Rightarrow> 's \<Rightarrow> bool) \<Rightarrow> 's \<Rightarrow> 'i list \<Rightarrow> 's \<Rightarrow> bool"
  for issue keep
where
  issued_nil: "issued issue keep s [] s"
| issued_keep: "keep s t \<Longrightarrow> issued issue keep t is u \<Longrightarrow> issued issue keep s is u"
| issued_more: "issue s i t \<Longrightarrow> issued issue keep t is u \<Longrightarrow> issued issue keep s (i # is) u"

locale id_source =
  fixes next_of :: "'s \<Rightarrow> 'a::len word"
    and issue :: "'s \<Rightarrow> 'a word \<Rightarrow> 's \<Rightarrow> bool"
    and keep :: "'s \<Rightarrow> 's \<Rightarrow> bool"
  assumes issue_id: "issue s i t \<Longrightarrow> i = next_of s \<and> i \<noteq> 0"
    and issue_next: "issue s i t \<Longrightarrow> next_of t = next_id i"
    and keep_next: "keep s t \<Longrightarrow> next_of t = next_of s"
begin

lemma nothing_after_exhaustion: "issued issue keep s is t \<Longrightarrow> next_of s = 0 \<Longrightarrow> is = []"
  by (induction rule: issued.induct) (auto dest: issue_id keep_next)

lemma issued_at_least: "issued issue keep s is t \<Longrightarrow> i \<in> set is \<Longrightarrow> next_of s \<le> i"
proof (induction arbitrary: i rule: issued.induct)
  case (issued_more s j t "is" u)
  show ?case
  proof (cases "next_of t = 0")
    case True
    with issued_more.hyps(2) have "is = []" by (rule nothing_after_exhaustion)
    then show ?thesis using issued_more by (auto dest: issue_id)
  next
    case False
    then have "j < next_of t" using issue_next [OF issued_more.hyps(1)] by (simp add: less_next_id)
    then show ?thesis using issued_more by (fastforce dest: issue_id)
  qed
qed (auto dest: keep_next)

theorem issued_strictly_increasing: "issued issue keep s is t \<Longrightarrow> sorted_wrt (<) is"
proof (induction rule: issued.induct)
  case (issued_more s j t "is" u)
  show ?case
  proof (cases "next_of t = 0")
    case True
    with issued_more.hyps(2) have "is = []" by (rule nothing_after_exhaustion)
    then show ?thesis by simp
  next
    case False
    then have "j < next_of t" using issue_next [OF issued_more.hyps(1)] by (simp add: less_next_id)
    then have "\<forall>k \<in> set is. j < k" using issued_at_least [OF issued_more.hyps(2)] by fastforce
    then show ?thesis using issued_more.IH by simp
  qed
qed simp_all

theorem issued_distinct_nonzero:
  assumes "issued issue keep s is t"
  shows "distinct is \<and> 0 \<notin> set is"
proof -
  have "sorted_wrt (<) is" using assms by (rule issued_strictly_increasing)
  then have "distinct is" by (simp add: strict_sorted_iff)
  moreover have "0 \<notin> set is"
    using assms by (induction rule: issued.induct) (auto dest: issue_id)
  ultimately show ?thesis by simp
qed

end

end
