(* ===== verification/Job.thy ===== *)
theory Job
  imports Prelude
begin

text \<open>
  The job record and its life cycle (\<^verbatim>\<open>include/job.h\<close>, \<^verbatim>\<open>src/coordinator/job.c\<close>). An operation
  takes the record by value and returns \<open>Inl\<close> of the result code it fails with, or \<open>Inr\<close> of the
  updated record: "every failing call leaves the record unchanged" is then part of the type. A byte
  array with its size field (\<^verbatim>\<open>arguments\<close>, \<^verbatim>\<open>argument_size\<close>) is the list of the bytes in use; a
  data pointer argument is an optional list, \<open>None\<close> for NULL, next to the size argument.
\<close>

section \<open>Data\<close>

datatype task_type = TASK_SLEEP | TASK_PRIME_COUNT | TASK_FIBONACCI | TASK_HASH

datatype job_state = JOB_QUEUED | JOB_ASSIGNED | JOB_RUNNING | JOB_DONE | JOB_FAILED

datatype job_failure = FAILURE_NONE | FAILURE_TASK | FAILURE_WORKER_LOST

text \<open>The enumerators' numeric values, and the casts from an integer, \<open>None\<close> outside the enum.\<close>

fun task_code :: "task_type \<Rightarrow> u16" where
  "task_code TASK_SLEEP = 1"
| "task_code TASK_PRIME_COUNT = 2"
| "task_code TASK_FIBONACCI = 3"
| "task_code TASK_HASH = 4"

definition task_of_code :: "u16 \<Rightarrow> task_type option" where
  "task_of_code c =
     (if c = 1 then Some TASK_SLEEP else if c = 2 then Some TASK_PRIME_COUNT
      else if c = 3 then Some TASK_FIBONACCI else if c = 4 then Some TASK_HASH else None)"

fun state_code :: "job_state \<Rightarrow> u16" where
  "state_code JOB_QUEUED = 1"
| "state_code JOB_ASSIGNED = 2"
| "state_code JOB_RUNNING = 3"
| "state_code JOB_DONE = 4"
| "state_code JOB_FAILED = 5"

definition state_of_code :: "u16 \<Rightarrow> job_state option" where
  "state_of_code c =
     (if c = 1 then Some JOB_QUEUED else if c = 2 then Some JOB_ASSIGNED
      else if c = 3 then Some JOB_RUNNING else if c = 4 then Some JOB_DONE
      else if c = 5 then Some JOB_FAILED else None)"

fun failure_code :: "job_failure \<Rightarrow> u16" where
  "failure_code FAILURE_NONE = 0"
| "failure_code FAILURE_TASK = 1"
| "failure_code FAILURE_WORKER_LOST = 2"

definition failure_of_code :: "u16 \<Rightarrow> job_failure option" where
  "failure_of_code c =
     (if c = 0 then Some FAILURE_NONE else if c = 1 then Some FAILURE_TASK
      else if c = 2 then Some FAILURE_WORKER_LOST else None)"

lemma code_roundtrips [simp, codec_simps]:
  "task_of_code (task_code t) = Some t"
  "state_of_code (state_code s) = Some s"
  "failure_of_code (failure_code f) = Some f"
  by (cases t; cases s; cases f; simp add: task_of_code_def state_of_code_def failure_of_code_def)+

lemma of_code_Some:
  "task_of_code c = Some t \<Longrightarrow> task_code t = c"
  "state_of_code c = Some s \<Longrightarrow> state_code s = c"
  "failure_of_code c = Some f \<Longrightarrow> failure_code f = c"
  by (auto simp: task_of_code_def state_of_code_def failure_of_code_def split: if_splits)

definition FAULTLINE_JOB_MAX_ARGUMENT_SIZE :: nat where
  "FAULTLINE_JOB_MAX_ARGUMENT_SIZE = 1024"

definition FAULTLINE_JOB_MAX_RESULT_SIZE :: nat where
  "FAULTLINE_JOB_MAX_RESULT_SIZE = 1024"

abbreviation TIME_UNSET :: int where
  "TIME_UNSET \<equiv> - 1"

record faultline_job =
  j_id :: u64
  j_task_type :: task_type
  j_arguments :: bytes
  j_state :: job_state
  j_worker_id :: u32
  j_attempt :: u64
  j_retry_count :: u32
  j_max_retries :: u32
  j_created_at_ms :: int
  j_updated_at_ms :: int
  j_assigned_at_ms :: int
  j_started_at_ms :: int
  j_finished_at_ms :: int
  j_result :: bytes
  j_failure :: job_failure

datatype job_error =
    JOB_INVALID_ARGUMENT
  | JOB_PAYLOAD_TOO_LARGE
  | JOB_INVALID_TRANSITION
  | JOB_TIME_REVERSED
  | JOB_WRONG_WORKER
  | JOB_STALE_ATTEMPT

section \<open>Operations\<close>

fun faultline_job_can_transition :: "job_state \<Rightarrow> job_state \<Rightarrow> bool" where
  "faultline_job_can_transition JOB_QUEUED to = (to = JOB_ASSIGNED)"
| "faultline_job_can_transition JOB_ASSIGNED to =
     (to = JOB_RUNNING \<or> to = JOB_QUEUED \<or> to = JOB_FAILED)"
| "faultline_job_can_transition JOB_RUNNING to =
     (to = JOB_DONE \<or> to = JOB_QUEUED \<or> to = JOB_FAILED)"
| "faultline_job_can_transition _ to = False"

text \<open>The three checks return the code they fail with, \<open>None\<close> for OK.\<close>

definition check_payload :: "bytes option \<Rightarrow> nat \<Rightarrow> nat \<Rightarrow> job_error option" where
  "check_payload data data_size capacity =
     (if data_size > capacity then Some JOB_PAYLOAD_TOO_LARGE
      else if data = None \<and> data_size \<noteq> 0 then Some JOB_INVALID_ARGUMENT
      else None)"

definition check_transition :: "faultline_job \<Rightarrow> job_state \<Rightarrow> int \<Rightarrow> job_error option" where
  "check_transition job next now_ms =
     (if now_ms < 0 then Some JOB_INVALID_ARGUMENT
      else if \<not> faultline_job_can_transition (j_state job) next then Some JOB_INVALID_TRANSITION
      else if now_ms < j_updated_at_ms job then Some JOB_TIME_REVERSED
      else None)"

definition check_attempt :: "faultline_job \<Rightarrow> u32 \<Rightarrow> u64 \<Rightarrow> job_error option" where
  "check_attempt job worker_id attempt =
     (if worker_id = 0 \<or> attempt = 0 then Some JOB_INVALID_ARGUMENT
      else if worker_id \<noteq> j_worker_id job then Some JOB_WRONG_WORKER
      else if attempt \<noteq> j_attempt job then Some JOB_STALE_ATTEMPT
      else None)"

text \<open>\<^verbatim>\<open>memcpy\<close> of \<open>size\<close> bytes out of an argument pointer, skipped for size zero.\<close>

definition copied_bytes :: "bytes option \<Rightarrow> nat \<Rightarrow> bytes" where
  "copied_bytes data data_size = (if data_size \<noteq> 0 then (case data of Some b \<Rightarrow> take data_size b | None \<Rightarrow> []) else [])"

definition faultline_job_init ::
  "u64 \<Rightarrow> task_type option \<Rightarrow> bytes option \<Rightarrow> nat \<Rightarrow> u32 \<Rightarrow> int \<Rightarrow> job_error + faultline_job" where
  "faultline_job_init job_id task_type arguments argument_size max_retries now_ms =
     (case task_type of
        None \<Rightarrow> Inl JOB_INVALID_ARGUMENT
      | Some task \<Rightarrow>
          if job_id = 0 \<or> now_ms < 0 then Inl JOB_INVALID_ARGUMENT
          else (case check_payload arguments argument_size FAULTLINE_JOB_MAX_ARGUMENT_SIZE of
            Some e \<Rightarrow> Inl e
          | None \<Rightarrow> Inr \<lparr>
              j_id = job_id, j_task_type = task, j_arguments = copied_bytes arguments argument_size,
              j_state = JOB_QUEUED, j_worker_id = 0, j_attempt = 0, j_retry_count = 0,
              j_max_retries = max_retries, j_created_at_ms = now_ms, j_updated_at_ms = now_ms,
              j_assigned_at_ms = TIME_UNSET, j_started_at_ms = TIME_UNSET,
              j_finished_at_ms = TIME_UNSET, j_result = [], j_failure = FAILURE_NONE \<rparr>))"

definition faultline_job_assign :: "faultline_job \<Rightarrow> u32 \<Rightarrow> int \<Rightarrow> job_error + faultline_job" where
  "faultline_job_assign job worker_id now_ms =
     (case check_transition job JOB_ASSIGNED now_ms of
        Some e \<Rightarrow> Inl e
      | None \<Rightarrow>
          if worker_id = 0 then Inl JOB_INVALID_ARGUMENT
          else Inr (job\<lparr> j_state := JOB_ASSIGNED, j_worker_id := worker_id,
                         j_attempt := j_attempt job + 1, j_assigned_at_ms := now_ms,
                         j_updated_at_ms := now_ms, j_failure := FAILURE_NONE \<rparr>))"

definition faultline_job_start ::
  "faultline_job \<Rightarrow> u32 \<Rightarrow> u64 \<Rightarrow> int \<Rightarrow> job_error + faultline_job" where
  "faultline_job_start job worker_id attempt now_ms =
     (case check_transition job JOB_RUNNING now_ms of
        Some e \<Rightarrow> Inl e
      | None \<Rightarrow>
          (case check_attempt job worker_id attempt of
             Some e \<Rightarrow> Inl e
           | None \<Rightarrow> Inr (job\<lparr> j_state := JOB_RUNNING, j_started_at_ms := now_ms,
                                j_updated_at_ms := now_ms \<rparr>)))"

definition faultline_job_complete ::
  "faultline_job \<Rightarrow> u32 \<Rightarrow> u64 \<Rightarrow> bytes option \<Rightarrow> nat \<Rightarrow> int \<Rightarrow> job_error + faultline_job" where
  "faultline_job_complete job worker_id attempt data result_size now_ms =
     (case check_transition job JOB_DONE now_ms of
        Some e \<Rightarrow> Inl e
      | None \<Rightarrow>
          (case check_attempt job worker_id attempt of
             Some e \<Rightarrow> Inl e
           | None \<Rightarrow>
               (case check_payload data result_size FAULTLINE_JOB_MAX_RESULT_SIZE of
                  Some e \<Rightarrow> Inl e
                | None \<Rightarrow> Inr (job\<lparr> j_result := copied_bytes data result_size,
                                     j_state := JOB_DONE, j_finished_at_ms := now_ms,
                                     j_updated_at_ms := now_ms \<rparr>))))"

definition faultline_job_fail ::
  "faultline_job \<Rightarrow> u32 \<Rightarrow> u64 \<Rightarrow> job_failure \<Rightarrow> int \<Rightarrow> job_error + faultline_job" where
  "faultline_job_fail job worker_id attempt failure now_ms =
     (if failure \<noteq> FAILURE_TASK \<and> failure \<noteq> FAILURE_WORKER_LOST then Inl JOB_INVALID_ARGUMENT
      else
        (let next = (if j_retry_count job < j_max_retries job then JOB_QUEUED else JOB_FAILED) in
         case check_transition job next now_ms of
           Some e \<Rightarrow> Inl e
         | None \<Rightarrow>
             (case check_attempt job worker_id attempt of
                Some e \<Rightarrow> Inl e
              | None \<Rightarrow>
                  (let failed = job\<lparr> j_state := next, j_updated_at_ms := now_ms, j_failure := failure \<rparr> in
                   if next = JOB_QUEUED
                   then Inr (failed\<lparr> j_retry_count := j_retry_count job + 1, j_worker_id := 0,
                                      j_assigned_at_ms := TIME_UNSET, j_started_at_ms := TIME_UNSET,
                                      j_finished_at_ms := TIME_UNSET \<rparr>)
                   else Inr (failed\<lparr> j_finished_at_ms := now_ms \<rparr>)))))"

section \<open>Well-formed records\<close>

text \<open>
  What the comments of \<^verbatim>\<open>job.h\<close> say of a record between operations: a queued job has no owner and no
  attempt timestamps, the attempt number is the number of retries plus the running attempt, only a
  finished job has a result, a failed one has used all its retries, and the timestamps follow the
  order of the events.
\<close>

definition job_times_wf :: "faultline_job \<Rightarrow> bool" where
  "job_times_wf j \<longleftrightarrow>
     0 \<le> j_created_at_ms j \<and> j_created_at_ms j \<le> j_updated_at_ms j \<and> j_updated_at_ms j \<le> INT64_MAX"

definition job_common_wf :: "faultline_job \<Rightarrow> bool" where
  "job_common_wf j \<longleftrightarrow>
     j_id j \<noteq> 0 \<and> length (j_arguments j) \<le> FAULTLINE_JOB_MAX_ARGUMENT_SIZE \<and>
     length (j_result j) \<le> FAULTLINE_JOB_MAX_RESULT_SIZE \<and>
     j_retry_count j \<le> j_max_retries j \<and> job_times_wf j"

definition job_owned_wf :: "faultline_job \<Rightarrow> bool" where
  "job_owned_wf j \<longleftrightarrow>
     j_worker_id j \<noteq> 0 \<and> j_attempt j = ucast (j_retry_count j) + 1 \<and>
     j_created_at_ms j \<le> j_assigned_at_ms j \<and> j_assigned_at_ms j \<le> j_updated_at_ms j"

definition job_state_wf :: "faultline_job \<Rightarrow> bool" where
  "job_state_wf j =
     (case j_state j of
        JOB_QUEUED \<Rightarrow>
          j_worker_id j = 0 \<and> j_attempt j = ucast (j_retry_count j) \<and> j_result j = [] \<and>
          j_assigned_at_ms j = TIME_UNSET \<and> j_started_at_ms j = TIME_UNSET \<and>
          j_finished_at_ms j = TIME_UNSET \<and> (j_failure j = FAILURE_NONE \<longleftrightarrow> j_retry_count j = 0) \<and>
          (j_retry_count j = 0 \<longrightarrow> j_updated_at_ms j = j_created_at_ms j)
      | JOB_ASSIGNED \<Rightarrow>
          job_owned_wf j \<and> j_failure j = FAILURE_NONE \<and> j_result j = [] \<and>
          j_updated_at_ms j = j_assigned_at_ms j \<and>
          j_started_at_ms j = TIME_UNSET \<and> j_finished_at_ms j = TIME_UNSET
      | JOB_RUNNING \<Rightarrow>
          job_owned_wf j \<and> j_failure j = FAILURE_NONE \<and> j_result j = [] \<and>
          j_assigned_at_ms j \<le> j_started_at_ms j \<and> j_updated_at_ms j = j_started_at_ms j \<and>
          j_finished_at_ms j = TIME_UNSET
      | JOB_DONE \<Rightarrow>
          job_owned_wf j \<and> j_failure j = FAILURE_NONE \<and>
          j_assigned_at_ms j \<le> j_started_at_ms j \<and> j_started_at_ms j \<le> j_finished_at_ms j \<and>
          j_updated_at_ms j = j_finished_at_ms j
      | JOB_FAILED \<Rightarrow>
          job_owned_wf j \<and> j_failure j \<noteq> FAILURE_NONE \<and> j_result j = [] \<and>
          j_retry_count j = j_max_retries j \<and>
          (j_started_at_ms j = TIME_UNSET \<or> j_assigned_at_ms j \<le> j_started_at_ms j) \<and>
          j_assigned_at_ms j \<le> j_finished_at_ms j \<and> j_started_at_ms j \<le> j_finished_at_ms j \<and>
          j_updated_at_ms j = j_finished_at_ms j)"

definition job_wf :: "faultline_job \<Rightarrow> bool" where
  "job_wf j \<longleftrightarrow> job_common_wf j \<and> job_state_wf j"

lemmas job_wf_defs [wf_simps] =
  job_wf_def job_common_wf_def job_times_wf_def job_state_wf_def job_owned_wf_def

lemmas job_op_defs = faultline_job_init_def faultline_job_assign_def faultline_job_start_def
  faultline_job_complete_def faultline_job_fail_def

lemmas job_check_defs = check_payload_def check_transition_def check_attempt_def copied_bytes_def

section \<open>When the operations succeed\<close>

lemma can_transition_iff:
  "faultline_job_can_transition s t \<longleftrightarrow>
     (s = JOB_QUEUED \<and> t = JOB_ASSIGNED) \<or>
     (s = JOB_ASSIGNED \<and> t \<in> {JOB_RUNNING, JOB_QUEUED, JOB_FAILED}) \<or>
     (s = JOB_RUNNING \<and> t \<in> {JOB_DONE, JOB_QUEUED, JOB_FAILED})"
  by (cases s; cases t) auto

lemma job_assign_Inr_iff [outcome_simps]:
  "faultline_job_assign j w now = Inr j' \<longleftrightarrow>
     j_state j = JOB_QUEUED \<and> 0 \<le> now \<and> j_updated_at_ms j \<le> now \<and> w \<noteq> 0 \<and>
     j' = j\<lparr> j_state := JOB_ASSIGNED, j_worker_id := w, j_attempt := j_attempt j + 1,
             j_assigned_at_ms := now, j_updated_at_ms := now, j_failure := FAILURE_NONE \<rparr>"
  by (auto simp: faultline_job_assign_def check_transition_def can_transition_iff
      split: if_splits)

lemma job_start_Inr_iff [outcome_simps]:
  "faultline_job_start j w a now = Inr j' \<longleftrightarrow>
     j_state j = JOB_ASSIGNED \<and> 0 \<le> now \<and> j_updated_at_ms j \<le> now \<and>
     w \<noteq> 0 \<and> a \<noteq> 0 \<and> w = j_worker_id j \<and> a = j_attempt j \<and>
     j' = j\<lparr> j_state := JOB_RUNNING, j_started_at_ms := now, j_updated_at_ms := now \<rparr>"
  by (auto simp: faultline_job_start_def check_transition_def check_attempt_def can_transition_iff
      split: if_splits)

lemma job_complete_Inr_iff [outcome_simps]:
  "faultline_job_complete j w a data n now = Inr j' \<longleftrightarrow>
     j_state j = JOB_RUNNING \<and> 0 \<le> now \<and> j_updated_at_ms j \<le> now \<and>
     w \<noteq> 0 \<and> a \<noteq> 0 \<and> w = j_worker_id j \<and> a = j_attempt j \<and>
     n \<le> FAULTLINE_JOB_MAX_RESULT_SIZE \<and> (data = None \<longrightarrow> n = 0) \<and>
     j' = j\<lparr> j_result := copied_bytes data n, j_state := JOB_DONE, j_finished_at_ms := now,
             j_updated_at_ms := now \<rparr>"
  by (auto simp: faultline_job_complete_def check_transition_def check_attempt_def check_payload_def
      can_transition_iff split: if_splits)

definition failed_job :: "faultline_job \<Rightarrow> job_failure \<Rightarrow> int \<Rightarrow> faultline_job" where
  "failed_job j f now =
     (if j_retry_count j < j_max_retries j
      then j\<lparr> j_state := JOB_QUEUED, j_updated_at_ms := now, j_failure := f,
              j_retry_count := j_retry_count j + 1, j_worker_id := 0,
              j_assigned_at_ms := TIME_UNSET, j_started_at_ms := TIME_UNSET,
              j_finished_at_ms := TIME_UNSET \<rparr>
      else j\<lparr> j_state := JOB_FAILED, j_updated_at_ms := now, j_failure := f,
              j_finished_at_ms := now \<rparr>)"

lemma failed_job_simps [simp]:
  "j_id (failed_job j f now) = j_id j"
  "j_task_type (failed_job j f now) = j_task_type j"
  "j_arguments (failed_job j f now) = j_arguments j"
  "j_max_retries (failed_job j f now) = j_max_retries j"
  "j_created_at_ms (failed_job j f now) = j_created_at_ms j"
  "j_updated_at_ms (failed_job j f now) = now"
  "j_attempt (failed_job j f now) = j_attempt j"
  "j_failure (failed_job j f now) = f"
  "j_result (failed_job j f now) = j_result j"
  "j_state (failed_job j f now) =
     (if j_retry_count j < j_max_retries j then JOB_QUEUED else JOB_FAILED)"
  "j_worker_id (failed_job j f now) =
     (if j_retry_count j < j_max_retries j then 0 else j_worker_id j)"
  by (simp_all add: failed_job_def)

lemma job_fail_Inr_iff [outcome_simps]:
  "faultline_job_fail j w a f now = Inr j' \<longleftrightarrow>
     f \<noteq> FAILURE_NONE \<and> j_state j \<in> {JOB_ASSIGNED, JOB_RUNNING} \<and> 0 \<le> now \<and>
     j_updated_at_ms j \<le> now \<and> w \<noteq> 0 \<and> a \<noteq> 0 \<and> w = j_worker_id j \<and> a = j_attempt j \<and>
     j' = failed_job j f now"
  by (cases f; auto simp: faultline_job_fail_def failed_job_def check_transition_def check_attempt_def
      can_transition_iff Let_def split: if_splits)

lemma job_init_Inr_iff [outcome_simps]:
  "faultline_job_init i t args n m now = Inr j \<longleftrightarrow>
     i \<noteq> 0 \<and> 0 \<le> now \<and> n \<le> FAULTLINE_JOB_MAX_ARGUMENT_SIZE \<and> (args = None \<longrightarrow> n = 0) \<and>
     (\<exists>task. t = Some task \<and> j = \<lparr> j_id = i, j_task_type = task, j_arguments = copied_bytes args n,
        j_state = JOB_QUEUED, j_worker_id = 0, j_attempt = 0, j_retry_count = 0,
        j_max_retries = m, j_created_at_ms = now, j_updated_at_ms = now,
        j_assigned_at_ms = TIME_UNSET, j_started_at_ms = TIME_UNSET,
        j_finished_at_ms = TIME_UNSET, j_result = [], j_failure = FAILURE_NONE \<rparr>)"
  by (auto simp: faultline_job_init_def check_payload_def split: option.splits if_splits)

section \<open>The invariant\<close>

lemma length_copied_bytes: "length (copied_bytes data n) \<le> n"
  by (auto simp: copied_bytes_def split: option.splits)

lemma job_init_wf: "faultline_job_init i t args n m now = Inr j \<Longrightarrow> now \<le> INT64_MAX \<Longrightarrow> job_wf j"
  using length_copied_bytes [of args n]
  by (auto simp: job_init_Inr_iff job_wf_defs FAULTLINE_JOB_MAX_RESULT_SIZE_def)

lemma job_assign_wf:
  "faultline_job_assign j w now = Inr j' \<Longrightarrow> job_wf j \<Longrightarrow> now \<le> INT64_MAX \<Longrightarrow> job_wf j'"
  by (auto simp: job_assign_Inr_iff job_wf_defs)

lemma job_start_wf:
  "faultline_job_start j w a now = Inr j' \<Longrightarrow> job_wf j \<Longrightarrow> now \<le> INT64_MAX \<Longrightarrow> job_wf j'"
  by (auto simp: job_start_Inr_iff job_wf_defs)

lemma job_complete_wf:
  "faultline_job_complete j w a data n now = Inr j' \<Longrightarrow> job_wf j \<Longrightarrow> now \<le> INT64_MAX \<Longrightarrow> job_wf j'"
  using length_copied_bytes [of data n]
  by (auto simp: job_complete_Inr_iff job_wf_defs)

lemma failed_job_wf:
  assumes "job_wf j" "j_state j \<in> {JOB_ASSIGNED, JOB_RUNNING}" "f \<noteq> FAILURE_NONE"
    "j_updated_at_ms j \<le> now" "now \<le> INT64_MAX"
  shows "job_wf (failed_job j f now)"
  using assms widen_inc_below [of "j_retry_count j" "j_max_retries j"]
    inc_below [of "j_retry_count j" "j_max_retries j"]
  by (auto simp: failed_job_def job_wf_defs not_less)

lemma job_fail_wf:
  "faultline_job_fail j w a f now = Inr j' \<Longrightarrow> job_wf j \<Longrightarrow> now \<le> INT64_MAX \<Longrightarrow> job_wf j'"
  by (auto simp: job_fail_Inr_iff intro: failed_job_wf)

lemmas job_op_wf = job_init_wf job_assign_wf job_start_wf job_complete_wf job_fail_wf

section \<open>The life cycle as a transition system\<close>

inductive job_created :: "faultline_job \<Rightarrow> bool" where
  created: "faultline_job_init i t args n m now = Inr j \<Longrightarrow> now \<le> INT64_MAX \<Longrightarrow> job_created j"

inductive job_step :: "faultline_job \<Rightarrow> faultline_job \<Rightarrow> bool" where
  assign: "faultline_job_assign j w now = Inr j' \<Longrightarrow> now \<le> INT64_MAX \<Longrightarrow> job_step j j'"
| begin_run: "faultline_job_start j w a now = Inr j' \<Longrightarrow> now \<le> INT64_MAX \<Longrightarrow> job_step j j'"
| complete: "faultline_job_complete j w a data n now = Inr j' \<Longrightarrow> now \<le> INT64_MAX \<Longrightarrow> job_step j j'"
| fail: "faultline_job_fail j w a f now = Inr j' \<Longrightarrow> now \<le> INT64_MAX \<Longrightarrow> job_step j j'"

inductive_cases job_stepE: "job_step j j'"

interpretation jobs: invariant_system job_created job_step job_wf
  by unfold_locales (auto elim!: job_created.cases job_stepE intro: job_op_wf)

lemma job_step_transition: "job_step j j' \<Longrightarrow> faultline_job_can_transition (j_state j) (j_state j')"
  by (auto elim!: job_stepE simp: outcome_simps can_transition_iff split: if_splits)

lemma job_step_keeps:
  "job_step j j' \<Longrightarrow>
     j_id j' = j_id j \<and> j_max_retries j' = j_max_retries j \<and> j_task_type j' = j_task_type j \<and>
     j_arguments j' = j_arguments j \<and> j_created_at_ms j' = j_created_at_ms j \<and>
     j_updated_at_ms j \<le> j_updated_at_ms j'"
  by (auto elim!: job_stepE simp: outcome_simps)

text \<open>What is left of a job's life: three transitions for each attempt still allowed.\<close>

fun stage :: "job_state \<Rightarrow> nat" where
  "stage JOB_QUEUED = 3"
| "stage JOB_ASSIGNED = 2"
| "stage JOB_RUNNING = 1"
| "stage JOB_DONE = 0"
| "stage JOB_FAILED = 0"

definition job_rank :: "faultline_job \<Rightarrow> nat" where
  "job_rank j = 3 * (unat (j_max_retries j) - unat (j_retry_count j)) + stage (j_state j)"

lemma failed_job_rank:
  "j_state j \<in> {JOB_ASSIGNED, JOB_RUNNING} \<Longrightarrow> job_rank (failed_job j f now) < job_rank j"
  using unat_inc_below [of "j_retry_count j" "j_max_retries j"]
  by (auto simp: failed_job_def job_rank_def word_less_nat_alt)

lemma job_step_rank: "job_step j j' \<Longrightarrow> job_rank j' < job_rank j"
  by (auto elim!: job_stepE simp: outcome_simps failed_job_rank) (auto simp: job_rank_def)

lemma job_steps_rank: "(job_step ^^ k) j j' \<Longrightarrow> k + job_rank j' \<le> job_rank j"
proof (induction k arbitrary: j')
  case (Suc k)
  then obtain m where "(job_step ^^ k) j m" "job_step m j'" by auto
  then show ?case using Suc.IH [of m] job_step_rank [of m j'] by simp
qed simp

lemma job_steps_keep:
  "(job_step ^^ k) j j' \<Longrightarrow> j_id j' = j_id j \<and> j_max_retries j' = j_max_retries j"
proof (induction k arbitrary: j')
  case (Suc k)
  then show ?case using job_step_keeps by (metis relpowp_Suc_E)
qed simp

lemma job_wf_attempt_bound: "job_wf j \<Longrightarrow> unat (j_attempt j) \<le> unat (j_max_retries j) + 1"
proof -
  assume wf: "job_wf j"
  then have le: "unat (j_retry_count j) \<le> unat (j_max_retries j)"
    by (simp add: job_wf_def job_common_wf_def word_le_nat_alt)
  have "unat (ucast (j_retry_count j) + 1 :: u64) \<le> unat (j_retry_count j) + 1"
    using unat_u32_less [of "j_retry_count j"] by (simp add: unat_word_ariths)
  then show ?thesis
    using wf le by (auto simp: job_wf_def job_state_wf_def job_owned_wf_def split: job_state.splits)
qed

section \<open>Properties\<close>

text \<open>
  Claim C1. Every record that job.c can produce, by creating a job and applying any sequence of
  successful transitions with clock values in range, is well formed.
\<close>

theorem job_reachable_wf: "reachable job_created job_step j \<Longrightarrow> job_wf j"
  by (rule jobs.reachable_inv)

definition sample_job :: faultline_job where
  "sample_job = \<lparr> j_id = 7, j_task_type = TASK_HASH, j_arguments = [1, 2], j_state = JOB_QUEUED,
     j_worker_id = 0, j_attempt = 0, j_retry_count = 0, j_max_retries = 1,
     j_created_at_ms = 10, j_updated_at_ms = 10, j_assigned_at_ms = TIME_UNSET,
     j_started_at_ms = TIME_UNSET, j_finished_at_ms = TIME_UNSET, j_result = [],
     j_failure = FAILURE_NONE \<rparr>"

definition sample_assigned :: faultline_job where
  "sample_assigned = sample_job\<lparr> j_state := JOB_ASSIGNED, j_worker_id := 3, j_attempt := 1,
     j_assigned_at_ms := 20, j_updated_at_ms := 20 \<rparr>"

lemma sample_init:
  "faultline_job_init 7 (Some TASK_HASH) (Some [1, 2]) 2 1 10 = Inr sample_job"
  by (simp add: job_init_Inr_iff sample_job_def copied_bytes_def FAULTLINE_JOB_MAX_ARGUMENT_SIZE_def)

lemma sample_step: "job_step sample_job sample_assigned"
  by (rule job_step.assign [of _ 3 20])
    (simp_all add: job_assign_Inr_iff sample_job_def sample_assigned_def)

theorem job_reachable_wf_witness:
  "reachable job_created job_step sample_assigned \<and> job_wf sample_assigned"
proof -
  have "job_created sample_job" by (rule job_created.created [OF sample_init]) simp
  then have "reachable job_created job_step sample_assigned"
    using sample_step by (blast intro: reachable.intros)
  then show ?thesis using job_reachable_wf by blast
qed

text \<open>
  Claim C2. A job's life is finite and its retry budget is respected: a job created with
  \<^verbatim>\<open>max_retries\<close> m makes at most 3 (m + 1) transitions, never has an attempt number above m + 1
  (so the 64-bit counter never wraps), and once no transition is left it is DONE or FAILED.
\<close>

theorem job_life_bounded:
  assumes "faultline_job_init i t args n m now = Inr j" "now \<le> INT64_MAX" "(job_step ^^ k) j j'"
  shows "k \<le> 3 * (unat m + 1) \<and> unat (j_attempt j') \<le> unat m + 1 \<and>
    (k = 3 * (unat m + 1) \<longrightarrow> j_state j' \<in> {JOB_DONE, JOB_FAILED})"
proof -
  have rank: "job_rank j = 3 * (unat m + 1)" and m: "j_max_retries j = m"
    using assms(1) by (auto simp: job_init_Inr_iff job_rank_def)
  have bound: "k + job_rank j' \<le> 3 * (unat m + 1)"
    using job_steps_rank [OF assms(3)] rank by simp
  have "job_wf j'"
    using jobs.steps_inv [OF relpowp_imp_rtranclp [OF assms(3)]] assms(1,2) by (auto intro: job_op_wf)
  then have attempts: "unat (j_attempt j') \<le> unat m + 1"
    using job_wf_attempt_bound [of j'] job_steps_keep [OF assms(3)] m by simp
  have "stage (j_state j') = 0 \<Longrightarrow> j_state j' \<in> {JOB_DONE, JOB_FAILED}"
    by (cases "j_state j'") simp_all
  then show ?thesis using bound attempts by (simp add: job_rank_def)
qed

theorem job_life_bounded_witness:
  "(job_step ^^ 1) sample_job sample_assigned \<and> (1::nat) \<le> 3 * (unat (1 :: u32) + 1) \<and>
   unat (j_attempt sample_assigned) \<le> unat (1 :: u32) + 1"
proof -
  have one: "(job_step ^^ 1) sample_job sample_assigned" using sample_step by (simp add: relcompp.simps)
  show ?thesis using job_life_bounded [OF sample_init _ one] one by simp
qed

end
