(* ===== verification/Bytes.thy ===== *)
theory Bytes
  imports Prelude
begin

text \<open>
  Big-endian fields as the log format writes and reads them (\<^verbatim>\<open>put_u16\<close> \dots \<^verbatim>\<open>get_u64\<close> of
  \<^verbatim>\<open>src/coordinator/wal_format.c\<close>; the wire protocol has the same routines under other names), and
  the interface of a self-delimiting encoding. A write at a cursor is the list of the bytes
  written; a read takes the buffer and an offset.
\<close>

unbundle bit_operations_syntax

section \<open>Fixed-width fields\<close>

definition put_u16 :: "u16 \<Rightarrow> bytes" where
  "put_u16 value = [ucast (drop_bit 8 value), ucast value]"

definition put_u32 :: "u32 \<Rightarrow> bytes" where
  "put_u32 value =
     [ucast (drop_bit 24 value), ucast (drop_bit 16 value), ucast (drop_bit 8 value), ucast value]"

definition put_u64 :: "u64 \<Rightarrow> bytes" where
  "put_u64 value = put_u32 (ucast (drop_bit 32 value)) @ put_u32 (ucast value)"

definition get_u16 :: "bytes \<Rightarrow> nat \<Rightarrow> u16" where
  "get_u16 b i = push_bit 8 (ucast (b ! i)) OR ucast (b ! (i + 1))"

definition get_u32 :: "bytes \<Rightarrow> nat \<Rightarrow> u32" where
  "get_u32 b i =
     push_bit 24 (ucast (b ! i)) OR push_bit 16 (ucast (b ! (i + 1))) OR
     push_bit 8 (ucast (b ! (i + 2))) OR ucast (b ! (i + 3))"

definition get_u64 :: "bytes \<Rightarrow> nat \<Rightarrow> u64" where
  "get_u64 b i = push_bit 32 (ucast (get_u32 b i)) OR ucast (get_u32 b (i + 4))"

lemma length_put [simp, codec_simps]:
  "length (put_u16 a) = 2" "length (put_u32 b) = 4" "length (put_u64 c) = 8"
  by (simp_all add: put_u16_def put_u32_def put_u64_def)

lemma get_put_u16 [simp, codec_simps]:
  "get_u16 (put_u16 v) 0 = v" "get_u16 (put_u16 v @ r) 0 = v"
  by (auto simp: get_u16_def put_u16_def bit_simps intro!: bit_word_eqI)

lemma join_u32:
  "push_bit 24 (ucast (ucast (drop_bit 24 v) :: u8)) OR push_bit 16 (ucast (ucast (drop_bit 16 v) :: u8)) OR
   push_bit 8 (ucast (ucast (drop_bit 8 v) :: u8)) OR ucast (ucast v :: u8) = (v :: u32)"
  (is "?joined = v")
proof (rule bit_word_eqI)
  fix n assume "n < LENGTH(32)"
  then consider "n < 8" | "8 \<le> n" "n < 16" | "16 \<le> n" "n < 24" | "24 \<le> n" "n < 32"
    by fastforce
  then show "bit ?joined n = bit v n"
    by cases (auto simp: bit_simps)
qed

lemma get_put_u32 [simp, codec_simps]:
  "get_u32 (put_u32 v) 0 = v" "get_u32 (put_u32 v @ r) 0 = v"
  by (simp_all add: get_u32_def put_u32_def nth_append join_u32)

lemma get_u16_skip [simp, codec_simps]:
  "length a \<le> i \<Longrightarrow> get_u16 (a @ r) i = get_u16 r (i - length a)"
  by (simp add: get_u16_def nth_append Suc_diff_le)

lemma get_u32_skip [simp, codec_simps]:
  "length a \<le> i \<Longrightarrow> get_u32 (a @ r) i = get_u32 r (i - length a)"
  by (simp add: get_u32_def nth_append Suc_diff_le)

lemma get_u64_skip [simp, codec_simps]:
  "length a \<le> i \<Longrightarrow> get_u64 (a @ r) i = get_u64 r (i - length a)"
  by (simp add: get_u64_def)

lemma get_put_u64 [simp, codec_simps]:
  "get_u64 (put_u64 v) 0 = v" "get_u64 (put_u64 v @ r) 0 = v"
  by (auto simp: get_u64_def put_u64_def bit_simps intro!: bit_word_eqI)

text \<open>A read looks at its own bytes only, and writing what was read gives them back.\<close>

lemma get_take [simp, codec_simps]:
  "i + 2 \<le> k \<Longrightarrow> get_u16 (take k b) i = get_u16 b i"
  "i + 4 \<le> k \<Longrightarrow> get_u32 (take k b) i = get_u32 b i"
  "i + 8 \<le> k \<Longrightarrow> get_u64 (take k b) i = get_u64 b i"
  by (simp_all add: get_u16_def get_u32_def get_u64_def)

lemma get_drop [codec_simps]:
  "k \<le> length b \<Longrightarrow> get_u16 (drop k b) i = get_u16 b (k + i)"
  "k \<le> length b \<Longrightarrow> get_u32 (drop k b) i = get_u32 b (k + i)"
  "k \<le> length b \<Longrightarrow> get_u64 (drop k b) i = get_u64 b (k + i)"
  by (simp_all add: get_u16_def get_u32_def get_u64_def ac_simps)

lemma take_drop_nth:
  "i + 2 \<le> length b \<Longrightarrow> take 2 (drop i b) = [b ! i, b ! (i + 1)]"
  "i + 4 \<le> length b \<Longrightarrow> take 4 (drop i b) = [b ! i, b ! (i + 1), b ! (i + 2), b ! (i + 3)]"
  by (simp_all add: list_eq_iff_nth_eq less_Suc_eq nth_Cons' numeral_eq_Suc)

lemma bit_above: "8 \<le> n \<Longrightarrow> \<not> bit (x :: u8) n" "32 \<le> n \<Longrightarrow> \<not> bit (y :: u32) n"
  using bit_imp_le_length [of x n] bit_imp_le_length [of y n] by auto

lemma split_u16: "ucast (drop_bit 8 (push_bit 8 (ucast (x :: u8)) OR ucast (y :: u8) :: u16)) = x"
  "ucast (push_bit 8 (ucast x) OR ucast y :: u16) = y"
  by (auto simp: bit_simps bit_above intro!: bit_word_eqI)

lemma split_u32:
  fixes a b c d :: u8
  defines "v \<equiv> push_bit 24 (ucast a) OR push_bit 16 (ucast b) OR push_bit 8 (ucast c) OR ucast d :: u32"
  shows "ucast (drop_bit 24 v) = a" "ucast (drop_bit 16 v) = b" "ucast (drop_bit 8 v) = c" "ucast v = d"
  by (auto simp: v_def bit_simps bit_above intro!: bit_word_eqI)

lemma put_get_u16 [codec_simps]: "i + 2 \<le> length b \<Longrightarrow> put_u16 (get_u16 b i) = take 2 (drop i b)"
  by (simp only: put_u16_def get_u16_def take_drop_nth split_u16)

lemma put_get_u32 [codec_simps]: "i + 4 \<le> length b \<Longrightarrow> put_u32 (get_u32 b i) = take 4 (drop i b)"
  by (simp only: put_u32_def get_u32_def take_drop_nth split_u32)

lemma split_u64: "ucast (drop_bit 32 (push_bit 32 (ucast (x :: u32)) OR ucast (y :: u32) :: u64)) = x"
  "ucast (push_bit 32 (ucast x) OR ucast y :: u64) = y"
  by (auto simp: bit_simps bit_above intro!: bit_word_eqI)

lemma take_take_drop: "take a (drop i b) @ take c (drop (i + a) b) = take (a + c) (drop i b)"
  by (simp add: take_add add.commute)

lemma merge_slices:
  "j = i + a \<Longrightarrow> take a (drop i b) @ take c (drop j b) = take (a + c) (drop i (b :: bytes))"
  "j = i + a \<Longrightarrow> take a (drop i b) @ take c (drop j b) @ r = take (a + c) (drop i b) @ r"
  "take a b @ take c (drop a b) = take (a + c) b"
  "take a b @ take c (drop a b) @ r = take (a + c) b @ r"
  by (simp_all add: take_add add.commute flip: append_assoc)

lemma put_get_u64 [codec_simps]: "i + 8 \<le> length b \<Longrightarrow> put_u64 (get_u64 b i) = take 8 (drop i b)"
  using put_get_u32 [of i b] put_get_u32 [of "i + 4" b] take_take_drop [of 4 i b 4]
  by (simp only: put_u64_def get_u64_def split_u64) simp

section \<open>Arrays of fixed-size entries\<close>

lemma length_concat_const: "(\<And>x. length (f x) = n) \<Longrightarrow> length (concat (map f xs)) = length xs * n"
  by (induction xs) auto

lemma read_entries:
  assumes "\<And>a x r. rd (a @ wr x @ r) (length a) = x" "\<And>x. length (wr x :: bytes) = n"
  shows "map (\<lambda>i. rd (a @ concat (map wr xs) @ r) (length a + i * n)) [0..<length xs] = xs"
proof (rule nth_equalityI)
  fix i assume "i < length (map (\<lambda>i. rd (a @ concat (map wr xs) @ r) (length a + i * n)) [0..<length xs])"
  then have i: "i < length xs" by simp
  have "concat (map wr xs) = concat (map wr (take i xs)) @ wr (xs ! i) @ concat (map wr (drop (Suc i) xs))"
    using id_take_nth_drop [OF i] by (metis concat.simps(2) concat_append list.simps(9) map_append)
  moreover have "length (concat (map wr (take i xs))) = i * n"
    using i assms(2) by (simp add: length_concat_const)
  ultimately have "rd (a @ concat (map wr xs) @ r) (length a + i * n) = xs ! i"
    using assms(1) [of "a @ concat (map wr (take i xs))" "xs ! i" "concat (map wr (drop (Suc i) xs)) @ r"] by simp
  then show "map (\<lambda>i. rd (a @ concat (map wr xs) @ r) (length a + i * n)) [0..<length xs] ! i = xs ! i"
    using i by simp
qed simp

lemma concat_slices:
  "concat (map (\<lambda>i. take n (drop (k + i * n) b)) [0..<c]) = take (c * n) (drop k (b :: bytes))"
proof (induction c)
  case (Suc c)
  then show ?case using take_take_drop [of "c * n" k b n] by (simp add: add.commute)
qed simp

lemma unat_word_of_nat_u32 [simp]: "n < 2 ^ 32 \<Longrightarrow> unat (word_of_nat n :: u32) = n"
  by (simp add: unsigned_of_nat take_bit_nat_eq_self)

section \<open>Self-delimiting encodings\<close>

text \<open>
  A decoder that is given at least one encoded item returns that item and the number of bytes it
  used, whatever follows. The laws make encodings prefix free and let a reader take a stream of
  items apart; \<open>ok\<close> is the set of items the encoder accepts.
\<close>

fun decode_many :: "(bytes \<Rightarrow> 'e + 'a \<times> nat) \<Rightarrow> nat \<Rightarrow> bytes \<Rightarrow> 'e + 'a list \<times> bytes" where
  "decode_many dec 0 b = Inr ([], b)"
| "decode_many dec (Suc n) b =
     (case dec b of
        Inl e \<Rightarrow> Inl e
      | Inr (x, used) \<Rightarrow>
          (case decode_many dec n (drop used b) of
             Inl e \<Rightarrow> Inl e
           | Inr (xs, rest) \<Rightarrow> Inr (x # xs, rest)))"

locale prefix_codec =
  fixes enc :: "'a \<Rightarrow> bytes"
    and dec :: "bytes \<Rightarrow> 'e + 'a \<times> nat"
    and ok :: "'a \<Rightarrow> bool"
  assumes dec_enc: "ok x \<Longrightarrow> dec (enc x @ rest) = Inr (x, length (enc x))"
begin

lemma enc_prefix_free:
  assumes "ok x" "ok y" "enc x @ r = enc y @ s"
  shows "x = y \<and> r = s"
proof -
  have "Inr (x, length (enc x)) = dec (enc x @ r)" using assms(1) by (simp add: dec_enc)
  also have "\<dots> = dec (enc y @ s)" using assms(3) by simp
  also have "\<dots> = Inr (y, length (enc y))" using assms(2) by (simp add: dec_enc)
  finally show ?thesis using assms(3) by simp
qed

lemma enc_inj: "ok x \<Longrightarrow> ok y \<Longrightarrow> enc x = enc y \<Longrightarrow> x = y"
  using enc_prefix_free [of x y "[]" "[]"] by simp

lemma decode_many_concat:
  "list_all ok xs \<Longrightarrow> decode_many dec (length xs) (concat (map enc xs) @ rest) = Inr (xs, rest)"
  by (induction xs) (simp_all add: dec_enc)

end

end
