(* ===== verification/Wal_Format.thy ===== *)
theory Wal_Format
  imports Job Bytes
begin

text \<open>
  The record format of the write-ahead log (\<^verbatim>\<open>include/wal.h\<close>, \<^verbatim>\<open>src/coordinator/wal_format.c\<close>): a file
  header, and records of a 32-byte header with two checksums and a payload that is either a worker
  identifier or the snapshot of a job after a transition. The tagged union of a record is a
  datatype, so the unknown record types exist only on disk. The lemmas show that records are read
  back exactly, that an unfinished record is told from a damaged one, that a change of any one byte
  of a record is caught by a checksum, and that every snapshot the job operations produce is accepted.
\<close>

unbundle bit_operations_syntax

section \<open>Records\<close>

definition FAULTLINE_WAL_VERSION :: u16 where "FAULTLINE_WAL_VERSION = 1"
definition FAULTLINE_WAL_FILE_HEADER_SIZE :: nat where "FAULTLINE_WAL_FILE_HEADER_SIZE = 24"
definition FAULTLINE_WAL_RECORD_MAGIC :: u32 where "FAULTLINE_WAL_RECORD_MAGIC = 0x464c5752"
definition FAULTLINE_WAL_RECORD_HEADER_SIZE :: nat where "FAULTLINE_WAL_RECORD_HEADER_SIZE = 32"
definition FAULTLINE_WAL_JOB_PREFIX_SIZE :: nat where "FAULTLINE_WAL_JOB_PREFIX_SIZE = 84"

definition FAULTLINE_WAL_MAX_PAYLOAD_SIZE :: nat where
  "FAULTLINE_WAL_MAX_PAYLOAD_SIZE =
     FAULTLINE_WAL_JOB_PREFIX_SIZE + FAULTLINE_JOB_MAX_ARGUMENT_SIZE + FAULTLINE_JOB_MAX_RESULT_SIZE"

definition FAULTLINE_WAL_MAX_RECORD_SIZE :: nat where
  "FAULTLINE_WAL_MAX_RECORD_SIZE = FAULTLINE_WAL_RECORD_HEADER_SIZE + FAULTLINE_WAL_MAX_PAYLOAD_SIZE"

lemmas wal_sizes =
  FAULTLINE_WAL_FILE_HEADER_SIZE_def FAULTLINE_WAL_RECORD_HEADER_SIZE_def
  FAULTLINE_WAL_JOB_PREFIX_SIZE_def FAULTLINE_WAL_MAX_PAYLOAD_SIZE_def
  FAULTLINE_WAL_MAX_RECORD_SIZE_def FAULTLINE_JOB_MAX_ARGUMENT_SIZE_def
  FAULTLINE_JOB_MAX_RESULT_SIZE_def

datatype wal_job_event =
    WAL_JOB_CREATED
  | WAL_JOB_ASSIGNED
  | WAL_JOB_STARTED
  | WAL_JOB_COMPLETED
  | WAL_JOB_REQUEUED
  | WAL_JOB_FAILED

datatype wal_record_type = WAL_WORKER_ID_ALLOCATED | WAL_JOB wal_job_event

fun wal_type_code :: "wal_record_type \<Rightarrow> u16" where
  "wal_type_code WAL_WORKER_ID_ALLOCATED = 1"
| "wal_type_code (WAL_JOB WAL_JOB_CREATED) = 2"
| "wal_type_code (WAL_JOB WAL_JOB_ASSIGNED) = 3"
| "wal_type_code (WAL_JOB WAL_JOB_STARTED) = 4"
| "wal_type_code (WAL_JOB WAL_JOB_COMPLETED) = 5"
| "wal_type_code (WAL_JOB WAL_JOB_REQUEUED) = 6"
| "wal_type_code (WAL_JOB WAL_JOB_FAILED) = 7"

definition wal_type_of_code :: "u16 \<Rightarrow> wal_record_type option" where
  "wal_type_of_code c =
     (if c = 1 then Some WAL_WORKER_ID_ALLOCATED
      else if c = 2 then Some (WAL_JOB WAL_JOB_CREATED)
      else if c = 3 then Some (WAL_JOB WAL_JOB_ASSIGNED)
      else if c = 4 then Some (WAL_JOB WAL_JOB_STARTED)
      else if c = 5 then Some (WAL_JOB WAL_JOB_COMPLETED)
      else if c = 6 then Some (WAL_JOB WAL_JOB_REQUEUED)
      else if c = 7 then Some (WAL_JOB WAL_JOB_FAILED)
      else None)"

datatype wal_payload = WORKER_ID u32 | JOB_SNAPSHOT wal_job_event faultline_job

fun payload_type :: "wal_payload \<Rightarrow> wal_record_type" where
  "payload_type (WORKER_ID _) = WAL_WORKER_ID_ALLOCATED"
| "payload_type (JOB_SNAPSHOT event _) = WAL_JOB event"

record faultline_wal_record =
  wr_sequence :: u64
  wr_payload :: wal_payload

record faultline_wal_record_header =
  wh_type :: wal_record_type
  wh_sequence :: u64
  wh_payload_length :: u32
  wh_payload_crc32 :: u32

datatype wal_error =
    WAL_INVALID_ARGUMENT
  | WAL_BUFFER_TOO_SMALL
  | WAL_INCOMPLETE
  | WAL_BAD_CHECKSUM
  | WAL_BAD_MAGIC
  | WAL_UNSUPPORTED_VERSION
  | WAL_INVALID_HEADER
  | WAL_UNKNOWN_RECORD_TYPE
  | WAL_INVALID_SEQUENCE
  | WAL_INVALID_PAYLOAD_LENGTH
  | WAL_INVALID_PAYLOAD

section \<open>Checksum\<close>

definition crc_bit :: "u32 \<Rightarrow> u32" where
  "crc_bit crc = drop_bit 1 crc XOR (if crc AND 1 \<noteq> 0 then 0xedb88320 else 0)"

definition crc_byte :: "u32 \<Rightarrow> u8 \<Rightarrow> u32" where
  "crc_byte crc b = (crc_bit ^^ 8) (crc XOR ucast b)"

definition crc32 :: "bytes \<Rightarrow> u32" where
  "crc32 data = foldl crc_byte 0xffffffff data XOR 0xffffffff"

section \<open>Validation\<close>

fun payload_bounds :: "wal_record_type \<Rightarrow> nat \<times> nat" where
  "payload_bounds WAL_WORKER_ID_ALLOCATED = (4, 4)"
| "payload_bounds (WAL_JOB WAL_JOB_COMPLETED) =
     (FAULTLINE_WAL_JOB_PREFIX_SIZE, FAULTLINE_WAL_MAX_PAYLOAD_SIZE)"
| "payload_bounds (WAL_JOB _) =
     (FAULTLINE_WAL_JOB_PREFIX_SIZE, FAULTLINE_WAL_JOB_PREFIX_SIZE + FAULTLINE_JOB_MAX_ARGUMENT_SIZE)"

definition valid_failure :: "job_failure \<Rightarrow> bool" where
  "valid_failure failure \<longleftrightarrow> failure = FAILURE_TASK \<or> failure = FAILURE_WORKER_LOST"

definition valid_job :: "wal_job_event \<Rightarrow> faultline_job \<Rightarrow> bool" where
  "valid_job type job \<longleftrightarrow>
     \<not> (j_id job = 0 \<or> length (j_arguments job) > FAULTLINE_JOB_MAX_ARGUMENT_SIZE \<or>
        length (j_result job) > FAULTLINE_JOB_MAX_RESULT_SIZE \<or> j_retry_count job > j_max_retries job \<or>
        j_created_at_ms job < 0 \<or> j_updated_at_ms job < j_created_at_ms job) \<and>
     (if type = WAL_JOB_CREATED \<or> type = WAL_JOB_REQUEUED
      then
        \<not> (j_state job \<noteq> JOB_QUEUED \<or> j_worker_id job \<noteq> 0 \<or> length (j_result job) \<noteq> 0 \<or>
           j_assigned_at_ms job \<noteq> - 1 \<or> j_started_at_ms job \<noteq> - 1 \<or> j_finished_at_ms job \<noteq> - 1) \<and>
        (if type = WAL_JOB_CREATED
         then j_attempt job = 0 \<and> j_retry_count job = 0 \<and> j_failure job = FAILURE_NONE \<and>
              j_updated_at_ms job = j_created_at_ms job
         else j_retry_count job \<noteq> 0 \<and> j_attempt job = ucast (j_retry_count job) \<and>
              valid_failure (j_failure job))
      else
        \<not> (j_worker_id job = 0 \<or> j_attempt job \<noteq> ucast (j_retry_count job) + 1 \<or>
           j_assigned_at_ms job < j_created_at_ms job \<or> j_updated_at_ms job < j_assigned_at_ms job) \<and>
        (case type of
           WAL_JOB_ASSIGNED \<Rightarrow>
             j_state job = JOB_ASSIGNED \<and> j_failure job = FAILURE_NONE \<and> length (j_result job) = 0 \<and>
             j_updated_at_ms job = j_assigned_at_ms job \<and> j_started_at_ms job = - 1 \<and>
             j_finished_at_ms job = - 1
         | WAL_JOB_STARTED \<Rightarrow>
             j_state job = JOB_RUNNING \<and> j_failure job = FAILURE_NONE \<and> length (j_result job) = 0 \<and>
             j_started_at_ms job \<ge> j_assigned_at_ms job \<and> j_updated_at_ms job = j_started_at_ms job \<and>
             j_finished_at_ms job = - 1
         | WAL_JOB_COMPLETED \<Rightarrow>
             j_state job = JOB_DONE \<and> j_failure job = FAILURE_NONE \<and>
             j_started_at_ms job \<ge> j_assigned_at_ms job \<and> j_finished_at_ms job \<ge> j_started_at_ms job \<and>
             j_updated_at_ms job = j_finished_at_ms job
         | WAL_JOB_FAILED \<Rightarrow>
             j_state job = JOB_FAILED \<and> valid_failure (j_failure job) \<and>
             j_retry_count job = j_max_retries job \<and> length (j_result job) = 0 \<and>
             (j_started_at_ms job = - 1 \<or> j_started_at_ms job \<ge> j_assigned_at_ms job) \<and>
             j_finished_at_ms job \<ge> j_assigned_at_ms job \<and> j_finished_at_ms job \<ge> j_started_at_ms job \<and>
             j_updated_at_ms job = j_finished_at_ms job
         | _ \<Rightarrow> False))"

section \<open>File header\<close>

definition file_magic :: bytes where
  "file_magic = [0x46, 0x4c, 0x49, 0x4e, 0x57, 0x41, 0x4c, 0]"

definition file_header_prefix :: bytes where
  "file_header_prefix =
     file_magic @ put_u16 FAULTLINE_WAL_VERSION @ put_u16 (word_of_nat FAULTLINE_WAL_FILE_HEADER_SIZE) @
     put_u32 0 @ put_u32 0"

definition faultline_wal_file_header_encode :: "nat \<Rightarrow> wal_error + bytes" where
  "faultline_wal_file_header_encode capacity =
     (if capacity < FAULTLINE_WAL_FILE_HEADER_SIZE then Inl WAL_BUFFER_TOO_SMALL
      else Inr (file_header_prefix @ put_u32 (crc32 file_header_prefix)))"

definition faultline_wal_file_header_decode :: "bytes \<Rightarrow> wal_error option" where
  "faultline_wal_file_header_decode wire =
     (if length wire < FAULTLINE_WAL_FILE_HEADER_SIZE then Some WAL_INCOMPLETE
      else if get_u32 wire 20 \<noteq> crc32 (take 20 wire) then Some WAL_BAD_CHECKSUM
      else if take 8 wire \<noteq> file_magic then Some WAL_BAD_MAGIC
      else if get_u16 wire 8 \<noteq> FAULTLINE_WAL_VERSION then Some WAL_UNSUPPORTED_VERSION
      else if get_u16 wire 10 \<noteq> word_of_nat FAULTLINE_WAL_FILE_HEADER_SIZE \<or>
        get_u32 wire 12 \<noteq> 0 \<or> get_u32 wire 16 \<noteq> 0 then Some WAL_INVALID_HEADER
      else None)"

section \<open>Record headers\<close>

definition faultline_wal_record_header_decode ::
  "bytes \<Rightarrow> u64 \<Rightarrow> wal_error + faultline_wal_record_header" where
  "faultline_wal_record_header_decode wire expected_sequence =
     (if expected_sequence = 0 then Inl WAL_INVALID_ARGUMENT
      else if length wire < FAULTLINE_WAL_RECORD_HEADER_SIZE then Inl WAL_INCOMPLETE
      else if get_u32 wire 28 \<noteq> crc32 (take 28 wire) then Inl WAL_BAD_CHECKSUM
      else if get_u32 wire 0 \<noteq> FAULTLINE_WAL_RECORD_MAGIC then Inl WAL_BAD_MAGIC
      else if get_u16 wire 4 \<noteq> FAULTLINE_WAL_VERSION then Inl WAL_UNSUPPORTED_VERSION
      else if get_u32 wire 12 \<noteq> 0 then Inl WAL_INVALID_HEADER
      else
        (case wal_type_of_code (get_u16 wire 6) of
           None \<Rightarrow> Inl WAL_UNKNOWN_RECORD_TYPE
         | Some ty \<Rightarrow>
             (let decoded = \<lparr> wh_type = ty, wh_sequence = get_u64 wire 16,
                              wh_payload_length = get_u32 wire 8, wh_payload_crc32 = get_u32 wire 24 \<rparr> in
              case payload_bounds ty of
                (minimum, maximum) \<Rightarrow>
                  if unat (wh_payload_length decoded) < minimum \<or> unat (wh_payload_length decoded) > maximum
                  then Inl WAL_INVALID_PAYLOAD_LENGTH
                  else if wh_sequence decoded \<noteq> expected_sequence then Inl WAL_INVALID_SEQUENCE
                  else Inr decoded)))"

section \<open>Records\<close>

definition encode_job :: "faultline_job \<Rightarrow> bytes" where
  "encode_job job =
     put_u64 (j_id job) @ put_u16 (task_code (j_task_type job)) @ put_u16 (state_code (j_state job)) @
     put_u32 (j_worker_id job) @ put_u64 (j_attempt job) @ put_u32 (j_retry_count job) @
     put_u32 (j_max_retries job) @ put_u64 (word_of_int (j_created_at_ms job)) @
     put_u64 (word_of_int (j_updated_at_ms job)) @ put_u64 (word_of_int (j_assigned_at_ms job)) @
     put_u64 (word_of_int (j_started_at_ms job)) @ put_u64 (word_of_int (j_finished_at_ms job)) @
     put_u16 (failure_code (j_failure job)) @ put_u16 0 @
     put_u32 (word_of_nat (length (j_arguments job))) @ put_u32 (word_of_nat (length (j_result job))) @
     j_arguments job @ j_result job"

fun encode_payload_bytes :: "wal_payload \<Rightarrow> bytes" where
  "encode_payload_bytes (WORKER_ID worker_id) = put_u32 worker_id"
| "encode_payload_bytes (JOB_SNAPSHOT event job) = encode_job job"

fun wal_payload_size :: "wal_payload \<Rightarrow> nat" where
  "wal_payload_size (WORKER_ID _) = 4"
| "wal_payload_size (JOB_SNAPSHOT event job) =
     FAULTLINE_WAL_JOB_PREFIX_SIZE + length (j_arguments job) + length (j_result job)"

fun valid_payload :: "wal_payload \<Rightarrow> bool" where
  "valid_payload (WORKER_ID worker_id) \<longleftrightarrow> worker_id \<noteq> 0"
| "valid_payload (JOB_SNAPSHOT event job) \<longleftrightarrow> valid_job event job"

definition record_header_prefix :: "faultline_wal_record \<Rightarrow> bytes" where
  "record_header_prefix record =
     put_u32 FAULTLINE_WAL_RECORD_MAGIC @ put_u16 FAULTLINE_WAL_VERSION @
     put_u16 (wal_type_code (payload_type (wr_payload record))) @
     put_u32 (word_of_nat (wal_payload_size (wr_payload record))) @ put_u32 0 @
     put_u64 (wr_sequence record) @ put_u32 (crc32 (encode_payload_bytes (wr_payload record)))"

definition faultline_wal_record_encode :: "nat \<Rightarrow> faultline_wal_record \<Rightarrow> wal_error + bytes" where
  "faultline_wal_record_encode capacity record =
     (if wr_sequence record = 0 then Inl WAL_INVALID_SEQUENCE
      else if \<not> valid_payload (wr_payload record) then Inl WAL_INVALID_PAYLOAD
      else if capacity < FAULTLINE_WAL_RECORD_HEADER_SIZE + wal_payload_size (wr_payload record)
      then Inl WAL_BUFFER_TOO_SMALL
      else Inr (record_header_prefix record @ put_u32 (crc32 (record_header_prefix record)) @
                encode_payload_bytes (wr_payload record)))"

definition decode_time :: "u64 \<Rightarrow> int option" where
  "decode_time value =
     (if value = - 1 then Some TIME_UNSET
      else if uint value \<le> INT64_MAX then Some (uint value)
      else None)"

text \<open>
  The fields of a job payload as an option: an enumeration or time value outside its range makes
  \<^verbatim>\<open>valid_job\<close> or \<^verbatim>\<open>decode_time\<close> fail, which the caller reports with the same code.
\<close>

definition decode_job_fields :: "bytes \<Rightarrow> nat \<Rightarrow> nat \<Rightarrow> faultline_job option" where
  "decode_job_fields b arguments results =
     (case (task_of_code (get_u16 b 8), state_of_code (get_u16 b 10), failure_of_code (get_u16 b 72)) of
        (Some task, Some state, Some failure) \<Rightarrow>
          (case (decode_time (get_u64 b 32), decode_time (get_u64 b 40), decode_time (get_u64 b 48),
                 decode_time (get_u64 b 56), decode_time (get_u64 b 64)) of
             (Some created, Some updated, Some assigned, Some started, Some finished) \<Rightarrow>
               Some \<lparr> j_id = get_u64 b 0, j_task_type = task,
                 j_arguments = take arguments (drop FAULTLINE_WAL_JOB_PREFIX_SIZE b),
                 j_state = state, j_worker_id = get_u32 b 12, j_attempt = get_u64 b 16,
                 j_retry_count = get_u32 b 24, j_max_retries = get_u32 b 28,
                 j_created_at_ms = created, j_updated_at_ms = updated, j_assigned_at_ms = assigned,
                 j_started_at_ms = started, j_finished_at_ms = finished,
                 j_result = take results (drop (FAULTLINE_WAL_JOB_PREFIX_SIZE + arguments) b),
                 j_failure = failure \<rparr>
           | _ \<Rightarrow> None)
      | _ \<Rightarrow> None)"

definition decode_job :: "bytes \<Rightarrow> wal_job_event \<Rightarrow> wal_error + faultline_job" where
  "decode_job b type =
     (let arguments = unat (get_u32 b 76); results = unat (get_u32 b 80) in
      if arguments > FAULTLINE_JOB_MAX_ARGUMENT_SIZE \<or> results > FAULTLINE_JOB_MAX_RESULT_SIZE \<or>
        length b \<noteq> FAULTLINE_WAL_JOB_PREFIX_SIZE + arguments + results
      then Inl WAL_INVALID_PAYLOAD_LENGTH
      else if get_u16 b 74 \<noteq> 0 then Inl WAL_INVALID_PAYLOAD
      else
        (case decode_job_fields b arguments results of
           None \<Rightarrow> Inl WAL_INVALID_PAYLOAD
         | Some job \<Rightarrow> if valid_job type job then Inr job else Inl WAL_INVALID_PAYLOAD))"

fun decode_payload :: "wal_record_type \<Rightarrow> bytes \<Rightarrow> wal_error + wal_payload" where
  "decode_payload WAL_WORKER_ID_ALLOCATED b =
     (if get_u32 b 0 = 0 then Inl WAL_INVALID_PAYLOAD else Inr (WORKER_ID (get_u32 b 0)))"
| "decode_payload (WAL_JOB event) b = map_sum id (JOB_SNAPSHOT event) (decode_job b event)"

definition faultline_wal_record_decode ::
  "bytes \<Rightarrow> u64 \<Rightarrow> wal_error + faultline_wal_record \<times> nat" where
  "faultline_wal_record_decode wire expected_sequence =
     (case faultline_wal_record_header_decode wire expected_sequence of
        Inl e \<Rightarrow> Inl e
      | Inr header \<Rightarrow>
          (let total = FAULTLINE_WAL_RECORD_HEADER_SIZE + unat (wh_payload_length header) in
           if length wire < total then Inl WAL_INCOMPLETE
           else
             (let payload = take (unat (wh_payload_length header)) (drop FAULTLINE_WAL_RECORD_HEADER_SIZE wire) in
              if crc32 payload \<noteq> wh_payload_crc32 header then Inl WAL_BAD_CHECKSUM
              else
                (case decode_payload (wh_type header) payload of
                   Inl e \<Rightarrow> Inl e
                 | Inr p \<Rightarrow> Inr (\<lparr> wr_sequence = wh_sequence header, wr_payload = p \<rparr>, total)))))"

section \<open>The checksum notices a changed byte\<close>

text \<open>The feedback polynomial has its top bit set, so a shifted register determines the register.\<close>

lemma crc_bit_msb: "bit (crc_bit x) 31 \<longleftrightarrow> bit x 0"
proof -
  have "\<not> bit x 32" using bit_imp_le_length [of x 32] by auto
  moreover have "bit (0xedb88320 :: u32) 31" by (simp add: bit_numeral_rec)
  moreover have "x AND 1 \<noteq> 0 \<longleftrightarrow> bit x 0"
    by (simp add: and_one_eq bit_0 odd_iff_mod_2_eq_one)
  ultimately show ?thesis by (simp add: crc_bit_def bit_simps)
qed

lemma xor_cancel [simp]: "(x :: u32) XOR a = y XOR a \<longleftrightarrow> x = y" "a XOR (x :: u32) = a XOR y \<longleftrightarrow> x = y"
  by (auto simp: bit_eq_iff bit_simps)

lemma crc_bit_inj: "crc_bit x = crc_bit y \<Longrightarrow> x = y"
proof -
  assume eq: "crc_bit x = crc_bit y"
  then have low: "bit x 0 \<longleftrightarrow> bit y 0" using crc_bit_msb by metis
  have one: "z AND 1 \<noteq> 0 \<longleftrightarrow> bit z 0" for z :: u32
    by (simp add: and_one_eq bit_0 odd_iff_mod_2_eq_one)
  have "drop_bit 1 x = drop_bit 1 y"
    using eq low by (auto simp: crc_bit_def one split: if_splits)
  then have "bit x (Suc n) \<longleftrightarrow> bit y (Suc n)" for n
    by (metis add.commute bit_drop_bit_eq comp_apply plus_1_eq_Suc)
  then show "x = y" using low by (intro bit_eqI) (metis not0_implies_Suc)
qed

lemma crc_bits_inj: "(crc_bit ^^ n) x = (crc_bit ^^ n) y \<Longrightarrow> x = y"
  by (induction n arbitrary: x y) (auto simp: funpow_swap1 dest: crc_bit_inj)

lemma crc_byte_inj_state: "crc_byte x b = crc_byte y b \<Longrightarrow> x = y"
  by (auto simp: crc_byte_def dest!: crc_bits_inj)

lemma crc_byte_inj_byte: "crc_byte x a = crc_byte x b \<Longrightarrow> a = b"
proof -
  assume "crc_byte x a = crc_byte x b"
  then have "x XOR ucast a = x XOR (ucast b :: u32)" unfolding crc_byte_def by (rule crc_bits_inj)
  then have "(ucast a :: u32) = ucast b" by simp
  then have "bit a n \<longleftrightarrow> bit b n" for n
    by (cases "n < 8") (auto simp: bit_above bit_eq_iff bit_simps)
  then show "a = b" by (rule bit_eqI)
qed

lemma crc_foldl_inj: "foldl crc_byte x data = foldl crc_byte y data \<Longrightarrow> x = y"
  by (induction data arbitrary: x y) (auto dest: crc_byte_inj_state)

lemma crc32_changed_byte:
  assumes "i < length data" "b \<noteq> data ! i"
  shows "crc32 (data[i := b]) \<noteq> crc32 data"
proof
  let ?before = "foldl crc_byte 0xffffffff (take i data)"
  assume "crc32 (data[i := b]) = crc32 data"
  then have "foldl crc_byte 0xffffffff (data[i := b]) = foldl crc_byte 0xffffffff data"
    by (simp add: crc32_def)
  moreover have "foldl crc_byte 0xffffffff data = foldl crc_byte (crc_byte ?before (data ! i)) (drop (Suc i) data)"
    using arg_cong [OF id_take_nth_drop [OF assms(1)], of "foldl crc_byte 0xffffffff"] by simp
  moreover have "foldl crc_byte 0xffffffff (data[i := b]) = foldl crc_byte (crc_byte ?before b) (drop (Suc i) data)"
    using assms(1) by (simp add: upd_conv_take_nth_drop)
  ultimately have "crc_byte ?before b = crc_byte ?before (data ! i)" using crc_foldl_inj by metis
  then show False using assms(2) crc_byte_inj_byte by blast
qed

section \<open>Records are read back\<close>

definition int64_times :: "faultline_job \<Rightarrow> bool" where
  "int64_times j \<longleftrightarrow>
     (\<forall>t \<in> {j_created_at_ms j, j_updated_at_ms j, j_assigned_at_ms j, j_started_at_ms j, j_finished_at_ms j}.
        t \<le> INT64_MAX)"

lemma decode_time_word:
  assumes "t = - 1 \<or> 0 \<le> t" "t \<le> INT64_MAX"
  shows "decode_time (word_of_int t) = Some t"
proof (cases "t = - 1")
  case False
  then have "uint (word_of_int t :: u64) = t"
    using assms by (simp add: unsigned_of_int take_bit_int_eq_self)
  moreover from this have "(word_of_int t :: u64) \<noteq> - 1"
    using assms by (auto simp: unsigned_minus_1_eq_mask mask_eq_exp_minus_1)
  ultimately show ?thesis using assms by (simp add: decode_time_def)
qed (simp add: decode_time_def)

text \<open>A valid snapshot has only unset or non-negative times.\<close>

lemma valid_job_times:
  "valid_job e j \<Longrightarrow>
     0 \<le> j_created_at_ms j \<and> 0 \<le> j_updated_at_ms j \<and> (j_assigned_at_ms j = - 1 \<or> 0 \<le> j_assigned_at_ms j) \<and>
     (j_started_at_ms j = - 1 \<or> 0 \<le> j_started_at_ms j) \<and> (j_finished_at_ms j = - 1 \<or> 0 \<le> j_finished_at_ms j)"
  by (cases e) (auto simp: valid_job_def)

lemma valid_job_sizes:
  "valid_job e j \<Longrightarrow> length (j_arguments j) \<le> FAULTLINE_JOB_MAX_ARGUMENT_SIZE \<and>
     length (j_result j) \<le> FAULTLINE_JOB_MAX_RESULT_SIZE \<and> (e \<noteq> WAL_JOB_COMPLETED \<longrightarrow> j_result j = [])"
  by (cases e) (auto simp: valid_job_def)

lemma length_encode_job: "length (encode_job j) =
  FAULTLINE_WAL_JOB_PREFIX_SIZE + length (j_arguments j) + length (j_result j)"
  by (simp add: encode_job_def FAULTLINE_WAL_JOB_PREFIX_SIZE_def)

lemma decode_encode_job:
  assumes "valid_job e j" "int64_times j"
  shows "decode_job (encode_job j) e = Inr j"
proof -
  have times: "decode_time (word_of_int t) = Some t"
    if "t \<in> {j_created_at_ms j, j_updated_at_ms j, j_assigned_at_ms j, j_started_at_ms j, j_finished_at_ms j}" for t
    using that assms valid_job_times [OF assms(1)] by (intro decode_time_word) (auto simp: int64_times_def)
  have sizes: "length (j_arguments j) < 2 ^ 32" "length (j_result j) < 2 ^ 32"
    using valid_job_sizes [OF assms(1)] by (simp_all add: wal_sizes)
  have "decode_job_fields (encode_job j) (length (j_arguments j)) (length (j_result j)) = Some j"
    by (simp add: decode_job_fields_def encode_job_def times code_roundtrips FAULTLINE_WAL_JOB_PREFIX_SIZE_def)
  moreover have "get_u32 (encode_job j) 76 = word_of_nat (length (j_arguments j))"
    "get_u32 (encode_job j) 80 = word_of_nat (length (j_result j))" "get_u16 (encode_job j) 74 = 0"
    by (simp_all add: encode_job_def)
  ultimately show ?thesis
    using assms(1) sizes valid_job_sizes [OF assms(1)]
    by (simp add: decode_job_def Let_def length_encode_job)
qed

fun payload_int64 :: "wal_payload \<Rightarrow> bool" where
  "payload_int64 (WORKER_ID _) = True"
| "payload_int64 (JOB_SNAPSHOT _ j) = int64_times j"

lemma length_encode_payload_bytes: "length (encode_payload_bytes p) = wal_payload_size p"
  by (cases p) (simp_all add: length_encode_job)

lemma valid_payload_bounds:
  "valid_payload p \<Longrightarrow> (case payload_bounds (payload_type p) of (lo, hi) \<Rightarrow> lo \<le> wal_payload_size p \<and> wal_payload_size p \<le> hi) \<and>
     wal_payload_size p \<le> FAULTLINE_WAL_MAX_PAYLOAD_SIZE"
proof (cases p)
  case (JOB_SNAPSHOT e j)
  assume "valid_payload p"
  then have "valid_job e j" using JOB_SNAPSHOT by simp
  from valid_job_sizes [OF this] show ?thesis unfolding JOB_SNAPSHOT by (cases e) (auto simp: wal_sizes)
qed (simp add: wal_sizes)

lemma length_record_header_prefix [simp]: "length (record_header_prefix r) = 28"
  by (simp add: record_header_prefix_def)

lemma type_code_roundtrip [simp]: "wal_type_of_code (wal_type_code ty) = Some ty"
  by (cases ty rule: wal_type_code.cases) (simp_all add: wal_type_of_code_def)

definition record_header :: "faultline_wal_record \<Rightarrow> faultline_wal_record_header" where
  "record_header r =
     \<lparr> wh_type = payload_type (wr_payload r), wh_sequence = wr_sequence r,
       wh_payload_length = word_of_nat (wal_payload_size (wr_payload r)),
       wh_payload_crc32 = crc32 (encode_payload_bytes (wr_payload r)) \<rparr>"

lemma record_size_small: "valid_payload p \<Longrightarrow> wal_payload_size p < 2 ^ 32"
  using valid_payload_bounds [of p] by (simp add: wal_sizes)

lemma header_decode_encode:
  assumes "valid_payload (wr_payload r)" "wr_sequence r \<noteq> 0"
  shows "faultline_wal_record_header_decode
    (record_header_prefix r @ put_u32 (crc32 (record_header_prefix r)) @ rest) (wr_sequence r) = Inr (record_header r)"
proof -
  have fields: "get_u32 (record_header_prefix r @ rest') 0 = FAULTLINE_WAL_RECORD_MAGIC"
    "get_u16 (record_header_prefix r @ rest') 4 = FAULTLINE_WAL_VERSION"
    "get_u16 (record_header_prefix r @ rest') 6 = wal_type_code (payload_type (wr_payload r))"
    "get_u32 (record_header_prefix r @ rest') 8 = word_of_nat (wal_payload_size (wr_payload r))"
    "get_u32 (record_header_prefix r @ rest') 12 = 0"
    "get_u64 (record_header_prefix r @ rest') 16 = wr_sequence r"
    "get_u32 (record_header_prefix r @ rest') 24 = crc32 (encode_payload_bytes (wr_payload r))" for rest'
    by (simp_all add: record_header_prefix_def)
  show ?thesis
    using assms valid_payload_bounds [OF assms(1)] record_size_small [OF assms(1)]
    by (auto simp: faultline_wal_record_header_decode_def fields FAULTLINE_WAL_RECORD_HEADER_SIZE_def
        record_header_def split: prod.splits)
qed

lemma record_encode_Inr_iff [outcome_simps]:
  "faultline_wal_record_encode cap r = Inr wire \<longleftrightarrow>
     wr_sequence r \<noteq> 0 \<and> valid_payload (wr_payload r) \<and>
     FAULTLINE_WAL_RECORD_HEADER_SIZE + wal_payload_size (wr_payload r) \<le> cap \<and>
     wire = record_header_prefix r @ put_u32 (crc32 (record_header_prefix r)) @ encode_payload_bytes (wr_payload r)"
  by (auto simp: faultline_wal_record_encode_def)

lemma decode_payload_encode:
  "valid_payload p \<Longrightarrow> payload_int64 p \<Longrightarrow> decode_payload (payload_type p) (encode_payload_bytes p) = Inr p"
  by (cases p) (simp_all add: decode_encode_job)

lemma record_decode_encode:
  assumes "faultline_wal_record_encode cap r = Inr wire" "payload_int64 (wr_payload r)"
  shows "faultline_wal_record_decode (wire @ rest) (wr_sequence r) = Inr (r, length wire)"
proof -
  note enc = assms(1) [unfolded record_encode_Inr_iff]
  have head: "faultline_wal_record_header_decode (wire @ rest) (wr_sequence r) = Inr (record_header r)"
    using header_decode_encode [of r] enc by simp
  have len: "length wire = FAULTLINE_WAL_RECORD_HEADER_SIZE + wal_payload_size (wr_payload r)"
    using enc by (simp add: length_encode_payload_bytes FAULTLINE_WAL_RECORD_HEADER_SIZE_def)
  have "drop FAULTLINE_WAL_RECORD_HEADER_SIZE (wire @ rest) = encode_payload_bytes (wr_payload r) @ rest"
    using enc by (simp add: FAULTLINE_WAL_RECORD_HEADER_SIZE_def)
  then show ?thesis
    using head len record_size_small [of "wr_payload r"] enc decode_payload_encode [OF _ assms(2)]
    by (cases r) (simp add: faultline_wal_record_decode_def record_header_def Let_def length_encode_payload_bytes)
qed

section \<open>Unfinished and damaged records\<close>

lemma record_header_decode_take:
  "FAULTLINE_WAL_RECORD_HEADER_SIZE \<le> k \<Longrightarrow>
     faultline_wal_record_header_decode (take k wire) seq = faultline_wal_record_header_decode wire seq"
  by (auto simp: faultline_wal_record_header_decode_def FAULTLINE_WAL_RECORD_HEADER_SIZE_def min_def
      cong: option.case_cong)

lemma record_decode_prefix:
  assumes "faultline_wal_record_encode cap r = Inr wire" "k < length wire"
  shows "faultline_wal_record_decode (take k wire) (wr_sequence r) = Inl WAL_INCOMPLETE"
proof -
  note enc = assms(1) [unfolded record_encode_Inr_iff]
  have len: "length wire = FAULTLINE_WAL_RECORD_HEADER_SIZE + wal_payload_size (wr_payload r)"
    using enc by (simp add: length_encode_payload_bytes FAULTLINE_WAL_RECORD_HEADER_SIZE_def)
  show ?thesis
  proof (cases "FAULTLINE_WAL_RECORD_HEADER_SIZE \<le> k")
    case True
    have "faultline_wal_record_header_decode (take k wire) (wr_sequence r) = Inr (record_header r)"
      using header_decode_encode [of r] enc record_header_decode_take [OF True] by metis
    moreover have "unat (wh_payload_length (record_header r)) = wal_payload_size (wr_payload r)"
      using record_size_small [of "wr_payload r"] enc by (simp add: record_header_def)
    ultimately show ?thesis using len assms(2) by (simp add: faultline_wal_record_decode_def Let_def)
  next
    case False
    then have "length (take k wire) < FAULTLINE_WAL_RECORD_HEADER_SIZE" by simp
    then show ?thesis
      using enc by (simp add: faultline_wal_record_decode_def faultline_wal_record_header_decode_def)
  qed
qed

text \<open>A different byte in one of four positions reads as a different field.\<close>

lemma get_u32_changed:
  assumes "k \<le> i" "i < k + 4" "k + 4 \<le> length d" "b \<noteq> d ! i"
  shows "get_u32 (d[i := b]) k \<noteq> get_u32 d k"
proof
  assume "get_u32 (d[i := b]) k = get_u32 d k"
  then have "put_u32 (get_u32 (d[i := b]) k) = put_u32 (get_u32 d k)" by simp
  then have "take 4 (drop k (d[i := b])) = take 4 (drop k d)" using assms(3) by (simp add: put_get_u32)
  then have "take 4 (drop k (d[i := b])) ! (i - k) = take 4 (drop k d) ! (i - k)" by simp
  then show False using assms by simp
qed

lemma record_decode_damaged:
  assumes "faultline_wal_record_encode cap r = Inr wire" "i < length wire" "b \<noteq> wire ! i"
  shows "faultline_wal_record_decode (wire[i := b] @ rest) (wr_sequence r) = Inl WAL_BAD_CHECKSUM"
proof -
  note enc = assms(1) [unfolded record_encode_Inr_iff]
  let ?h = "record_header_prefix r" and ?p = "encode_payload_bytes (wr_payload r)"
  have wire: "wire = ?h @ put_u32 (crc32 ?h) @ ?p" using enc by simp
  have crc: "get_u32 wire 28 = crc32 ?h" "take 28 wire = ?h" by (simp_all add: wire)
  show ?thesis
  proof (cases "i < 32")
    case True
    have "get_u32 (wire[i := b] @ rest) 28 \<noteq> crc32 (take 28 (wire[i := b] @ rest))"
    proof (cases "i < 28")
      case True
      then have "take 28 (wire[i := b] @ rest) = ?h[i := b]" "get_u32 (wire[i := b] @ rest) 28 = crc32 ?h"
        by (simp_all add: wire list_update_append)
      moreover have "b \<noteq> ?h ! i" using assms(3) True by (simp add: wire nth_append)
      ultimately show ?thesis using crc32_changed_byte [of i ?h b] True by simp
    next
      case False
      then have "take 28 (wire[i := b] @ rest) = ?h" by (simp add: wire list_update_append)
      moreover have "get_u32 (wire[i := b] @ rest) 28 = get_u32 (wire[i := b]) 28"
        using get_take(2) [of 28 "length wire" "wire[i := b] @ rest"] by (simp add: wire)
      moreover have "get_u32 (wire[i := b]) 28 \<noteq> get_u32 wire 28"
        using \<open>i < 32\<close> False assms(3) by (intro get_u32_changed) (auto simp: wire)
      ultimately show ?thesis using crc(1) by simp
    qed
    moreover have "32 \<le> length (wire[i := b] @ rest)" by (simp add: wire)
    ultimately show ?thesis
      using enc by (simp add: faultline_wal_record_decode_def faultline_wal_record_header_decode_def
          FAULTLINE_WAL_RECORD_HEADER_SIZE_def)
  next
    case False
    then have far: "\<not> i < 28" "\<not> i - 28 < 4" by linarith+
    then have upd: "wire[i := b] = ?h @ put_u32 (crc32 ?h) @ ?p[i - 32 := b]"
      by (simp add: wire list_update_append)
    have head: "faultline_wal_record_header_decode (wire[i := b] @ rest) (wr_sequence r) = Inr (record_header r)"
      using header_decode_encode [of r "?p[i - 32 := b] @ rest"] enc unfolding upd by simp
    have "b \<noteq> ?p ! (i - 32)" "i - 32 < length ?p"
      using assms(2,3) False far by (simp_all add: wire nth_append)
    then have "crc32 (?p[i - 32 := b]) \<noteq> crc32 ?p" using crc32_changed_byte by blast
    moreover have "unat (wh_payload_length (record_header r)) = length ?p"
      using record_size_small [of "wr_payload r"] enc by (simp add: record_header_def length_encode_payload_bytes)
    ultimately show ?thesis
      using head unfolding upd
      by (simp add: faultline_wal_record_decode_def Let_def FAULTLINE_WAL_RECORD_HEADER_SIZE_def)
        (simp add: record_header_def)
  qed
qed

section \<open>Accepted records\<close>

lemma decode_time_Some: "decode_time v = Some t \<Longrightarrow> word_of_int t = v \<and> t \<le> INT64_MAX"
  by (auto simp: decode_time_def split: if_splits)

lemma decode_job_Inr:
  assumes "decode_job b e = Inr j"
  shows "valid_job e j \<and> int64_times j \<and> encode_job j = b"
proof -
  let ?a = "unat (get_u32 b 76)" and ?r = "unat (get_u32 b 80)"
  have len: "length b = FAULTLINE_WAL_JOB_PREFIX_SIZE + ?a + ?r" and zero: "get_u16 b 74 = 0"
    and fields: "decode_job_fields b ?a ?r = Some j" and valid: "valid_job e j"
    using assms by (auto simp: decode_job_def Let_def split: if_splits option.splits)
  have "encode_job j =
      put_u64 (get_u64 b 0) @ put_u16 (get_u16 b 8) @ put_u16 (get_u16 b 10) @ put_u32 (get_u32 b 12) @
      put_u64 (get_u64 b 16) @ put_u32 (get_u32 b 24) @ put_u32 (get_u32 b 28) @ put_u64 (get_u64 b 32) @
      put_u64 (get_u64 b 40) @ put_u64 (get_u64 b 48) @ put_u64 (get_u64 b 56) @ put_u64 (get_u64 b 64) @
      put_u16 (get_u16 b 72) @ put_u16 (get_u16 b 74) @ put_u32 (get_u32 b 76) @ put_u32 (get_u32 b 80) @
      take ?a (drop 84 b) @ take ?r (drop (84 + ?a) b)"
    using fields len zero
    by (auto simp: decode_job_fields_def encode_job_def FAULTLINE_WAL_JOB_PREFIX_SIZE_def
        dest!: decode_time_Some of_code_Some split: option.splits)
  also have "\<dots> = b"
    using len by (simp add: put_get_u16 put_get_u32 put_get_u64 merge_slices FAULTLINE_WAL_JOB_PREFIX_SIZE_def)
  finally have "encode_job j = b" .
  moreover have "int64_times j"
    using fields decode_time_Some
    by (auto simp: decode_job_fields_def int64_times_def split: option.splits)
  ultimately show ?thesis using valid by simp
qed

lemma decode_payload_Inr:
  assumes "decode_payload ty b = Inr p" "ty = WAL_WORKER_ID_ALLOCATED \<Longrightarrow> length b = 4"
  shows "payload_type p = ty \<and> valid_payload p \<and> payload_int64 p \<and> encode_payload_bytes p = b"
proof (cases ty)
  case WAL_WORKER_ID_ALLOCATED
  then show ?thesis using assms by (auto simp: put_get_u32 split: if_splits)
next
  case (WAL_JOB e)
  then obtain j where "decode_job b e = Inr j" "p = JOB_SNAPSHOT e j"
    using assms(1) by (auto simp: map_sum_def split: sum.splits)
  then show ?thesis using decode_job_Inr [of b e j] WAL_JOB by simp
qed

lemma wal_type_of_code_Some: "wal_type_of_code c = Some ty \<Longrightarrow> wal_type_code ty = c"
  by (cases ty rule: wal_type_code.cases) (auto simp: wal_type_of_code_def split: if_splits)

lemma record_header_decode_Inr:
  assumes "faultline_wal_record_header_decode wire seq = Inr h"
  shows "seq \<noteq> 0 \<and> 32 \<le> length wire \<and> wh_sequence h = seq \<and> get_u32 wire 28 = crc32 (take 28 wire) \<and>
    (wh_type h = WAL_WORKER_ID_ALLOCATED \<longrightarrow> unat (wh_payload_length h) = 4) \<and>
    take 28 wire = put_u32 FAULTLINE_WAL_RECORD_MAGIC @ put_u16 FAULTLINE_WAL_VERSION @
      put_u16 (wal_type_code (wh_type h)) @ put_u32 (wh_payload_length h) @ put_u32 0 @ put_u64 (wh_sequence h) @
      put_u32 (wh_payload_crc32 h)"
proof -
  have fields: "seq \<noteq> 0" "32 \<le> length wire" "get_u32 wire 28 = crc32 (take 28 wire)"
    "get_u32 wire 0 = FAULTLINE_WAL_RECORD_MAGIC" "get_u16 wire 4 = FAULTLINE_WAL_VERSION" "get_u32 wire 12 = 0"
    "wal_type_of_code (get_u16 wire 6) = Some (wh_type h)" "wh_sequence h = seq"
    "wh_sequence h = get_u64 wire 16" "wh_payload_length h = get_u32 wire 8" "wh_payload_crc32 h = get_u32 wire 24"
    "wh_type h = WAL_WORKER_ID_ALLOCATED \<Longrightarrow> unat (wh_payload_length h) = 4"
    using assms
    by (auto simp: faultline_wal_record_header_decode_def FAULTLINE_WAL_RECORD_HEADER_SIZE_def Let_def
        split: if_splits option.splits prod.splits)
  have code: "wal_type_code (wh_type h) = get_u16 wire 6" using fields(7) by (rule wal_type_of_code_Some)
  have "take 28 wire = put_u32 (get_u32 wire 0) @ put_u16 (get_u16 wire 4) @ put_u16 (get_u16 wire 6) @
    put_u32 (get_u32 wire 8) @ put_u32 (get_u32 wire 12) @ put_u64 (get_u64 wire 16) @ put_u32 (get_u32 wire 24)"
    using fields(2) by (simp add: put_get_u16 put_get_u32 put_get_u64 merge_slices)
  then show ?thesis using fields code by simp
qed

lemma record_decode_Inr:
  assumes "faultline_wal_record_decode wire seq = Inr (r, n)"
  shows "wr_sequence r = seq \<and> valid_payload (wr_payload r) \<and> payload_int64 (wr_payload r) \<and> n \<le> length wire \<and>
    faultline_wal_record_encode FAULTLINE_WAL_MAX_RECORD_SIZE r = Inr (take n wire)"
proof -
  obtain h p where h: "faultline_wal_record_header_decode wire seq = Inr h"
    and n: "n = 32 + unat (wh_payload_length h)" "n \<le> length wire"
    and crc: "crc32 (take (unat (wh_payload_length h)) (drop 32 wire)) = wh_payload_crc32 h"
    and p: "decode_payload (wh_type h) (take (unat (wh_payload_length h)) (drop 32 wire)) = Inr p"
    and r: "r = \<lparr> wr_sequence = wh_sequence h, wr_payload = p \<rparr>"
    using assms by (auto simp: faultline_wal_record_decode_def Let_def FAULTLINE_WAL_RECORD_HEADER_SIZE_def
        split: sum.splits if_splits)
  note head = record_header_decode_Inr [OF h]
  let ?b = "take (unat (wh_payload_length h)) (drop 32 wire)"
  have len: "length ?b = unat (wh_payload_length h)" using n by simp
  have dec: "payload_type p = wh_type h" "valid_payload p" "payload_int64 p" "encode_payload_bytes p = ?b"
    using decode_payload_Inr [OF p] head len by metis+
  then have size: "word_of_nat (wal_payload_size p) = wh_payload_length h" "wal_payload_size p = unat (wh_payload_length h)"
    using length_encode_payload_bytes [of p] len by simp_all
  then have "record_header_prefix r = take 28 wire"
    using head dec crc r by (simp add: record_header_prefix_def)
  moreover have "put_u32 (crc32 (take 28 wire)) = take 4 (drop 28 wire)"
  proof -
    have "get_u32 wire 28 = crc32 (take 28 wire)" "28 + 4 \<le> length wire" using head by simp_all
    then show ?thesis using put_get_u32 by metis
  qed
  ultimately have "record_header_prefix r @ put_u32 (crc32 (record_header_prefix r)) @ encode_payload_bytes p = take n wire"
    using dec(4) n(1) by (simp add: merge_slices)
  then show ?thesis
    using head dec n size valid_payload_bounds [OF dec(2)] r
    by (simp add: record_encode_Inr_iff FAULTLINE_WAL_MAX_RECORD_SIZE_def)
qed

section \<open>Snapshots of the job operations\<close>

text \<open>The event a job's state is logged under when it is reached from an earlier record.\<close>

fun state_event :: "job_state \<Rightarrow> wal_job_event" where
  "state_event JOB_QUEUED = WAL_JOB_REQUEUED"
| "state_event JOB_ASSIGNED = WAL_JOB_ASSIGNED"
| "state_event JOB_RUNNING = WAL_JOB_STARTED"
| "state_event JOB_DONE = WAL_JOB_COMPLETED"
| "state_event JOB_FAILED = WAL_JOB_FAILED"

lemma failure_not_none: "f \<noteq> FAILURE_NONE \<longleftrightarrow> valid_failure f"
  by (cases f) (simp_all add: valid_failure_def)

lemma job_wf_valid:
  "job_wf j \<Longrightarrow> (j_state j = JOB_QUEUED \<Longrightarrow> j_retry_count j \<noteq> 0) \<Longrightarrow> valid_job (state_event (j_state j)) j"
  by (cases "j_state j") (auto simp: valid_job_def job_wf_defs failure_not_none [symmetric])

lemma job_wf_valid_created: "job_wf j \<Longrightarrow> j_state j = JOB_QUEUED \<Longrightarrow> j_retry_count j = 0 \<Longrightarrow> valid_job WAL_JOB_CREATED j"
  by (auto simp: valid_job_def job_wf_defs)

lemma job_wf_int64: "job_wf j \<Longrightarrow> int64_times j"
  by (cases "j_state j") (auto simp: int64_times_def job_wf_defs)

lemma valid_job_wf: "valid_job e j \<Longrightarrow> int64_times j \<Longrightarrow> job_wf j"
  by (cases e) (auto simp: valid_job_def int64_times_def job_wf_defs failure_not_none [symmetric])

section \<open>File headers and streams of records\<close>

definition file_header :: bytes where
  "file_header = file_header_prefix @ put_u32 (crc32 file_header_prefix)"

lemma length_file_header [simp]: "length file_header = FAULTLINE_WAL_FILE_HEADER_SIZE"
  by (simp add: file_header_def file_header_prefix_def file_magic_def FAULTLINE_WAL_FILE_HEADER_SIZE_def)

lemma file_header_encode: "faultline_wal_file_header_encode FAULTLINE_WAL_FILE_HEADER_SIZE = Inr file_header"
  by (simp add: faultline_wal_file_header_encode_def file_header_def)

lemma file_header_decode [simp]: "faultline_wal_file_header_decode (file_header @ rest) = None"
proof -
  have magic: "length file_magic = 8" by (simp add: file_magic_def)
  then have "length file_header_prefix = 20" by (simp add: file_header_prefix_def)
  moreover have "take 8 (file_header @ rest) = file_magic" "get_u16 (file_header @ rest) 8 = FAULTLINE_WAL_VERSION"
    "get_u16 (file_header @ rest) 10 = word_of_nat FAULTLINE_WAL_FILE_HEADER_SIZE"
    "get_u32 (file_header @ rest) 12 = 0" "get_u32 (file_header @ rest) 16 = 0"
    using magic by (simp_all add: file_header_def file_header_prefix_def)
  ultimately show ?thesis
    by (simp add: faultline_wal_file_header_decode_def) (simp add: file_header_def FAULTLINE_WAL_FILE_HEADER_SIZE_def)
qed

definition loggable :: "faultline_wal_record \<Rightarrow> bool" where
  "loggable r \<longleftrightarrow> wr_sequence r \<noteq> 0 \<and> valid_payload (wr_payload r) \<and> payload_int64 (wr_payload r)"

definition record_bytes :: "faultline_wal_record \<Rightarrow> bytes" where
  "record_bytes r =
     record_header_prefix r @ put_u32 (crc32 (record_header_prefix r)) @ encode_payload_bytes (wr_payload r)"

lemma loggable_encode:
  "loggable r \<Longrightarrow> faultline_wal_record_encode FAULTLINE_WAL_MAX_RECORD_SIZE r = Inr (record_bytes r)"
  using valid_payload_bounds [of "wr_payload r"]
  by (simp add: record_encode_Inr_iff loggable_def record_bytes_def FAULTLINE_WAL_MAX_RECORD_SIZE_def)

lemma length_record_bytes:
  "length (record_bytes r) = FAULTLINE_WAL_RECORD_HEADER_SIZE + wal_payload_size (wr_payload r)"
  by (simp add: record_bytes_def length_encode_payload_bytes FAULTLINE_WAL_RECORD_HEADER_SIZE_def)

lemma decode_record_bytes:
  "loggable r \<Longrightarrow> faultline_wal_record_decode (record_bytes r @ rest) (wr_sequence r) = Inr (r, length (record_bytes r))"
  using record_decode_encode [OF loggable_encode] by (simp add: loggable_def)

text \<open>The records of one sequence number are a self-delimiting encoding.\<close>

interpretation wal_records: prefix_codec record_bytes "\<lambda>b. faultline_wal_record_decode b seq"
  "\<lambda>r. loggable r \<and> wr_sequence r = seq" for seq
  by unfold_locales (use decode_record_bytes in auto)

section \<open>Properties\<close>

text \<open>Claim C19. A log record is read back exactly: an encoded record whose times are 64-bit
  values decodes, whatever follows it, to the same record and its length.\<close>

theorem record_roundtrip:
  assumes "faultline_wal_record_encode capacity r = Inr wire" "payload_int64 (wr_payload r)"
  shows "faultline_wal_record_decode (wire @ rest) (wr_sequence r) = Inr (r, length wire)"
  using assms by (rule record_decode_encode)

definition sample_record :: faultline_wal_record where
  "sample_record = \<lparr> wr_sequence = 1, wr_payload = JOB_SNAPSHOT WAL_JOB_ASSIGNED sample_assigned \<rparr>"

lemma sample_record_loggable: "loggable sample_record"
  by (simp add: loggable_def sample_record_def sample_assigned_def sample_job_def valid_job_def int64_times_def
      wal_sizes)

lemma sample_record_encode:
  "faultline_wal_record_encode FAULTLINE_WAL_MAX_RECORD_SIZE sample_record = Inr (record_bytes sample_record)"
  by (rule loggable_encode [OF sample_record_loggable])

theorem record_roundtrip_witness:
  "loggable sample_record \<and>
   faultline_wal_record_decode (record_bytes sample_record @ [1, 2]) 1 = Inr (sample_record, 118)"
  using record_roundtrip [OF sample_record_encode, of "[1, 2]"] sample_record_loggable
  by (simp add: loggable_def length_record_bytes)
    (simp add: sample_record_def sample_assigned_def sample_job_def wal_sizes)

text \<open>Claim C20. A torn append is told from damage: every proper prefix of a record is classified
  as incomplete, never as corrupt and never as a record.\<close>

theorem torn_record_incomplete:
  assumes "faultline_wal_record_encode capacity r = Inr wire" "k < length wire"
  shows "faultline_wal_record_decode (take k wire) (wr_sequence r) = Inl WAL_INCOMPLETE"
  using assms by (rule record_decode_prefix)

theorem torn_record_incomplete_witness:
  "faultline_wal_record_decode (take 40 (record_bytes sample_record)) 1 = Inl WAL_INCOMPLETE"
  using torn_record_incomplete [OF sample_record_encode, of 40]
  by (simp add: length_record_bytes) (simp add: sample_record_def sample_assigned_def sample_job_def wal_sizes)

text \<open>Claim C21. Damage to one byte is always caught: replacing any byte of a complete record,
  header, checksum or payload, by a different value makes the decoder report a bad checksum. In
  particular a damaged length cannot make a complete record look unfinished.\<close>

theorem damaged_byte_detected:
  assumes "faultline_wal_record_encode capacity r = Inr wire" "i < length wire" "b \<noteq> wire ! i"
  shows "faultline_wal_record_decode (wire[i := b] @ rest) (wr_sequence r) = Inl WAL_BAD_CHECKSUM"
  using assms by (rule record_decode_damaged)

theorem damaged_byte_detected_witness:
  "faultline_wal_record_decode ((record_bytes sample_record)[0 := 0] @ []) 1 = Inl WAL_BAD_CHECKSUM"
proof -
  have "record_bytes sample_record ! 0 = 0x46"
    by (simp add: record_bytes_def record_header_prefix_def put_u32_def FAULTLINE_WAL_RECORD_MAGIC_def)
  moreover have "0 < length (record_bytes sample_record)" by (simp add: length_record_bytes wal_sizes)
  ultimately show ?thesis
    using damaged_byte_detected [OF sample_record_encode, of 0 0 "[]"] by (simp add: sample_record_def)
qed

text \<open>Claim C22. The decoder accepts nothing but what the encoder writes: an accepted record lies
  inside the available bytes, is valid, carries the expected sequence number, and encodes to exactly
  the bytes that were consumed.\<close>

theorem accepted_record_canonical:
  assumes "faultline_wal_record_decode wire seq = Inr (r, n)"
  shows "wr_sequence r = seq \<and> valid_payload (wr_payload r) \<and> n \<le> length wire \<and>
    faultline_wal_record_encode FAULTLINE_WAL_MAX_RECORD_SIZE r = Inr (take n wire)"
  using record_decode_Inr [OF assms] by blast

theorem accepted_record_canonical_witness:
  "faultline_wal_record_decode (record_bytes sample_record) 1 = Inr (sample_record, length (record_bytes sample_record)) \<and>
   valid_payload (wr_payload sample_record)"
proof -
  have "faultline_wal_record_decode (record_bytes sample_record) 1 = Inr (sample_record, length (record_bytes sample_record))"
    using decode_record_bytes [OF sample_record_loggable, of "[]"] by (simp add: sample_record_def)
  with accepted_record_canonical [OF this] show ?thesis by blast
qed

text \<open>Claim C23. The log's snapshot check and the job operations agree: a record with 64-bit times
  passes the check for one of the job events exactly when it is a well-formed job record.\<close>

theorem snapshot_check_matches_job:
  "(\<exists>event. valid_job event j) \<and> int64_times j \<longleftrightarrow> job_wf j"
proof
  assume "(\<exists>event. valid_job event j) \<and> int64_times j"
  then show "job_wf j" using valid_job_wf by blast
next
  assume "job_wf j"
  then show "(\<exists>event. valid_job event j) \<and> int64_times j"
    using job_wf_int64 job_wf_valid job_wf_valid_created by (cases "j_state j = JOB_QUEUED \<and> j_retry_count j = 0") blast+
qed

end
