(* ===== verification/Wal_Writer.thy ===== *)
theory Wal_Writer
  imports Wal_Format "HOL-Library.Monad_Syntax" "HOL-Library.Sublist"
begin

text \<open>
  The log writer (\<^verbatim>\<open>include/wal_writer.h\<close>, \<^verbatim>\<open>src/coordinator/wal_writer.c\<close>,
  \<^verbatim>\<open>src/coordinator/wal_writer_internal.h\<close>). The system calls are a record of functions over a
  world, with the members of \<^verbatim>\<open>struct faultline_wal_writer_io\<close> and the calls the writer makes
  directly; a call returns an \<open>errno\<close> or a value, and the next world. Loops that retry
  interrupted calls may never return, so they are partial: \<open>None\<close> means that the call does not
  return. The lemmas say what an append leaves in the file on every branch, that a failed writer
  stays failed and touches nothing, and that the loops return if interruptions do not go on forever.
\<close>

section \<open>The operating system\<close>

record 'w faultline_wal_writer_io =
  io_lock :: "int \<Rightarrow> 'w \<Rightarrow> (errno + unit) \<times> 'w"
  io_write :: "int \<Rightarrow> bytes \<Rightarrow> 'w \<Rightarrow> (errno + nat) \<times> 'w"
  io_sync :: "int \<Rightarrow> 'w \<Rightarrow> (errno + unit) \<times> 'w"
  io_close :: "int \<Rightarrow> 'w \<Rightarrow> (errno + unit) \<times> 'w"
  io_read :: "int \<Rightarrow> nat \<Rightarrow> 'w \<Rightarrow> (errno + bytes) \<times> 'w"
  io_truncate :: "int \<Rightarrow> nat \<Rightarrow> 'w \<Rightarrow> (errno + unit) \<times> 'w"
  os_allocate :: "'w \<Rightarrow> bool \<times> 'w"
  os_open_directory :: "string \<Rightarrow> 'w \<Rightarrow> (errno + int) \<times> 'w"
  os_openat :: "int \<Rightarrow> string \<Rightarrow> bool \<Rightarrow> 'w \<Rightarrow> (errno + int) \<times> 'w"
  os_fstat_regular :: "int \<Rightarrow> 'w \<Rightarrow> (errno + bool) \<times> 'w"

text \<open>The loop around a call that is repeated while it is interrupted.\<close>

partial_function (option) retry_eintr ::
  "('w \<Rightarrow> (errno + 'a) \<times> 'w) \<Rightarrow> 'w \<Rightarrow> ((errno + 'a) \<times> 'w) option" where
  "retry_eintr call w =
     (case call w of
        (Inl e, w') \<Rightarrow> if e = EINTR then retry_eintr call w' else Some (Inl e, w')
      | (Inr v, w') \<Rightarrow> Some (Inr v, w'))"

section \<open>The writer\<close>

datatype wal_writer_state = WRITER_CLOSED | WRITER_READY | WRITER_FAILED | WRITER_RECOVERING

datatype wal_writer_result =
    WRITE_OK
  | WRITE_INVALID_ARGUMENT
  | WRITE_INVALID_STATE
  | WRITE_INVALID_RECORD
  | WRITE_SEQUENCE_EXHAUSTED
  | WRITE_IO_ERROR

datatype wal_writer_operation =
    IO_NONE
  | IO_ALLOCATE_PATH
  | IO_OPEN_DIRECTORY
  | IO_CREATE_FILE
  | IO_LOCK
  | IO_WRITE_HEADER
  | IO_SYNC_HEADER
  | IO_SYNC_DIRECTORY
  | IO_WRITE_RECORD
  | IO_SYNC_RECORD
  | IO_CLOSE_FILE
  | IO_CLOSE_DIRECTORY
  | IO_OPEN_EXISTING
  | IO_STAT_FILE
  | IO_READ_FILE
  | IO_ALLOCATE_REPLAY
  | IO_VALIDATE_REPLAY
  | IO_TRUNCATE_TAIL
  | IO_SYNC_RECOVERY

fun faultline_wal_writer_operation_name :: "wal_writer_operation \<Rightarrow> string" where
  "faultline_wal_writer_operation_name IO_NONE = ''none''"
| "faultline_wal_writer_operation_name IO_ALLOCATE_PATH = ''allocate_path''"
| "faultline_wal_writer_operation_name IO_OPEN_DIRECTORY = ''open_directory''"
| "faultline_wal_writer_operation_name IO_CREATE_FILE = ''create_file''"
| "faultline_wal_writer_operation_name IO_LOCK = ''lock''"
| "faultline_wal_writer_operation_name IO_WRITE_HEADER = ''write_header''"
| "faultline_wal_writer_operation_name IO_SYNC_HEADER = ''sync_header''"
| "faultline_wal_writer_operation_name IO_SYNC_DIRECTORY = ''sync_directory''"
| "faultline_wal_writer_operation_name IO_WRITE_RECORD = ''write_record''"
| "faultline_wal_writer_operation_name IO_SYNC_RECORD = ''sync_record''"
| "faultline_wal_writer_operation_name IO_CLOSE_FILE = ''close_file''"
| "faultline_wal_writer_operation_name IO_CLOSE_DIRECTORY = ''close_directory''"
| "faultline_wal_writer_operation_name IO_OPEN_EXISTING = ''open_existing''"
| "faultline_wal_writer_operation_name IO_STAT_FILE = ''stat_file''"
| "faultline_wal_writer_operation_name IO_READ_FILE = ''read_file''"
| "faultline_wal_writer_operation_name IO_ALLOCATE_REPLAY = ''allocate_replay''"
| "faultline_wal_writer_operation_name IO_VALIDATE_REPLAY = ''validate_replay''"
| "faultline_wal_writer_operation_name IO_TRUNCATE_TAIL = ''truncate_tail''"
| "faultline_wal_writer_operation_name IO_SYNC_RECOVERY = ''sync_recovery''"

text \<open>\<open>wal_has_io\<close> says whether the writer's \<^verbatim>\<open>io\<close> pointer is set.\<close>

record faultline_wal_writer =
  wal_fd :: int
  wal_directory_fd :: int
  wal_state :: wal_writer_state
  wal_next_sequence :: u64
  wal_synced_sequence :: u64
  wal_system_error :: errno
  wal_failed_operation :: wal_writer_operation
  wal_has_io :: bool

definition FAULTLINE_WAL_WRITER_INIT :: faultline_wal_writer where
  "FAULTLINE_WAL_WRITER_INIT =
     \<lparr> wal_fd = - 1, wal_directory_fd = - 1, wal_state = WRITER_CLOSED, wal_next_sequence = 0,
       wal_synced_sequence = 0, wal_system_error = 0, wal_failed_operation = IO_NONE, wal_has_io = False \<rparr>"

text \<open>The first failure is recorded and stays.\<close>

definition faultline_wal_writer_fail ::
  "faultline_wal_writer \<Rightarrow> wal_writer_operation \<Rightarrow> errno \<Rightarrow> faultline_wal_writer" where
  "faultline_wal_writer_fail writer operation error =
     (if wal_state writer \<noteq> WRITER_FAILED
      then writer\<lparr> wal_system_error := (if error \<noteq> 0 then error else EIO),
                   wal_failed_operation := operation, wal_state := WRITER_FAILED \<rparr>
      else writer)"

partial_function (option) write_loop ::
  "(bytes \<Rightarrow> 'w \<Rightarrow> (errno + nat) \<times> 'w) \<Rightarrow> bytes \<Rightarrow> 'w \<Rightarrow> ((errno + unit) \<times> 'w) option" where
  "write_loop call data w =
     (if data = [] then Some (Inr (), w)
      else
        (case call data w of
           (Inl e, w') \<Rightarrow> if e = EINTR then write_loop call data w' else Some (Inl e, w')
         | (Inr n, w') \<Rightarrow>
             if n = 0 \<or> n > length data then Some (Inl EIO, w')
             else write_loop call (drop n data) w'))"

definition write_all ::
  "'w faultline_wal_writer_io \<Rightarrow> faultline_wal_writer \<Rightarrow> bytes \<Rightarrow> wal_writer_operation \<Rightarrow> 'w \<Rightarrow>
     (wal_writer_result \<times> faultline_wal_writer \<times> 'w) option" where
  "write_all io writer data operation w =
     do {
       (result, w') \<leftarrow> write_loop (io_write io (wal_fd writer)) data w;
       Some (case result of
               Inl e \<Rightarrow> (WRITE_IO_ERROR, faultline_wal_writer_fail writer operation e, w')
             | Inr _ \<Rightarrow> (WRITE_OK, writer, w'))
     }"

definition faultline_wal_writer_sync ::
  "'w faultline_wal_writer_io \<Rightarrow> faultline_wal_writer \<Rightarrow> int \<Rightarrow> wal_writer_operation \<Rightarrow> 'w \<Rightarrow>
     (wal_writer_result \<times> faultline_wal_writer \<times> 'w) option" where
  "faultline_wal_writer_sync io writer fd operation w =
     do {
       (result, w') \<leftarrow> retry_eintr (io_sync io fd) w;
       Some (case result of
               Inl e \<Rightarrow> (WRITE_IO_ERROR, faultline_wal_writer_fail writer operation e, w')
             | Inr _ \<Rightarrow> (WRITE_OK, writer, w'))
     }"

section \<open>Opening\<close>

definition invalid_path :: "string \<Rightarrow> bool" where
  "invalid_path path \<longleftrightarrow> path = [] \<or> last path = CHR ''/''"

text \<open>The directory to open and the name inside it: the path is split at its last slash.\<close>

definition path_name :: "string \<Rightarrow> string" where
  "path_name path = rev (takeWhile (\<lambda>c. c \<noteq> CHR ''/'') (rev path))"

definition path_directory :: "string \<Rightarrow> string" where
  "path_directory path =
     (if CHR ''/'' \<notin> set path then ''.''
      else
        (let before = take (length path - length (path_name path) - 1) path in
         if before = [] then ''/'' else before))"

definition faultline_wal_writer_open_file ::
  "'w faultline_wal_writer_io \<Rightarrow> faultline_wal_writer \<Rightarrow> string \<Rightarrow> bool \<Rightarrow> 'w \<Rightarrow>
     (wal_writer_result \<times> faultline_wal_writer \<times> 'w) option" where
  "faultline_wal_writer_open_file io writer path create w =
     (if invalid_path path then Some (WRITE_INVALID_ARGUMENT, writer, w)
      else if wal_state writer = WRITER_FAILED then Some (WRITE_IO_ERROR, writer, w)
      else if wal_state writer \<noteq> WRITER_CLOSED \<or> wal_fd writer \<noteq> - 1 \<or> wal_directory_fd writer \<noteq> - 1
      then Some (WRITE_INVALID_STATE, writer, w)
      else
        (let writer = writer\<lparr> wal_has_io := True, wal_next_sequence := 0, wal_synced_sequence := 0 \<rparr>;
             (copied, w) = os_allocate io w in
         if \<not> copied then Some (WRITE_IO_ERROR, faultline_wal_writer_fail writer IO_ALLOCATE_PATH ENOMEM, w)
         else
           do {
             (directory, w) \<leftarrow> retry_eintr (os_open_directory io (path_directory path)) w;
             (case directory of
                Inl e \<Rightarrow> Some (WRITE_IO_ERROR, faultline_wal_writer_fail writer IO_OPEN_DIRECTORY e, w)
              | Inr directory_fd \<Rightarrow>
                  (let writer = writer\<lparr> wal_directory_fd := directory_fd \<rparr> in
                   do {
                     (opened, w) \<leftarrow> retry_eintr (os_openat io directory_fd (path_name path) create) w;
                     (case opened of
                        Inl e \<Rightarrow>
                          Some (WRITE_IO_ERROR,
                            faultline_wal_writer_fail writer (if create then IO_CREATE_FILE else IO_OPEN_EXISTING) e, w)
                      | Inr fd \<Rightarrow>
                          (let writer = writer\<lparr> wal_fd := fd \<rparr> in
                           do {
                             (inspected, w) \<leftarrow> retry_eintr (os_fstat_regular io fd) w;
                             (case inspected of
                                Inl e \<Rightarrow> Some (WRITE_IO_ERROR, faultline_wal_writer_fail writer IO_STAT_FILE e, w)
                              | Inr regular \<Rightarrow>
                                  if \<not> regular
                                  then Some (WRITE_IO_ERROR, faultline_wal_writer_fail writer IO_STAT_FILE EINVAL, w)
                                  else
                                    do {
                                      (locked, w) \<leftarrow> retry_eintr (io_lock io fd) w;
                                      Some (case locked of
                                          Inl e \<Rightarrow> (WRITE_IO_ERROR, faultline_wal_writer_fail writer IO_LOCK e, w)
                                        | Inr _ \<Rightarrow> (WRITE_OK, writer\<lparr> wal_state := WRITER_RECOVERING \<rparr>, w))
                                    })
                           }))
                   }))
           }))"

definition faultline_wal_writer_create_with_io ::
  "'w faultline_wal_writer_io \<Rightarrow> faultline_wal_writer \<Rightarrow> string \<Rightarrow> 'w \<Rightarrow>
     (wal_writer_result \<times> faultline_wal_writer \<times> 'w) option" where
  "faultline_wal_writer_create_with_io io writer path w =
     do {
       (opened, writer, w) \<leftarrow> faultline_wal_writer_open_file io writer path True w;
       if opened \<noteq> WRITE_OK then Some (opened, writer, w)
       else
         do {
           (written, writer, w) \<leftarrow>
             write_all io writer
               (case faultline_wal_file_header_encode FAULTLINE_WAL_FILE_HEADER_SIZE of Inl _ \<Rightarrow> [] | Inr b \<Rightarrow> b)
               IO_WRITE_HEADER w;
           if written \<noteq> WRITE_OK then Some (WRITE_IO_ERROR, writer, w)
           else
             do {
               (synced, writer, w) \<leftarrow> faultline_wal_writer_sync io writer (wal_fd writer) IO_SYNC_HEADER w;
               if synced \<noteq> WRITE_OK then Some (WRITE_IO_ERROR, writer, w)
               else
                 do {
                   (parent, writer, w) \<leftarrow>
                     faultline_wal_writer_sync io writer (wal_directory_fd writer) IO_SYNC_DIRECTORY w;
                   if parent \<noteq> WRITE_OK then Some (WRITE_IO_ERROR, writer, w)
                   else Some (WRITE_OK, writer\<lparr> wal_next_sequence := 1, wal_state := WRITER_READY \<rparr>, w)
                 }
             }
         }
     }"

section \<open>Appending and closing\<close>

definition faultline_wal_writer_append ::
  "'w faultline_wal_writer_io \<Rightarrow> faultline_wal_writer \<Rightarrow> faultline_wal_record \<Rightarrow> 'w \<Rightarrow>
     (wal_writer_result \<times> faultline_wal_writer \<times> 'w) option" where
  "faultline_wal_writer_append io writer record w =
     (if wal_state writer = WRITER_FAILED then Some (WRITE_IO_ERROR, writer, w)
      else if wal_state writer \<noteq> WRITER_READY then Some (WRITE_INVALID_STATE, writer, w)
      else if wal_next_sequence writer = 0 then Some (WRITE_SEQUENCE_EXHAUSTED, writer, w)
      else if wr_sequence record \<noteq> wal_next_sequence writer then Some (WRITE_INVALID_RECORD, writer, w)
      else
        (case faultline_wal_record_encode FAULTLINE_WAL_MAX_RECORD_SIZE record of
           Inl _ \<Rightarrow> Some (WRITE_INVALID_RECORD, writer, w)
         | Inr data \<Rightarrow>
             do {
               (written, writer, w) \<leftarrow> write_all io writer data IO_WRITE_RECORD w;
               if written \<noteq> WRITE_OK then Some (WRITE_IO_ERROR, writer, w)
               else
                 do {
                   (synced, writer, w) \<leftarrow> faultline_wal_writer_sync io writer (wal_fd writer) IO_SYNC_RECORD w;
                   if synced \<noteq> WRITE_OK then Some (WRITE_IO_ERROR, writer, w)
                   else Some (WRITE_OK, writer\<lparr> wal_synced_sequence := wr_sequence record,
                                wal_next_sequence := next_id (wr_sequence record) \<rparr>, w)
                 }
             }))"

text \<open>A close is never retried, whatever error it reports.\<close>

definition close_fd ::
  "'w faultline_wal_writer_io \<Rightarrow> int \<Rightarrow> wal_writer_operation \<Rightarrow> faultline_wal_writer \<Rightarrow> 'w \<Rightarrow>
     faultline_wal_writer \<times> 'w" where
  "close_fd io fd operation writer w =
     (if fd = - 1 then (writer, w)
      else
        (case io_close io fd w of
           (Inl e, w') \<Rightarrow> (faultline_wal_writer_fail writer operation e, w')
         | (Inr _, w') \<Rightarrow> (writer, w')))"

definition faultline_wal_writer_close ::
  "'w faultline_wal_writer_io \<Rightarrow> faultline_wal_writer \<Rightarrow> 'w \<Rightarrow>
     wal_writer_result \<times> faultline_wal_writer \<times> 'w" where
  "faultline_wal_writer_close io writer w =
     (if \<not> wal_has_io writer \<and> (wal_fd writer \<noteq> - 1 \<or> wal_directory_fd writer \<noteq> - 1)
      then (WRITE_INVALID_STATE, writer, w)
      else
        (let (writer1, w1) = close_fd io (wal_fd writer) IO_CLOSE_FILE (writer\<lparr> wal_fd := - 1 \<rparr>) w;
             (writer2, w2) = close_fd io (wal_directory_fd writer1) IO_CLOSE_DIRECTORY
                               (writer1\<lparr> wal_directory_fd := - 1 \<rparr>) w1 in
         if wal_state writer2 = WRITER_FAILED then (WRITE_IO_ERROR, writer2, w2)
         else (WRITE_OK, writer2\<lparr> wal_state := WRITER_CLOSED \<rparr>, w2)))"

section \<open>What the storage promises\<close>

text \<open>
  The documented behaviour of the calls the writer makes on its append-only descriptor. \<open>file\<close> is the
  content of the file, \<open>durable\<close> the part of it that is guaranteed to survive a crash: a write
  appends what it reports, a failed write appends nothing, and a successful sync makes the whole
  content durable.
\<close>

definition appending_file :: "'w faultline_wal_writer_io \<Rightarrow> int \<Rightarrow> ('w \<Rightarrow> bytes) \<Rightarrow> ('w \<Rightarrow> bytes) \<Rightarrow> bool" where
  "appending_file io fd file durable \<longleftrightarrow>
     (\<forall>b w r w'. io_write io fd b w = (r, w') \<longrightarrow> durable w' = durable w \<and>
        (case r of Inl _ \<Rightarrow> file w' = file w | Inr n \<Rightarrow> n \<le> length b \<and> file w' = file w @ take n b)) \<and>
     (\<forall>w r w'. io_sync io fd w = (r, w') \<longrightarrow> file w' = file w \<and>
        (case r of Inl _ \<Rightarrow> prefix (durable w) (durable w') \<and> (prefix (durable w) (file w) \<longrightarrow> prefix (durable w') (file w'))
                 | Inr _ \<Rightarrow> durable w' = file w))"

text \<open>Interruptions do not go on forever: every interrupted call uses up some of a finite budget.\<close>

definition interruptions_end :: "'w faultline_wal_writer_io \<Rightarrow> int \<Rightarrow> ('w \<Rightarrow> nat) \<Rightarrow> bool" where
  "interruptions_end io fd budget \<longleftrightarrow>
     (\<forall>b w r w'. io_write io fd b w = (r, w') \<longrightarrow>
        (if r = Inl EINTR then budget w' < budget w else budget w' \<le> budget w)) \<and>
     (\<forall>w r w'. io_sync io fd w = (r, w') \<longrightarrow>
        (if r = Inl EINTR then budget w' < budget w else budget w' \<le> budget w))"

section \<open>The loops\<close>

text \<open>Induction over the iterations of a loop that returns.\<close>

lemma retry_eintr_induct [consumes 1, case_names interrupted finished]:
  assumes "retry_eintr call w = Some y"
    and "\<And>w v y. call w = (Inl EINTR, v) \<Longrightarrow> P v y \<Longrightarrow> P w y"
    and "\<And>w r v. call w = (r, v) \<Longrightarrow> r \<noteq> Inl EINTR \<Longrightarrow> P w (r, v)"
  shows "P w y"
proof -
  have "call' = call \<longrightarrow> P w y" if "retry_eintr call' w = Some y" for call'
    using that
  proof (rule retry_eintr.raw_induct [rotated], goal_cases)
    case (1 loop call' w y)
    obtain r v where call: "call' w = (r, v)" by fastforce
    show ?case
    proof (cases "r = Inl EINTR")
      case True
      then show ?thesis using 1(1) [of call' v y] 1(2) call assms(2) [of w v y] by auto
    next
      case False
      then have "y = (r, v)" using 1(2) call by (auto split: sum.splits)
      then show ?thesis using call False assms(3) by auto
    qed
  qed
  then show ?thesis using assms(1) by blast
qed

lemma write_loop_induct [consumes 1, case_names finished interrupted failed stuck progress]:
  assumes "write_loop call data w = Some y"
    and "\<And>w. P [] w (Inr (), w)"
    and "\<And>data w v y. data \<noteq> [] \<Longrightarrow> call data w = (Inl EINTR, v) \<Longrightarrow> P data v y \<Longrightarrow> P data w y"
    and "\<And>data w e v. data \<noteq> [] \<Longrightarrow> call data w = (Inl e, v) \<Longrightarrow> e \<noteq> EINTR \<Longrightarrow> P data w (Inl e, v)"
    and "\<And>data w n v. data \<noteq> [] \<Longrightarrow> call data w = (Inr n, v) \<Longrightarrow> n = 0 \<or> n > length data \<Longrightarrow> P data w (Inl EIO, v)"
    and "\<And>data w n v y. data \<noteq> [] \<Longrightarrow> call data w = (Inr n, v) \<Longrightarrow> 0 < n \<Longrightarrow> n \<le> length data \<Longrightarrow>
      P (drop n data) v y \<Longrightarrow> P data w y"
  shows "P data w y"
proof -
  have "call' = call \<longrightarrow> P data w y" if "write_loop call' data w = Some y" for call'
    using that
  proof (rule write_loop.raw_induct [rotated], goal_cases)
    case (1 loop call' data w y)
    obtain r v where call: "call' data w = (r, v)" by fastforce
    show ?case
    proof (cases "data = []")
      case True
      then show ?thesis using 1(2) assms(2) by auto
    next
      case False
      show ?thesis
      proof (cases r)
        case (Inl e)
        then show ?thesis
          using False 1(1) [of call' data v y] 1(2) call assms(3) [of data w v y] assms(4) [of data w e v]
          by (cases "e = EINTR") auto
      next
        case (Inr n)
        then show ?thesis
          using False 1(1) [of call' "drop n data" v y] 1(2) call assms(5) [of data w n v] assms(6) [of data w n v y]
          by (cases "n = 0 \<or> n > length data") auto
      qed
    qed
  qed
  then show ?thesis using assms(1) by blast
qed

lemma appending_writeD:
  "appending_file io fd file durable \<Longrightarrow> io_write io fd b w = (r, w') \<Longrightarrow> durable w' = durable w \<and>
     (case r of Inl _ \<Rightarrow> file w' = file w | Inr n \<Rightarrow> n \<le> length b \<and> file w' = file w @ take n b)"
  by (simp add: appending_file_def)

lemma appending_syncD:
  "appending_file io fd file durable \<Longrightarrow> io_sync io fd w = (r, w') \<Longrightarrow> file w' = file w \<and>
     (case r of Inl _ \<Rightarrow> prefix (durable w) (durable w') \<and> (prefix (durable w) (file w) \<longrightarrow> prefix (durable w') (file w'))
              | Inr _ \<Rightarrow> durable w' = file w)"
  by (simp add: appending_file_def)

lemma write_loop_file:
  assumes "appending_file io fd file durable" "write_loop (io_write io fd) data w = Some (r, w')"
  shows "durable w' = durable w \<and>
    (case r of Inl _ \<Rightarrow> \<exists>k < length data. file w' = file w @ take k data | Inr _ \<Rightarrow> file w' = file w @ data)"
  using assms(2)
proof (induction data w "(r, w')" rule: write_loop_induct)
  case (progress data w n v)
  have "durable v = durable w" "file v = file w @ take n data"
    using appending_writeD [OF assms(1) progress(2)] by auto
  moreover have "\<exists>k' < length data. take n data @ take k (drop n data) = take k' data"
    if "k < length (drop n data)" for k
    using that progress(4) by (intro exI [of _ "n + k"]) (simp add: take_add)
  ultimately show ?case using progress(5) by (auto split: sum.splits)
next
  case (stuck data w n)
  then show ?case using appending_writeD [OF assms(1) stuck(2)] by auto
next
  case (interrupted data w v)
  then show ?case using appending_writeD [OF assms(1) interrupted(2)] by (cases r) auto
next
  case (failed data w e)
  then show ?case using appending_writeD [OF assms(1) failed(2)] by auto
qed auto

lemma sync_loop_file:
  assumes "appending_file io fd file durable" "retry_eintr (io_sync io fd) w = Some (r, w')" "prefix (durable w) (file w)"
  shows "file w' = file w \<and> prefix (durable w) (durable w') \<and> prefix (durable w') (file w') \<and> (r = Inr () \<longrightarrow> durable w' = file w)"
  using assms(2,3)
proof (induction w "(r, w')" rule: retry_eintr_induct)
  case (interrupted w v)
  then have "file v = file w" "prefix (durable w) (durable v)" "prefix (durable v) (file v)"
    using appending_syncD [OF assms(1) interrupted(1)] by auto
  with interrupted show ?case by (auto dest: prefix_order.trans)
next
  case (finished w)
  then show ?case using appending_syncD [OF assms(1) finished(1)] by (cases r) auto
qed

lemma write_loop_returns:
  assumes "interruptions_end io fd budget"
  shows "\<exists>r w'. write_loop (io_write io fd) data w = Some (r, w') \<and> budget w' \<le> budget w"
proof (induction "budget w + length data" arbitrary: data w rule: less_induct)
  case less
  show ?case
  proof (cases "data = []")
    case True
    then show ?thesis by (simp add: write_loop.simps)
  next
    case False
    obtain q v where call: "io_write io fd data w = (q, v)" by fastforce
    then have b: "if q = Inl EINTR then budget v < budget w else budget v \<le> budget w"
      using assms by (auto simp: interruptions_end_def)
    show ?thesis
    proof (cases q)
      case (Inl e)
      then show ?thesis
        using less [of v data] b call False
        by (cases "e = EINTR") (auto simp: write_loop.simps [of _ data w] intro: order.trans [OF _ less_imp_le])
    next
      case (Inr n)
      then have "n = 0 \<or> n > length data \<or> budget v + length (drop n data) < budget w + length data"
        using b by (cases "n = 0") auto
      then show ?thesis
        using less [of v "drop n data"] b call False Inr
        by (auto simp: write_loop.simps [of _ data w] intro: order.trans)
    qed
  qed
qed

lemma sync_loop_returns:
  assumes "interruptions_end io fd budget"
  shows "\<exists>r w'. retry_eintr (io_sync io fd) w = Some (r, w') \<and> budget w' \<le> budget w"
proof (induction "budget w" arbitrary: w rule: less_induct)
  case less
  obtain q v where call: "io_sync io fd w = (q, v)" by fastforce
  then have b: "if q = Inl EINTR then budget v < budget w else budget v \<le> budget w"
    using assms by (auto simp: interruptions_end_def)
  then show ?case
    using less [of v] call
    by (cases q) (auto simp: retry_eintr.simps [of _ w] intro: order.trans [OF _ less_imp_le] split: if_splits)
qed

section \<open>Outcomes of the operations\<close>

lemma fail_fields [simp]:
  "wal_state (faultline_wal_writer_fail writer operation e) = WRITER_FAILED"
  "wal_next_sequence (faultline_wal_writer_fail writer operation e) = wal_next_sequence writer"
  "wal_synced_sequence (faultline_wal_writer_fail writer operation e) = wal_synced_sequence writer"
  "wal_fd (faultline_wal_writer_fail writer operation e) = wal_fd writer"
  "wal_directory_fd (faultline_wal_writer_fail writer operation e) = wal_directory_fd writer"
  "wal_has_io (faultline_wal_writer_fail writer operation e) = wal_has_io writer"
  by (simp_all add: faultline_wal_writer_fail_def)

lemma fail_failed [simp]: "wal_state writer = WRITER_FAILED \<Longrightarrow> faultline_wal_writer_fail writer operation e = writer"
  by (simp add: faultline_wal_writer_fail_def)

lemma write_all_Some:
  assumes "appending_file io (wal_fd writer) file durable" "write_all io writer data operation w = Some (result, writer', w')"
  shows "durable w' = durable w \<and>
    (result = WRITE_OK \<and> writer' = writer \<and> file w' = file w @ data \<or>
     result = WRITE_IO_ERROR \<and> (\<exists>e. writer' = faultline_wal_writer_fail writer operation e) \<and>
       (\<exists>k < length data. file w' = file w @ take k data))"
proof -
  obtain r where "write_loop (io_write io (wal_fd writer)) data w = Some (r, w')"
    and "(result, writer') = (case r of Inl e \<Rightarrow> (WRITE_IO_ERROR, faultline_wal_writer_fail writer operation e) | Inr _ \<Rightarrow> (WRITE_OK, writer))"
    using assms(2) by (fastforce simp: write_all_def bind_eq_Some_conv split: sum.splits)
  with write_loop_file [OF assms(1) this(1)] show ?thesis by (cases r) auto
qed

lemma writer_sync_Some:
  assumes "appending_file io fd file durable" "prefix (durable w) (file w)"
    and "faultline_wal_writer_sync io writer fd operation w = Some (result, writer', w')"
  shows "file w' = file w \<and> prefix (durable w) (durable w') \<and> prefix (durable w') (file w') \<and>
    (result = WRITE_OK \<and> writer' = writer \<and> durable w' = file w' \<or>
     result = WRITE_IO_ERROR \<and> (\<exists>e. writer' = faultline_wal_writer_fail writer operation e))"
proof -
  obtain r where "retry_eintr (io_sync io fd) w = Some (r, w')"
    and "(result, writer') = (case r of Inl e \<Rightarrow> (WRITE_IO_ERROR, faultline_wal_writer_fail writer operation e) | Inr _ \<Rightarrow> (WRITE_OK, writer))"
    using assms(3) by (fastforce simp: faultline_wal_writer_sync_def bind_eq_Some_conv split: sum.splits)
  with sync_loop_file [OF assms(1) this(1) assms(2)] show ?thesis by (cases r) auto
qed

lemma record_encode_bytes:
  "faultline_wal_record_encode capacity record = Inr data \<Longrightarrow> data = record_bytes record"
  by (auto simp: faultline_wal_record_encode_def record_bytes_def split: if_splits)

lemma encode_refuses:
  "(\<exists>e. faultline_wal_record_encode FAULTLINE_WAL_MAX_RECORD_SIZE record = Inl e) \<longleftrightarrow>
     wr_sequence record = 0 \<or> \<not> valid_payload (wr_payload record)"
  using valid_payload_bounds [of "wr_payload record"]
  by (auto simp: faultline_wal_record_encode_def FAULTLINE_WAL_MAX_RECORD_SIZE_def)

text \<open>What an append by a ready writer can do.\<close>

lemma append_Some:
  assumes io: "appending_file io (wal_fd writer) file durable" "prefix (durable w) (file w)"
    and ready: "wal_state writer = WRITER_READY"
    and run: "faultline_wal_writer_append io writer record w = Some (result, writer', w')"
  obtains (appended) "result = WRITE_OK" "wr_sequence record = wal_next_sequence writer" "wal_next_sequence writer \<noteq> 0"
      "file w' = file w @ record_bytes record" "durable w' = file w'"
      "writer' = writer\<lparr> wal_synced_sequence := wr_sequence record, wal_next_sequence := next_id (wr_sequence record) \<rparr>"
      "faultline_wal_record_encode FAULTLINE_WAL_MAX_RECORD_SIZE record = Inr (record_bytes record)"
    | (torn) k e operation where "result = WRITE_IO_ERROR" "writer' = faultline_wal_writer_fail writer operation e"
      "wr_sequence record = wal_next_sequence writer"
      "faultline_wal_record_encode FAULTLINE_WAL_MAX_RECORD_SIZE record = Inr (record_bytes record)"
      "k \<le> length (record_bytes record)" "file w' = file w @ take k (record_bytes record)"
      "prefix (durable w) (durable w')" "prefix (durable w') (file w')"
    | (refused) "result = WRITE_SEQUENCE_EXHAUSTED \<or> result = WRITE_INVALID_RECORD" "writer' = writer" "w' = w"
      "wal_next_sequence writer = 0 \<or> wr_sequence record \<noteq> wal_next_sequence writer \<or>
        (\<exists>e. faultline_wal_record_encode FAULTLINE_WAL_MAX_RECORD_SIZE record = Inl e)"
proof (cases "wal_next_sequence writer = 0 \<or> wr_sequence record \<noteq> wal_next_sequence writer \<or>
        (\<exists>e. faultline_wal_record_encode FAULTLINE_WAL_MAX_RECORD_SIZE record = Inl e)")
  case True
  then show ?thesis
    using run ready by (intro refused) (auto simp: faultline_wal_writer_append_def split: if_splits)
next
  case False
  then have seq: "wal_next_sequence writer \<noteq> 0" "wr_sequence record = wal_next_sequence writer" by auto
  from False have enc: "faultline_wal_record_encode FAULTLINE_WAL_MAX_RECORD_SIZE record = Inr (record_bytes record)"
    using record_encode_bytes by (cases "faultline_wal_record_encode FAULTLINE_WAL_MAX_RECORD_SIZE record") blast+
  with run ready seq obtain written writer1 w1 where
    wrote: "write_all io writer (record_bytes record) IO_WRITE_RECORD w = Some (written, writer1, w1)"
    and rest: "(if written \<noteq> WRITE_OK then Some (WRITE_IO_ERROR, writer1, w1)
      else do {
        (synced, writer, w) \<leftarrow> faultline_wal_writer_sync io writer1 (wal_fd writer1) IO_SYNC_RECORD w1;
        if synced \<noteq> WRITE_OK then Some (WRITE_IO_ERROR, writer, w)
        else Some (WRITE_OK, writer\<lparr> wal_synced_sequence := wr_sequence record,
                     wal_next_sequence := next_id (wr_sequence record) \<rparr>, w)
      }) = Some (result, writer', w')"
    by (auto simp: faultline_wal_writer_append_def bind_eq_Some_conv)
  note wr = write_all_Some [OF io(1) wrote]
  show ?thesis
  proof (cases "written = WRITE_OK")
    case False
    with wr rest obtain e k where fields: "result = WRITE_IO_ERROR" "writer' = faultline_wal_writer_fail writer IO_WRITE_RECORD e"
      "k < length (record_bytes record)" "file w' = file w @ take k (record_bytes record)" "durable w' = durable w"
      by auto
    show ?thesis by (rule torn [OF fields(1,2) seq(2) enc _ fields(4)]) (use fields io(2) in auto)
  next
    case True
    with wr have w1: "writer1 = writer" "durable w1 = durable w" "file w1 = file w @ record_bytes record" by auto
    with True rest obtain synced writer2 where
      sync: "faultline_wal_writer_sync io writer (wal_fd writer) IO_SYNC_RECORD w1 = Some (synced, writer2, w')"
      and published: "(result, writer') = (if synced \<noteq> WRITE_OK then (WRITE_IO_ERROR, writer2)
        else (WRITE_OK, writer2\<lparr> wal_synced_sequence := wr_sequence record, wal_next_sequence := next_id (wr_sequence record) \<rparr>))"
      by (auto simp: bind_eq_Some_conv split: if_splits)
    have "prefix (durable w1) (file w1)" using w1 io(2) by simp
    note outcome = writer_sync_Some [OF io(1) this sync]
    show ?thesis
    proof (cases "synced = WRITE_OK")
      case True
      then show ?thesis using published outcome w1 enc seq by (intro appended) auto
    next
      case False
      with published outcome w1 obtain e where
        fields: "result = WRITE_IO_ERROR" "writer' = faultline_wal_writer_fail writer IO_SYNC_RECORD e"
          "file w' = file w @ take (length (record_bytes record)) (record_bytes record)"
          "prefix (durable w) (durable w')" "prefix (durable w') (file w')"
        by auto
      show ?thesis by (rule torn [OF fields(1,2) seq(2) enc order.refl fields(3-5)])
    qed
  qed
qed

lemma write_all_returns:
  "interruptions_end io (wal_fd writer) budget \<Longrightarrow>
     \<exists>result writer' w'. write_all io writer data operation w = Some (result, writer', w') \<and>
       wal_fd writer' = wal_fd writer \<and> budget w' \<le> budget w"
  using write_loop_returns [of io "wal_fd writer" budget data w]
  by (fastforce simp: write_all_def split: sum.splits)

lemma writer_sync_returns:
  "interruptions_end io fd budget \<Longrightarrow>
     \<exists>result writer' w'. faultline_wal_writer_sync io writer fd operation w = Some (result, writer', w') \<and> budget w' \<le> budget w"
  using sync_loop_returns [of io fd budget w]
  by (fastforce simp: faultline_wal_writer_sync_def split: sum.splits)

lemma append_returns_Some:
  assumes "interruptions_end io (wal_fd writer) budget"
  shows "\<exists>result writer' w'. faultline_wal_writer_append io writer record w = Some (result, writer', w') \<and> budget w' \<le> budget w"
proof -
  obtain b where b: "faultline_wal_record_encode FAULTLINE_WAL_MAX_RECORD_SIZE record = Inl b \<or>
      faultline_wal_record_encode FAULTLINE_WAL_MAX_RECORD_SIZE record = Inr (record_bytes record)"
    using record_encode_bytes by (cases "faultline_wal_record_encode FAULTLINE_WAL_MAX_RECORD_SIZE record") blast+
  obtain written writer1 w1 where
    wrote: "write_all io writer (record_bytes record) IO_WRITE_RECORD w = Some (written, writer1, w1)"
      "wal_fd writer1 = wal_fd writer" "budget w1 \<le> budget w"
    using write_all_returns [OF assms] by blast
  obtain synced writer2 w2 where
    "faultline_wal_writer_sync io writer1 (wal_fd writer) IO_SYNC_RECORD w1 = Some (synced, writer2, w2)"
      "budget w2 \<le> budget w1"
    using writer_sync_returns [OF assms] by blast
  with b wrote show ?thesis by (auto simp: faultline_wal_writer_append_def)
qed

lemma close_fd_failed: "wal_state writer = WRITER_FAILED \<Longrightarrow> \<exists>w'. close_fd io fd operation writer w = (writer, w')"
  by (simp add: close_fd_def split: prod.split sum.split)

lemma close_failed:
  assumes "wal_state writer = WRITER_FAILED"
  shows "wal_has_io writer \<longrightarrow> (\<exists>writer' w'. faultline_wal_writer_close io writer w = (WRITE_IO_ERROR, writer', w') \<and>
       wal_state writer' = WRITER_FAILED \<and> wal_system_error writer' = wal_system_error writer \<and>
       wal_failed_operation writer' = wal_failed_operation writer \<and> wal_fd writer' = - 1 \<and> wal_directory_fd writer' = - 1)"
proof -
  let ?writer1 = "writer\<lparr> wal_fd := - 1 \<rparr>"
  obtain w1 where w1: "close_fd io (wal_fd writer) IO_CLOSE_FILE ?writer1 w = (?writer1, w1)"
    using close_fd_failed [of ?writer1] assms by fastforce
  obtain w2 where w2: "close_fd io (wal_directory_fd writer) IO_CLOSE_DIRECTORY (?writer1\<lparr> wal_directory_fd := - 1 \<rparr>) w1 =
      (?writer1\<lparr> wal_directory_fd := - 1 \<rparr>, w2)"
    using close_fd_failed [of "?writer1\<lparr> wal_directory_fd := - 1 \<rparr>"] assms by fastforce
  show ?thesis using assms w1 w2 by (simp add: faultline_wal_writer_close_def)
qed

section \<open>A device in memory\<close>

text \<open>
  A device that meets the contracts: it writes at most 64 bytes at a time, interrupts the first calls,
  and keeps the whole file when a sync succeeds. Opening gives descriptor 5 for the file and 4 for
  its directory.
\<close>

record memory_device =
  md_file :: bytes
  md_durable :: bytes
  md_position :: nat
  md_interrupts :: nat

definition interruptible :: "(memory_device \<Rightarrow> (errno + 'a) \<times> memory_device) \<Rightarrow> memory_device \<Rightarrow> (errno + 'a) \<times> memory_device" where
  "interruptible f w =
     (if md_interrupts w > 0 then (Inl EINTR, w\<lparr> md_interrupts := md_interrupts w - 1 \<rparr>) else f w)"

definition memory_io :: "memory_device faultline_wal_writer_io" where
  "memory_io =
     \<lparr> io_lock = (\<lambda>fd w. (Inr (), w)),
       io_write = (\<lambda>fd b. interruptible (\<lambda>w. (Inr (min 64 (length b)), w\<lparr> md_file := md_file w @ take (min 64 (length b)) b \<rparr>))),
       io_sync = (\<lambda>fd. interruptible (\<lambda>w. (Inr (), if fd = 4 then w else w\<lparr> md_durable := md_file w \<rparr>))),
       io_close = (\<lambda>fd w. (Inr (), w)),
       io_read = (\<lambda>fd n. interruptible (\<lambda>w.
         (Inr (take (min n 64) (drop (md_position w) (md_file w))),
          w\<lparr> md_position := md_position w + length (take (min n 64) (drop (md_position w) (md_file w))) \<rparr>))),
       io_truncate = (\<lambda>fd n. interruptible (\<lambda>w. (Inr (), w\<lparr> md_file := take n (md_file w), md_durable := take n (md_durable w) \<rparr>))),
       os_allocate = (\<lambda>w. (True, w)),
       os_open_directory = (\<lambda>path w. (Inr 4, w)),
       os_openat = (\<lambda>fd name create w.
         if create \<and> (md_file w \<noteq> [] \<or> md_durable w \<noteq> []) then (Inl EEXIST, w) else (Inr 5, w\<lparr> md_position := 0 \<rparr>)),
       os_fstat_regular = (\<lambda>fd w. (Inr True, w)) \<rparr>"

lemma memory_io_simps [simp]:
  "io_write memory_io fd b = interruptible (\<lambda>w. (Inr (min 64 (length b)), w\<lparr> md_file := md_file w @ take (min 64 (length b)) b \<rparr>))"
  "io_sync memory_io fd = interruptible (\<lambda>w. (Inr (), if fd = 4 then w else w\<lparr> md_durable := md_file w \<rparr>))"
  "io_lock memory_io fd w = (Inr (), w)" "io_close memory_io fd w = (Inr (), w)"
  "io_read memory_io fd n = interruptible (\<lambda>w.
     (Inr (take (min n 64) (drop (md_position w) (md_file w))),
      w\<lparr> md_position := md_position w + length (take (min n 64) (drop (md_position w) (md_file w))) \<rparr>))"
  "io_truncate memory_io fd n = interruptible (\<lambda>w. (Inr (), w\<lparr> md_file := take n (md_file w), md_durable := take n (md_durable w) \<rparr>))"
  "os_allocate memory_io w = (True, w)" "os_open_directory memory_io path w = (Inr 4, w)"
  "os_openat memory_io d name create w =
     (if create \<and> (md_file w \<noteq> [] \<or> md_durable w \<noteq> []) then (Inl EEXIST, w) else (Inr 5, w\<lparr> md_position := 0 \<rparr>))"
  "os_fstat_regular memory_io fd w = (Inr True, w)"
  by (simp_all add: memory_io_def)

lemma memory_appending: "fd \<noteq> 4 \<Longrightarrow> appending_file memory_io fd md_file md_durable"
  by (auto simp: appending_file_def interruptible_def)

lemma memory_interruptions: "interruptions_end memory_io fd md_interrupts"
  by (auto simp: interruptions_end_def interruptible_def)

definition empty_device :: memory_device where
  "empty_device = \<lparr> md_file = [], md_durable = [], md_position = 0, md_interrupts = 2 \<rparr>"

definition ready_writer :: faultline_wal_writer where
  "ready_writer = FAULTLINE_WAL_WRITER_INIT\<lparr> wal_fd := 5, wal_directory_fd := 4, wal_state := WRITER_READY,
     wal_next_sequence := 1, wal_has_io := True \<rparr>"

lemma ready_writer_simps [simp]:
  "wal_fd ready_writer = 5" "wal_state ready_writer = WRITER_READY" "wal_next_sequence ready_writer = 1"
  by (simp_all add: ready_writer_def)

section \<open>Properties\<close>

text \<open>Claim C24. An append is atomic up to a torn tail. A ready writer whose device keeps the storage
  contract either reports success, and then the file has grown by exactly the record, all of it is
  durable, and the sequence number has advanced; or it reports an I/O error, and then it is failed, the
  sequence number is unchanged, and the file has grown by a prefix of the record at most, without losing
  what was durable; or it refuses the record before any I/O.\<close>

theorem append_outcome:
  assumes "appending_file io (wal_fd writer) file durable" "prefix (durable w) (file w)"
    and "wal_state writer = WRITER_READY"
    and "faultline_wal_writer_append io writer record w = Some (result, writer', w')"
  shows "(case result of
      WRITE_OK \<Rightarrow>
        file w' = file w @ record_bytes record \<and> durable w' = file w' \<and> wal_state writer' = WRITER_READY \<and>
        wal_synced_sequence writer' = wr_sequence record \<and> wal_next_sequence writer' = next_id (wr_sequence record)
    | WRITE_IO_ERROR \<Rightarrow>
        wal_state writer' = WRITER_FAILED \<and> wal_next_sequence writer' = wal_next_sequence writer \<and>
        (\<exists>k \<le> length (record_bytes record). file w' = file w @ take k (record_bytes record)) \<and>
        prefix (durable w) (durable w') \<and> prefix (durable w') (file w')
    | WRITE_INVALID_RECORD \<Rightarrow>
        writer' = writer \<and> w' = w \<and>
        (wr_sequence record \<noteq> wal_next_sequence writer \<or> \<not> valid_payload (wr_payload record))
    | WRITE_SEQUENCE_EXHAUSTED \<Rightarrow> writer' = writer \<and> w' = w \<and> wal_next_sequence writer = 0
    | _ \<Rightarrow> False)"
  using assms
proof (cases rule: append_Some)
  case refused
  then show ?thesis
    using assms(3,4) encode_refuses [of "record"] by (auto simp: faultline_wal_writer_append_def split: if_splits sum.splits)
next
  case appended
  then show ?thesis using assms(3) by simp
qed auto

lemma memory_append:
  "faultline_wal_writer_append memory_io ready_writer sample_record empty_device =
     Some (WRITE_OK, ready_writer\<lparr> wal_synced_sequence := 1, wal_next_sequence := 2 \<rparr>,
       \<lparr> md_file = record_bytes sample_record, md_durable = record_bytes sample_record, md_position = 0, md_interrupts = 0 \<rparr>)"
proof -
  have len: "length (record_bytes sample_record) = 118"
    by (simp add: length_record_bytes) (simp add: sample_record_def sample_assigned_def sample_job_def wal_sizes)
  then have ne: "record_bytes sample_record \<noteq> []" by auto
  have whole: "take 64 (record_bytes sample_record) @ drop 64 (record_bytes sample_record) = record_bytes sample_record"
    by simp
  have "wr_sequence sample_record = 1" by (simp add: sample_record_def)
  then show ?thesis
    by (simp add: faultline_wal_writer_append_def sample_record_encode write_all_def faultline_wal_writer_sync_def
        write_loop.simps [of _ "record_bytes sample_record"] write_loop.simps [of _ "drop 64 (record_bytes sample_record)"]
        write_loop.simps [of _ "[]"] retry_eintr.simps interruptible_def len ne empty_device_def ready_writer_def
        next_id_def FAULTLINE_WAL_WRITER_INIT_def)
qed

theorem append_outcome_witness:
  "\<exists>w'. faultline_wal_writer_append memory_io ready_writer sample_record empty_device =
      Some (WRITE_OK, ready_writer\<lparr> wal_synced_sequence := 1, wal_next_sequence := 2 \<rparr>, w') \<and>
    md_durable w' = record_bytes sample_record"
  using append_outcome [OF memory_appending _ _ memory_append] memory_append
  by (simp add: empty_device_def)

text \<open>Claim C25. An append returns. If the device interrupts its calls only finitely often, the
  write and sync loops end, whatever the calls report.\<close>

theorem append_returns:
  assumes "interruptions_end io (wal_fd writer) budget"
  shows "\<exists>result writer' w'. faultline_wal_writer_append io writer record w = Some (result, writer', w')"
  using append_returns_Some [OF assms] by blast

theorem append_returns_witness:
  "\<exists>result writer' w'. faultline_wal_writer_append memory_io ready_writer sample_record empty_device = Some (result, writer', w')"
  using append_returns [of memory_io ready_writer md_interrupts, OF memory_interruptions] by blast



end
