(* ===== verification/Job_Queue.thy ===== *)
theory Job_Queue
  imports Job
begin

text \<open>
  The bounded FIFO of pending job identifiers (\<^verbatim>\<open>include/job_queue.h\<close>, \<^verbatim>\<open>src/coordinator/job_queue.c\<close>):
  a ring buffer of 256 slots with the position of the oldest entry and a count. The interface
  \<open>fifo_queue\<close> states what the scheduler relies on, with the queue's contents as a list; the ring
  buffer is an instance of it.
\<close>

section \<open>The ring buffer\<close>

definition FAULTLINE_JOB_QUEUE_CAPACITY :: nat where
  "FAULTLINE_JOB_QUEUE_CAPACITY = 256"

record faultline_job_queue =
  q_ids :: "u64 list"
  q_head :: nat
  q_count :: nat

datatype queue_error =
    QUEUE_INVALID_ARGUMENT
  | QUEUE_INVALID_STATE
  | QUEUE_DUPLICATE
  | QUEUE_FULL
  | QUEUE_EMPTY

definition faultline_job_queue_init :: faultline_job_queue where
  "faultline_job_queue_init =
     \<lparr> q_ids = replicate FAULTLINE_JOB_QUEUE_CAPACITY 0, q_head = 0, q_count = 0 \<rparr>"

definition faultline_job_queue_push ::
  "faultline_job_queue \<Rightarrow> faultline_job \<Rightarrow> queue_error + faultline_job_queue" where
  "faultline_job_queue_push queue job =
     (if j_id job = 0 then Inl QUEUE_INVALID_ARGUMENT
      else if j_state job \<noteq> JOB_QUEUED \<or> j_worker_id job \<noteq> 0 then Inl QUEUE_INVALID_STATE
      else if list_ex (\<lambda>i. q_ids queue ! ((q_head queue + i) mod FAULTLINE_JOB_QUEUE_CAPACITY) = j_id job)
                [0..<q_count queue] then Inl QUEUE_DUPLICATE
      else if q_count queue = FAULTLINE_JOB_QUEUE_CAPACITY then Inl QUEUE_FULL
      else
        (let tail = (q_head queue + q_count queue) mod FAULTLINE_JOB_QUEUE_CAPACITY in
         Inr (queue\<lparr> q_ids := (q_ids queue)[tail := j_id job], q_count := q_count queue + 1 \<rparr>)))"

definition faultline_job_queue_peek :: "faultline_job_queue \<Rightarrow> queue_error + u64" where
  "faultline_job_queue_peek queue =
     (if q_count queue = 0 then Inl QUEUE_EMPTY else Inr (q_ids queue ! q_head queue))"

definition faultline_job_queue_pop ::
  "faultline_job_queue \<Rightarrow> queue_error + u64 \<times> faultline_job_queue" where
  "faultline_job_queue_pop queue =
     (case faultline_job_queue_peek queue of
        Inl e \<Rightarrow> Inl e
      | Inr job_id \<Rightarrow>
          Inr (job_id, queue\<lparr> q_ids := (q_ids queue)[q_head queue := 0],
                              q_head := (q_head queue + 1) mod FAULTLINE_JOB_QUEUE_CAPACITY,
                              q_count := q_count queue - 1 \<rparr>))"

section \<open>The interface\<close>

fun push_all :: "('q \<Rightarrow> 'j \<Rightarrow> 'e + 'q) \<Rightarrow> 'q \<Rightarrow> 'j list \<Rightarrow> 'e + 'q" where
  "push_all push q [] = Inr q"
| "push_all push q (j # js) = (case push q j of Inl e \<Rightarrow> Inl e | Inr q' \<Rightarrow> push_all push q' js)"

fun pop_many :: "('q \<Rightarrow> 'e + 'k \<times> 'q) \<Rightarrow> nat \<Rightarrow> 'q \<Rightarrow> 'e + 'k list \<times> 'q" where
  "pop_many pop 0 q = Inr ([], q)"
| "pop_many pop (Suc n) q =
     (case pop q of
        Inl e \<Rightarrow> Inl e
      | Inr (k, q') \<Rightarrow>
          (case pop_many pop n q' of Inl e \<Rightarrow> Inl e | Inr (ks, q'') \<Rightarrow> Inr (k # ks, q'')))"

locale fifo_queue =
  fixes empty :: 'q
    and push :: "'q \<Rightarrow> 'j \<Rightarrow> 'e + 'q"
    and peek :: "'q \<Rightarrow> 'e + 'k"
    and pop :: "'q \<Rightarrow> 'e + 'k \<times> 'q"
    and key :: "'j \<Rightarrow> 'k"
    and admissible :: "'j \<Rightarrow> bool"
    and capacity :: nat
    and empty_error :: 'e
    and contents :: "'q \<Rightarrow> 'k list"
    and inv :: "'q \<Rightarrow> bool"
  assumes empty_inv: "inv empty" and empty_contents: "contents empty = []"
    and push_accepts: "inv q \<Longrightarrow> admissible j \<Longrightarrow> key j \<notin> set (contents q) \<Longrightarrow>
      length (contents q) < capacity \<Longrightarrow> \<exists>q'. push q j = Inr q'"
    and push_result: "inv q \<Longrightarrow> push q j = Inr q' \<Longrightarrow>
      inv q' \<and> contents q' = contents q @ [key j] \<and> key j \<notin> set (contents q) \<and>
      length (contents q) < capacity \<and> admissible j"
    and peek_result: "inv q \<Longrightarrow>
      peek q = (case contents q of [] \<Rightarrow> Inl empty_error | k # _ \<Rightarrow> Inr k)"
    and pop_empty: "inv q \<Longrightarrow> contents q = [] \<Longrightarrow> pop q = Inl empty_error"
    and pop_result: "inv q \<Longrightarrow> contents q = k # ks \<Longrightarrow>
      \<exists>q'. pop q = Inr (k, q') \<and> inv q' \<and> contents q' = ks"
begin

lemma push_Inr_iff:
  "inv q \<Longrightarrow> (\<exists>q'. push q j = Inr q') \<longleftrightarrow>
     admissible j \<and> key j \<notin> set (contents q) \<and> length (contents q) < capacity"
  using push_accepts push_result by blast

lemma pop_Inr:
  assumes "inv q" "pop q = Inr (k, q')"
  shows "inv q' \<and> contents q = k # contents q'"
proof (cases "contents q")
  case Nil
  with pop_empty [OF assms(1)] assms(2) show ?thesis by simp
next
  case (Cons k' ks)
  with pop_result [OF assms(1)] assms(2) show ?thesis by fastforce
qed

lemma push_all_result:
  "inv q \<Longrightarrow> push_all push q js = Inr q' \<Longrightarrow> inv q' \<and> contents q' = contents q @ map key js"
proof (induction js arbitrary: q)
  case (Cons j js)
  then obtain r where r: "push q j = Inr r" "push_all push r js = Inr q'"
    by (auto split: sum.splits)
  from push_result [OF Cons.prems(1) r(1)] Cons.IH [OF _ r(2)] show ?case by simp
qed simp

lemma pop_many_result:
  "inv q \<Longrightarrow> n \<le> length (contents q) \<Longrightarrow>
     \<exists>q'. pop_many pop n q = Inr (take n (contents q), q') \<and> inv q' \<and> contents q' = drop n (contents q)"
proof (induction n arbitrary: q)
  case (Suc n)
  then obtain k ks where ks: "contents q = k # ks" by (cases "contents q") auto
  then obtain r where r: "pop q = Inr (k, r)" "inv r" "contents r = ks"
    using pop_result [OF Suc.prems(1)] by blast
  then show ?case using Suc.IH [of r] Suc.prems ks by auto
qed simp

text \<open>First in, first out: what was there leaves first, then what was pushed, in push order.\<close>

lemma push_pop_fifo:
  assumes "inv q" "push_all push q js = Inr q'"
  shows "\<exists>r. pop_many pop (length (contents q) + length js) q' = Inr (contents q @ map key js, r) \<and>
    contents r = []"
  using push_all_result [OF assms] pop_many_result [of q' "length (contents q) + length js"] by auto

end

section \<open>The ring buffer implements the interface\<close>

definition queue_contents :: "faultline_job_queue \<Rightarrow> u64 list" where
  "queue_contents q =
     map (\<lambda>i. q_ids q ! ((q_head q + i) mod FAULTLINE_JOB_QUEUE_CAPACITY)) [0..<q_count q]"

definition queue_inv :: "faultline_job_queue \<Rightarrow> bool" where
  "queue_inv q \<longleftrightarrow>
     length (q_ids q) = FAULTLINE_JOB_QUEUE_CAPACITY \<and> q_head q < FAULTLINE_JOB_QUEUE_CAPACITY \<and>
     q_count q \<le> FAULTLINE_JOB_QUEUE_CAPACITY \<and>
     distinct (queue_contents q) \<and> 0 \<notin> set (queue_contents q)"

definition queueable :: "faultline_job \<Rightarrow> bool" where
  "queueable job \<longleftrightarrow> j_id job \<noteq> 0 \<and> j_state job = JOB_QUEUED \<and> j_worker_id job = 0"

lemma length_queue_contents [simp]: "length (queue_contents q) = q_count q"
  by (simp add: queue_contents_def)

lemma queue_capacity_pos [simp]: "0 < FAULTLINE_JOB_QUEUE_CAPACITY"
  by (simp add: FAULTLINE_JOB_QUEUE_CAPACITY_def)

lemma duplicate_scan:
  "list_ex (\<lambda>i. q_ids q ! ((q_head q + i) mod FAULTLINE_JOB_QUEUE_CAPACITY) = k) [0..<q_count q] \<longleftrightarrow>
     k \<in> set (queue_contents q)"
  by (auto simp: queue_contents_def list_ex_iff)

text \<open>Different offsets below the capacity are different slots.\<close>

lemma ring_slot_inj:
  assumes "i < FAULTLINE_JOB_QUEUE_CAPACITY" "j < FAULTLINE_JOB_QUEUE_CAPACITY"
    "(h + i) mod FAULTLINE_JOB_QUEUE_CAPACITY = (h + j) mod FAULTLINE_JOB_QUEUE_CAPACITY"
  shows "i = j"
proof -
  have "x = y" if "x \<le> y" "y < C" "(h + x) mod C = (h + y) mod C" for x y C :: nat
  proof -
    have "C dvd (h + y) - (h + x)"
      using that(1,3) by (subst mod_eq_dvd_iff_nat [symmetric]) auto
    with that(1,2) show ?thesis by (cases "y - x") (auto dest: dvd_imp_le)
  qed
  from this [of i j FAULTLINE_JOB_QUEUE_CAPACITY] this [of j i FAULTLINE_JOB_QUEUE_CAPACITY]
  show ?thesis using assms by (cases "i \<le> j") auto
qed

lemma contents_after_push:
  assumes "queue_inv q" "q_count q < FAULTLINE_JOB_QUEUE_CAPACITY"
  shows "queue_contents
    (q\<lparr> q_ids := (q_ids q)[(q_head q + q_count q) mod FAULTLINE_JOB_QUEUE_CAPACITY := k],
        q_count := q_count q + 1 \<rparr>) = queue_contents q @ [k]"
proof -
  let ?C = FAULTLINE_JOB_QUEUE_CAPACITY
  have "(q_head q + q_count q) mod ?C \<noteq> (q_head q + i) mod ?C" if "i < q_count q" for i
    using ring_slot_inj [of "q_count q" i "q_head q"] that assms(2) by auto
  then show ?thesis
    using assms by (simp add: queue_contents_def queue_inv_def)
qed

lemma contents_after_pop:
  assumes "queue_inv q" "0 < q_count q"
  shows "queue_contents q = q_ids q ! q_head q # queue_contents
    (q\<lparr> q_ids := (q_ids q)[q_head q := 0], q_head := (q_head q + 1) mod FAULTLINE_JOB_QUEUE_CAPACITY,
        q_count := q_count q - 1 \<rparr>)"
proof -
  let ?C = FAULTLINE_JOB_QUEUE_CAPACITY
  obtain n where n: "q_count q = Suc n" using assms(2) by (cases "q_count q") auto
  have "q_head q \<noteq> (q_head q + Suc i) mod ?C" if "i < n" for i
    using ring_slot_inj [of 0 "Suc i" "q_head q"] that assms n by (auto simp: queue_inv_def)
  moreover have "((q_head q + 1) mod ?C + i) mod ?C = (q_head q + Suc i) mod ?C" for i
    by (simp add: mod_simps)
  moreover have "[0..<Suc n] = 0 # map Suc [0..<n]"
    by (simp only: map_Suc_upt upt_conv_Cons zero_less_Suc)
  ultimately show ?thesis
    using assms(1) unfolding queue_contents_def queue_inv_def n by (simp del: upt_Suc)
qed

lemma queue_push_Inr_iff [outcome_simps]:
  "queue_inv q \<Longrightarrow> faultline_job_queue_push q j = Inr q' \<longleftrightarrow>
     queueable j \<and> j_id j \<notin> set (queue_contents q) \<and> q_count q < FAULTLINE_JOB_QUEUE_CAPACITY \<and>
     q' = q\<lparr> q_ids := (q_ids q)[(q_head q + q_count q) mod FAULTLINE_JOB_QUEUE_CAPACITY := j_id j],
             q_count := q_count q + 1 \<rparr>"
  by (auto simp: faultline_job_queue_push_def duplicate_scan queueable_def Let_def queue_inv_def)

lemma queue_push_inv:
  assumes "queue_inv q" "faultline_job_queue_push q j = Inr q'"
  shows "queue_inv q' \<and> queue_contents q' = queue_contents q @ [j_id j]"
proof -
  have "queue_contents q' = queue_contents q @ [j_id j]"
    using assms contents_after_push by (simp add: queue_push_Inr_iff)
  then show ?thesis
    using assms by (auto simp: queue_push_Inr_iff queue_inv_def queueable_def)
qed

lemma queue_pop_inv:
  assumes "queue_inv q" "queue_contents q = k # ks"
  shows "\<exists>q'. faultline_job_queue_pop q = Inr (k, q') \<and> queue_inv q' \<and> queue_contents q' = ks"
proof -
  let ?q' = "q\<lparr> q_ids := (q_ids q)[q_head q := 0],
    q_head := (q_head q + 1) mod FAULTLINE_JOB_QUEUE_CAPACITY, q_count := q_count q - 1 \<rparr>"
  have pos: "0 < q_count q" using assms(2) by (metis length_queue_contents length_greater_0_conv list.discI)
  then have eq: "q_ids q ! q_head q = k" "queue_contents ?q' = ks"
    using contents_after_pop [OF assms(1)] assms(2) by auto
  have "faultline_job_queue_pop q = Inr (k, ?q')"
    using pos eq by (simp add: faultline_job_queue_pop_def faultline_job_queue_peek_def)
  moreover have "queue_inv ?q'"
    using assms eq(2) by (auto simp: queue_inv_def)
  ultimately show ?thesis using eq(2) by blast
qed

interpretation jq: fifo_queue faultline_job_queue_init faultline_job_queue_push
  faultline_job_queue_peek faultline_job_queue_pop j_id queueable FAULTLINE_JOB_QUEUE_CAPACITY
  QUEUE_EMPTY queue_contents queue_inv
proof unfold_locales
  show "queue_inv faultline_job_queue_init" "queue_contents faultline_job_queue_init = []"
    by (simp_all add: queue_inv_def queue_contents_def faultline_job_queue_init_def)
next
  fix q j assume "queue_inv q" "queueable j" "j_id j \<notin> set (queue_contents q)"
    "length (queue_contents q) < FAULTLINE_JOB_QUEUE_CAPACITY"
  then show "\<exists>q'. faultline_job_queue_push q j = Inr q'" by (simp add: queue_push_Inr_iff)
next
  fix q j q' assume "queue_inv q" "faultline_job_queue_push q j = Inr q'"
  then show "queue_inv q' \<and> queue_contents q' = queue_contents q @ [j_id j] \<and>
    j_id j \<notin> set (queue_contents q) \<and> length (queue_contents q) < FAULTLINE_JOB_QUEUE_CAPACITY \<and> queueable j"
    using queue_push_inv [of q j q'] queue_push_Inr_iff [of q j q'] by simp
next
  fix q assume inv: "queue_inv q"
  show "faultline_job_queue_peek q =
    (case queue_contents q of [] \<Rightarrow> Inl QUEUE_EMPTY | k # _ \<Rightarrow> Inr k)"
  proof (cases "queue_contents q")
    case Nil
    then show ?thesis by (simp add: faultline_job_queue_peek_def queue_contents_def)
  next
    case (Cons k ks)
    with queue_pop_inv [OF inv] show ?thesis
      by (force simp: faultline_job_queue_pop_def split: sum.splits)
  qed
next
  fix q assume "queue_inv q" "queue_contents q = []"
  then show "faultline_job_queue_pop q = Inl QUEUE_EMPTY"
    by (simp add: faultline_job_queue_pop_def faultline_job_queue_peek_def queue_contents_def)
next
  fix q k ks assume "queue_inv q" "queue_contents q = k # ks"
  then show "\<exists>q'. faultline_job_queue_pop q = Inr (k, q') \<and> queue_inv q' \<and> queue_contents q' = ks"
    by (rule queue_pop_inv)
qed

section \<open>The same operations on the list of queued identifiers\<close>

definition list_push :: "u64 list \<Rightarrow> faultline_job \<Rightarrow> queue_error + u64 list" where
  "list_push ks job =
     (if j_id job = 0 then Inl QUEUE_INVALID_ARGUMENT
      else if \<not> queueable job then Inl QUEUE_INVALID_STATE
      else if j_id job \<in> set ks then Inl QUEUE_DUPLICATE
      else if length ks \<ge> FAULTLINE_JOB_QUEUE_CAPACITY then Inl QUEUE_FULL
      else Inr (ks @ [j_id job]))"

fun list_pop :: "u64 list \<Rightarrow> queue_error + u64 \<times> u64 list" where
  "list_pop [] = Inl QUEUE_EMPTY"
| "list_pop (k # ks) = Inr (k, ks)"

lemma queue_push_list:
  assumes "queue_inv q"
  shows "map_sum id queue_contents (faultline_job_queue_push q job) = list_push (queue_contents q) job"
proof (cases "faultline_job_queue_push q job")
  case (Inl e)
  then show ?thesis using assms
    by (auto simp: faultline_job_queue_push_def list_push_def duplicate_scan queueable_def Let_def
        queue_inv_def split: if_splits)
next
  case (Inr q')
  then show ?thesis using queue_push_inv [OF assms Inr] queue_push_Inr_iff [OF assms, of job q']
    by (simp add: list_push_def queueable_def)
qed

lemma queue_pop_list:
  assumes "queue_inv q"
  shows "map_sum id (map_prod id queue_contents) (faultline_job_queue_pop q) = list_pop (queue_contents q)"
  using jq.pop_empty [OF assms] queue_pop_inv [OF assms] by (cases "queue_contents q") auto

section \<open>Properties\<close>

text \<open>Claim C3. The queue is first in, first out across any wrap-around of the ring: after a
  sequence of accepted pushes, popping everything yields first the identifiers that were queued,
  then the pushed ones in push order, and leaves the queue empty.\<close>

theorem queue_fifo:
  assumes "queue_inv q" "push_all faultline_job_queue_push q js = Inr q'"
  shows "\<exists>r. pop_many faultline_job_queue_pop (q_count q + length js) q' =
      Inr (queue_contents q @ map j_id js, r) \<and> q_count r = 0"
  using jq.push_pop_fifo [OF assms] by (metis length_queue_contents list.size(3))

theorem queue_fifo_witness:
  "\<exists>q' r. push_all faultline_job_queue_push faultline_job_queue_init
       [sample_job, sample_job\<lparr> j_id := 9 \<rparr>] = Inr q' \<and>
     pop_many faultline_job_queue_pop 2 q' = Inr ([j_id sample_job, 9], r) \<and> q_count r = 0"
proof -
  let ?js = "[sample_job, sample_job\<lparr> j_id := 9 \<rparr>]"
  have "\<exists>q'. push_all faultline_job_queue_push faultline_job_queue_init ?js = Inr q'"
    by (simp add: faultline_job_queue_push_def faultline_job_queue_init_def sample_job_def)
      (simp add: FAULTLINE_JOB_QUEUE_CAPACITY_def)
  then obtain q' where q': "push_all faultline_job_queue_push faultline_job_queue_init ?js = Inr q'" ..
  have count: "q_count faultline_job_queue_init + length ?js = 2"
    by (simp add: faultline_job_queue_init_def)
  have "\<exists>r. pop_many faultline_job_queue_pop 2 q' = Inr ([j_id sample_job, 9], r) \<and> q_count r = 0"
    using queue_fifo [OF jq.empty_inv q', unfolded count jq.empty_contents]
    by (simp del: pop_many.simps)
  with q' show ?thesis by blast
qed

text \<open>Claim C4. The ring buffer refines a list of identifiers: on every branch, errors
  included, push and pop on a well-formed ring act on its contents as the list operations do, and
  every queue they return is well-formed.\<close>

theorem queue_refines_list:
  assumes "queue_inv q"
  shows "map_sum id queue_contents (faultline_job_queue_push q job) = list_push (queue_contents q) job \<and>
    map_sum id (map_prod id queue_contents) (faultline_job_queue_pop q) = list_pop (queue_contents q) \<and>
    (\<forall>q'. faultline_job_queue_push q job = Inr q' \<longrightarrow> queue_inv q') \<and>
    (\<forall>k q'. faultline_job_queue_pop q = Inr (k, q') \<longrightarrow> queue_inv q')"
  using queue_push_list [OF assms] queue_pop_list [OF assms] queue_push_inv [OF assms]
    jq.pop_Inr [OF assms] by blast

theorem queue_refines_list_witness:
  "map_sum id queue_contents (faultline_job_queue_push faultline_job_queue_init sample_job) = Inr [7] \<and>
   map_sum id (map_prod id queue_contents) (faultline_job_queue_pop faultline_job_queue_init) =
     Inl QUEUE_EMPTY"
  using queue_refines_list [OF jq.empty_inv, of sample_job]
  by (simp add: jq.empty_contents list_push_def queueable_def sample_job_def)

end
