(* ===== verification/Message.thy ===== *)
theory Message
  imports Job
begin

text \<open>
  The host-order side of the wire protocol: the message types and payload structures of
  \<^verbatim>\<open>include/protocol.h\<close> and the validation of \<^verbatim>\<open>src/common/protocol.c\<close> that runs before every encode
  and after every decode. A tagged union is a datatype with one constructor per message type, so an
  unknown tag only exists in a header. Variable data keeps its size field beside the bytes, as the
  structures do; the entries of a list response are the entries in use.
\<close>

section \<open>Constants\<close>

definition FAULTLINE_PROTOCOL_MAGIC :: u32 where "FAULTLINE_PROTOCOL_MAGIC = 0x464c494e"
definition FAULTLINE_PROTOCOL_VERSION :: u16 where "FAULTLINE_PROTOCOL_VERSION = 1"
definition FAULTLINE_HEADER_SIZE :: nat where "FAULTLINE_HEADER_SIZE = 12"
definition FAULTLINE_MAX_PAYLOAD_SIZE :: u32 where "FAULTLINE_MAX_PAYLOAD_SIZE = 1048576"

definition FAULTLINE_JOB_SUBMIT_PREFIX_SIZE :: nat where "FAULTLINE_JOB_SUBMIT_PREFIX_SIZE = 10"
definition FAULTLINE_JOB_SUBMIT_ACK_PAYLOAD_SIZE :: nat where "FAULTLINE_JOB_SUBMIT_ACK_PAYLOAD_SIZE = 8"
definition FAULTLINE_JOB_ASSIGN_PREFIX_SIZE :: nat where "FAULTLINE_JOB_ASSIGN_PREFIX_SIZE = 26"
definition FAULTLINE_JOB_STARTED_PAYLOAD_SIZE :: nat where "FAULTLINE_JOB_STARTED_PAYLOAD_SIZE = 20"
definition FAULTLINE_JOB_COMPLETED_PREFIX_SIZE :: nat where "FAULTLINE_JOB_COMPLETED_PREFIX_SIZE = 24"
definition FAULTLINE_JOB_FAILED_PAYLOAD_SIZE :: nat where "FAULTLINE_JOB_FAILED_PAYLOAD_SIZE = 22"
definition FAULTLINE_JOB_STATUS_REQUEST_PAYLOAD_SIZE :: nat where "FAULTLINE_JOB_STATUS_REQUEST_PAYLOAD_SIZE = 8"
definition FAULTLINE_JOB_STATUS_RESPONSE_PREFIX_SIZE :: nat where "FAULTLINE_JOB_STATUS_RESPONSE_PREFIX_SIZE = 36"
definition FAULTLINE_JOB_STATUS_NOT_FOUND_PAYLOAD_SIZE :: nat where "FAULTLINE_JOB_STATUS_NOT_FOUND_PAYLOAD_SIZE = 8"
definition FAULTLINE_JOBS_MAX_ENTRIES :: nat where "FAULTLINE_JOBS_MAX_ENTRIES = 256"
definition FAULTLINE_WORKERS_MAX_ENTRIES :: nat where "FAULTLINE_WORKERS_MAX_ENTRIES = 64"
definition FAULTLINE_JOBS_PREFIX_SIZE :: nat where "FAULTLINE_JOBS_PREFIX_SIZE = 4"
definition FAULTLINE_JOB_SUMMARY_SIZE :: nat where "FAULTLINE_JOB_SUMMARY_SIZE = 38"
definition FAULTLINE_WORKERS_PREFIX_SIZE :: nat where "FAULTLINE_WORKERS_PREFIX_SIZE = 8"
definition FAULTLINE_WORKER_SUMMARY_SIZE :: nat where "FAULTLINE_WORKER_SUMMARY_SIZE = 30"
definition FAULTLINE_STATS_PAYLOAD_SIZE :: nat where "FAULTLINE_STATS_PAYLOAD_SIZE = 192"

definition FAULTLINE_MESSAGE_MAX_FRAME_SIZE :: nat where
  "FAULTLINE_MESSAGE_MAX_FRAME_SIZE =
     FAULTLINE_HEADER_SIZE + FAULTLINE_JOBS_PREFIX_SIZE +
     FAULTLINE_JOBS_MAX_ENTRIES * FAULTLINE_JOB_SUMMARY_SIZE"

lemmas protocol_sizes =
  FAULTLINE_HEADER_SIZE_def FAULTLINE_JOB_SUBMIT_PREFIX_SIZE_def
  FAULTLINE_JOB_SUBMIT_ACK_PAYLOAD_SIZE_def FAULTLINE_JOB_ASSIGN_PREFIX_SIZE_def
  FAULTLINE_JOB_STARTED_PAYLOAD_SIZE_def FAULTLINE_JOB_COMPLETED_PREFIX_SIZE_def
  FAULTLINE_JOB_FAILED_PAYLOAD_SIZE_def FAULTLINE_JOB_STATUS_REQUEST_PAYLOAD_SIZE_def
  FAULTLINE_JOB_STATUS_RESPONSE_PREFIX_SIZE_def FAULTLINE_JOB_STATUS_NOT_FOUND_PAYLOAD_SIZE_def
  FAULTLINE_JOBS_MAX_ENTRIES_def FAULTLINE_WORKERS_MAX_ENTRIES_def FAULTLINE_JOBS_PREFIX_SIZE_def
  FAULTLINE_JOB_SUMMARY_SIZE_def FAULTLINE_WORKERS_PREFIX_SIZE_def
  FAULTLINE_WORKER_SUMMARY_SIZE_def FAULTLINE_STATS_PAYLOAD_SIZE_def
  FAULTLINE_JOB_MAX_ARGUMENT_SIZE_def FAULTLINE_JOB_MAX_RESULT_SIZE_def

section \<open>Structures\<close>

record faultline_header =
  h_magic :: u32
  h_version :: u16
  h_message_type :: u16
  h_payload_length :: u32

record faultline_job_identity =
  i_job_id :: u64
  i_worker_id :: u32
  i_attempt :: u64

record faultline_job_submit_payload =
  sub_task_type :: u16
  sub_max_retries :: u32
  sub_argument_size :: nat
  sub_arguments :: bytes

record faultline_job_assign_payload =
  asg_identity :: faultline_job_identity
  asg_task_type :: u16
  asg_argument_size :: nat
  asg_arguments :: bytes

record faultline_job_completed_payload =
  cmp_identity :: faultline_job_identity
  cmp_result_size :: nat
  cmp_result :: bytes

record faultline_job_failed_payload =
  fail_identity :: faultline_job_identity
  fail_failure :: u16

record faultline_job_status_payload =
  st_job_id :: u64
  st_state :: u16
  st_worker_id :: u32
  st_attempt :: u64
  st_retry_count :: u32
  st_max_retries :: u32
  st_failure :: u16
  st_result_size :: nat
  st_result :: bytes

record faultline_job_summary =
  sm_job_id :: u64
  sm_task_type :: u16
  sm_state :: u16
  sm_worker_id :: u32
  sm_attempt :: u64
  sm_retry_count :: u32
  sm_max_retries :: u32
  sm_failure :: u16
  sm_result_size :: u32

abbreviation WORKER_VIEW_ALIVE :: u16 where "WORKER_VIEW_ALIVE \<equiv> 1"
abbreviation WORKER_VIEW_DEAD :: u16 where "WORKER_VIEW_DEAD \<equiv> 2"

record faultline_worker_summary =
  ws_worker_id :: u32
  ws_state :: u16
  ws_heartbeat_age_ms :: u64
  ws_job_id :: u64
  ws_attempt :: u64

record faultline_workers_payload =
  wl_heartbeat_timeout_ms :: u32
  wl_entries :: "faultline_worker_summary list"

record faultline_stats_payload =
  stat_jobs_submitted_total :: u64
  stat_jobs_queued :: u64
  stat_jobs_assigned :: u64
  stat_jobs_running :: u64
  stat_jobs_completed_total :: u64
  stat_jobs_failed_total :: u64
  stat_job_attempts_total :: u64
  stat_job_retries_total :: u64
  stat_completed_latency_avg_ms :: u64
  stat_workers_retained :: u64
  stat_workers_alive :: u64
  stat_workers_expired :: u64
  stat_workers_dead :: u64
  stat_workers_busy :: u64
  stat_workers_idle :: u64
  stat_session_uptime_ms :: u64
  stat_session_jobs_submitted :: u64
  stat_session_jobs_completed :: u64
  stat_session_jobs_failed :: u64
  stat_session_job_retries :: u64
  stat_startup_jobs_recovered :: u64
  stat_startup_interrupted_jobs :: u64
  stat_startup_duration_ms :: u64
  stat_heartbeat_timeout_ms :: u64

datatype faultline_message =
    MSG_PING u32
  | MSG_PONG u32
  | MSG_WORKER_REGISTER u32
  | MSG_WORKER_REGISTER_ACK u32
  | MSG_HEARTBEAT u32
  | MSG_JOB_SUBMIT faultline_job_submit_payload
  | MSG_JOB_SUBMIT_ACK u64
  | MSG_JOB_ASSIGN faultline_job_assign_payload
  | MSG_JOB_STARTED faultline_job_identity
  | MSG_JOB_COMPLETED faultline_job_completed_payload
  | MSG_JOB_FAILED faultline_job_failed_payload
  | MSG_JOB_STATUS_REQUEST u64
  | MSG_JOB_STATUS_RESPONSE faultline_job_status_payload
  | MSG_JOB_STATUS_NOT_FOUND u64
  | MSG_JOBS_REQUEST u32
  | MSG_JOBS_RESPONSE "faultline_job_summary list"
  | MSG_WORKERS_REQUEST u32
  | MSG_WORKERS_RESPONSE faultline_workers_payload
  | MSG_STATS_REQUEST u32
  | MSG_STATS_RESPONSE faultline_stats_payload

text \<open>The message types as the header has them.\<close>

abbreviation (input) FAULTLINE_MSG_PING :: u16 where "FAULTLINE_MSG_PING \<equiv> 1"
abbreviation (input) FAULTLINE_MSG_PONG :: u16 where "FAULTLINE_MSG_PONG \<equiv> 2"
abbreviation (input) FAULTLINE_MSG_WORKER_REGISTER :: u16 where "FAULTLINE_MSG_WORKER_REGISTER \<equiv> 3"
abbreviation (input) FAULTLINE_MSG_WORKER_REGISTER_ACK :: u16 where "FAULTLINE_MSG_WORKER_REGISTER_ACK \<equiv> 4"
abbreviation (input) FAULTLINE_MSG_HEARTBEAT :: u16 where "FAULTLINE_MSG_HEARTBEAT \<equiv> 5"
abbreviation (input) FAULTLINE_MSG_JOB_SUBMIT :: u16 where "FAULTLINE_MSG_JOB_SUBMIT \<equiv> 6"
abbreviation (input) FAULTLINE_MSG_JOB_SUBMIT_ACK :: u16 where "FAULTLINE_MSG_JOB_SUBMIT_ACK \<equiv> 7"
abbreviation (input) FAULTLINE_MSG_JOB_ASSIGN :: u16 where "FAULTLINE_MSG_JOB_ASSIGN \<equiv> 8"
abbreviation (input) FAULTLINE_MSG_JOB_STARTED :: u16 where "FAULTLINE_MSG_JOB_STARTED \<equiv> 9"
abbreviation (input) FAULTLINE_MSG_JOB_COMPLETED :: u16 where "FAULTLINE_MSG_JOB_COMPLETED \<equiv> 10"
abbreviation (input) FAULTLINE_MSG_JOB_FAILED :: u16 where "FAULTLINE_MSG_JOB_FAILED \<equiv> 11"
abbreviation (input) FAULTLINE_MSG_JOB_STATUS_REQUEST :: u16 where "FAULTLINE_MSG_JOB_STATUS_REQUEST \<equiv> 12"
abbreviation (input) FAULTLINE_MSG_JOB_STATUS_RESPONSE :: u16 where "FAULTLINE_MSG_JOB_STATUS_RESPONSE \<equiv> 13"
abbreviation (input) FAULTLINE_MSG_JOB_STATUS_NOT_FOUND :: u16 where "FAULTLINE_MSG_JOB_STATUS_NOT_FOUND \<equiv> 14"
abbreviation (input) FAULTLINE_MSG_JOBS_REQUEST :: u16 where "FAULTLINE_MSG_JOBS_REQUEST \<equiv> 15"
abbreviation (input) FAULTLINE_MSG_JOBS_RESPONSE :: u16 where "FAULTLINE_MSG_JOBS_RESPONSE \<equiv> 16"
abbreviation (input) FAULTLINE_MSG_WORKERS_REQUEST :: u16 where "FAULTLINE_MSG_WORKERS_REQUEST \<equiv> 17"
abbreviation (input) FAULTLINE_MSG_WORKERS_RESPONSE :: u16 where "FAULTLINE_MSG_WORKERS_RESPONSE \<equiv> 18"
abbreviation (input) FAULTLINE_MSG_STATS_REQUEST :: u16 where "FAULTLINE_MSG_STATS_REQUEST \<equiv> 19"
abbreviation (input) FAULTLINE_MSG_STATS_RESPONSE :: u16 where "FAULTLINE_MSG_STATS_RESPONSE \<equiv> 20"

fun message_type :: "faultline_message \<Rightarrow> u16" where
  "message_type (MSG_PING _) = 1"
| "message_type (MSG_PONG _) = 2"
| "message_type (MSG_WORKER_REGISTER _) = 3"
| "message_type (MSG_WORKER_REGISTER_ACK _) = 4"
| "message_type (MSG_HEARTBEAT _) = 5"
| "message_type (MSG_JOB_SUBMIT _) = 6"
| "message_type (MSG_JOB_SUBMIT_ACK _) = 7"
| "message_type (MSG_JOB_ASSIGN _) = 8"
| "message_type (MSG_JOB_STARTED _) = 9"
| "message_type (MSG_JOB_COMPLETED _) = 10"
| "message_type (MSG_JOB_FAILED _) = 11"
| "message_type (MSG_JOB_STATUS_REQUEST _) = 12"
| "message_type (MSG_JOB_STATUS_RESPONSE _) = 13"
| "message_type (MSG_JOB_STATUS_NOT_FOUND _) = 14"
| "message_type (MSG_JOBS_REQUEST _) = 15"
| "message_type (MSG_JOBS_RESPONSE _) = 16"
| "message_type (MSG_WORKERS_REQUEST _) = 17"
| "message_type (MSG_WORKERS_RESPONSE _) = 18"
| "message_type (MSG_STATS_REQUEST _) = 19"
| "message_type (MSG_STATS_RESPONSE _) = 20"

datatype protocol_error =
    PROTOCOL_INVALID_ARGUMENT
  | PROTOCOL_BUFFER_TOO_SMALL
  | PROTOCOL_BAD_MAGIC
  | PROTOCOL_UNSUPPORTED_VERSION
  | PROTOCOL_UNKNOWN_MESSAGE_TYPE
  | PROTOCOL_PAYLOAD_TOO_LARGE
  | PROTOCOL_INVALID_PAYLOAD_LENGTH
  | PROTOCOL_INVALID_WORKER_ID
  | PROTOCOL_INVALID_JOB_ID
  | PROTOCOL_INVALID_ATTEMPT
  | PROTOCOL_INVALID_TASK_TYPE
  | PROTOCOL_INVALID_FAILURE
  | PROTOCOL_INVALID_JOB_STATE
  | PROTOCOL_INVALID_RETRY_COUNT
  | PROTOCOL_INVALID_LIST_COUNT
  | PROTOCOL_INVALID_LIST_ORDER
  | PROTOCOL_INVALID_WORKER_STATE
  | PROTOCOL_INVALID_HEARTBEAT_TIMEOUT
  | PROTOCOL_INVALID_STATS

section \<open>Payload bounds and headers\<close>

text \<open>The least payload length of a message type and the most variable data it can carry.\<close>

definition message_payload_extra :: "u16 \<Rightarrow> nat" where
  "message_payload_extra ty =
     (if ty = 6 \<or> ty = 8 then FAULTLINE_JOB_MAX_ARGUMENT_SIZE
      else if ty = 10 \<or> ty = 13 then FAULTLINE_JOB_MAX_RESULT_SIZE
      else if ty = 16 then FAULTLINE_JOBS_MAX_ENTRIES * FAULTLINE_JOB_SUMMARY_SIZE
      else if ty = 18 then FAULTLINE_WORKERS_MAX_ENTRIES * FAULTLINE_WORKER_SUMMARY_SIZE
      else 0)"

definition message_payload_minimum :: "u16 \<Rightarrow> nat option" where
  "message_payload_minimum ty =
     (if ty = 1 \<or> ty = 2 \<or> ty = 3 \<or> ty = 15 \<or> ty = 17 \<or> ty = 19 then Some 0
      else if ty = 4 \<or> ty = 5 then Some 4
      else if ty = 6 then Some FAULTLINE_JOB_SUBMIT_PREFIX_SIZE
      else if ty = 7 then Some FAULTLINE_JOB_SUBMIT_ACK_PAYLOAD_SIZE
      else if ty = 8 then Some FAULTLINE_JOB_ASSIGN_PREFIX_SIZE
      else if ty = 9 then Some FAULTLINE_JOB_STARTED_PAYLOAD_SIZE
      else if ty = 10 then Some FAULTLINE_JOB_COMPLETED_PREFIX_SIZE
      else if ty = 11 then Some FAULTLINE_JOB_FAILED_PAYLOAD_SIZE
      else if ty = 12 then Some FAULTLINE_JOB_STATUS_REQUEST_PAYLOAD_SIZE
      else if ty = 13 then Some FAULTLINE_JOB_STATUS_RESPONSE_PREFIX_SIZE
      else if ty = 14 then Some FAULTLINE_JOB_STATUS_NOT_FOUND_PAYLOAD_SIZE
      else if ty = 16 then Some FAULTLINE_JOBS_PREFIX_SIZE
      else if ty = 18 then Some FAULTLINE_WORKERS_PREFIX_SIZE
      else if ty = 20 then Some FAULTLINE_STATS_PAYLOAD_SIZE
      else None)"

definition message_payload_bounds :: "u16 \<Rightarrow> protocol_error + nat \<times> nat" where
  "message_payload_bounds ty =
     (case message_payload_minimum ty of
        None \<Rightarrow> Inl PROTOCOL_UNKNOWN_MESSAGE_TYPE
      | Some minimum \<Rightarrow> Inr (minimum, minimum + message_payload_extra ty))"

text \<open>Checks return the code they fail with, \<open>None\<close> for OK.\<close>

definition validate_header :: "faultline_header \<Rightarrow> protocol_error option" where
  "validate_header header =
     (if h_magic header \<noteq> FAULTLINE_PROTOCOL_MAGIC then Some PROTOCOL_BAD_MAGIC
      else if h_version header \<noteq> FAULTLINE_PROTOCOL_VERSION then Some PROTOCOL_UNSUPPORTED_VERSION
      else if message_payload_bounds (h_message_type header) = Inl PROTOCOL_UNKNOWN_MESSAGE_TYPE
      then Some PROTOCOL_UNKNOWN_MESSAGE_TYPE
      else if h_payload_length header > FAULTLINE_MAX_PAYLOAD_SIZE then Some PROTOCOL_PAYLOAD_TOO_LARGE
      else None)"

section \<open>Validation of payloads\<close>

definition valid_task :: "u16 \<Rightarrow> bool" where
  "valid_task ty \<longleftrightarrow>
     ty = task_code TASK_SLEEP \<or> ty = task_code TASK_PRIME_COUNT \<or>
     ty = task_code TASK_FIBONACCI \<or> ty = task_code TASK_HASH"

definition validate_identity :: "faultline_job_identity \<Rightarrow> protocol_error option" where
  "validate_identity identity =
     (if i_job_id identity = 0 then Some PROTOCOL_INVALID_JOB_ID
      else if i_worker_id identity = 0 then Some PROTOCOL_INVALID_WORKER_ID
      else if i_attempt identity = 0 then Some PROTOCOL_INVALID_ATTEMPT
      else None)"

definition validate_job_status :: "faultline_job_status_payload \<Rightarrow> protocol_error option" where
  "validate_job_status status =
     (if st_job_id status = 0 then Some PROTOCOL_INVALID_JOB_ID
      else if st_state status < state_code JOB_QUEUED \<or> st_state status > state_code JOB_FAILED
      then Some PROTOCOL_INVALID_JOB_STATE
      else if st_retry_count status > st_max_retries status \<or>
        st_state status = state_code JOB_FAILED \<and> st_retry_count status \<noteq> st_max_retries status
      then Some PROTOCOL_INVALID_RETRY_COUNT
      else
        (let queued = (st_state status = state_code JOB_QUEUED) in
         if queued \<and> st_worker_id status \<noteq> 0 \<or> \<not> queued \<and> st_worker_id status = 0
         then Some PROTOCOL_INVALID_WORKER_ID
         else
           (let expected_attempt = ucast (st_retry_count status) + (if queued then 0 else 1) in
            if st_attempt status \<noteq> expected_attempt then Some PROTOCOL_INVALID_ATTEMPT
            else
              (let has_failure = (st_state status = state_code JOB_FAILED \<or> queued \<and> st_attempt status \<noteq> 0) in
               if (if has_failure
                   then st_failure status \<noteq> failure_code FAILURE_TASK \<and>
                        st_failure status \<noteq> failure_code FAILURE_WORKER_LOST
                   else st_failure status \<noteq> failure_code FAILURE_NONE)
               then Some PROTOCOL_INVALID_FAILURE
               else if st_state status \<noteq> state_code JOB_DONE \<and> st_result_size status \<noteq> 0
               then Some PROTOCOL_INVALID_PAYLOAD_LENGTH
               else None))))"

definition summary_status :: "faultline_job_summary \<Rightarrow> faultline_job_status_payload" where
  "summary_status entry =
     \<lparr> st_job_id = sm_job_id entry, st_state = sm_state entry, st_worker_id = sm_worker_id entry,
       st_attempt = sm_attempt entry, st_retry_count = sm_retry_count entry,
       st_max_retries = sm_max_retries entry, st_failure = sm_failure entry,
       st_result_size = unat (sm_result_size entry), st_result = [] \<rparr>"

text \<open>The loops carry the identifier of the entry before, \<open>None\<close> at the first.\<close>

fun validate_job_entries :: "u64 option \<Rightarrow> faultline_job_summary list \<Rightarrow> protocol_error option" where
  "validate_job_entries previous [] = None"
| "validate_job_entries previous (entry # entries) =
     (case validate_job_status (summary_status entry) of
        Some e \<Rightarrow> Some e
      | None \<Rightarrow>
          if \<not> valid_task (sm_task_type entry) then Some PROTOCOL_INVALID_TASK_TYPE
          else if unat (sm_result_size entry) > FAULTLINE_JOB_MAX_RESULT_SIZE then Some PROTOCOL_PAYLOAD_TOO_LARGE
          else if (case previous of None \<Rightarrow> False | Some p \<Rightarrow> sm_job_id entry \<le> p)
          then Some PROTOCOL_INVALID_LIST_ORDER
          else validate_job_entries (Some (sm_job_id entry)) entries)"

definition validate_jobs :: "faultline_job_summary list \<Rightarrow> protocol_error option" where
  "validate_jobs entries =
     (if length entries > FAULTLINE_JOBS_MAX_ENTRIES then Some PROTOCOL_INVALID_LIST_COUNT
      else validate_job_entries None entries)"

fun validate_worker_entries :: "u32 option \<Rightarrow> faultline_worker_summary list \<Rightarrow> protocol_error option" where
  "validate_worker_entries previous [] = None"
| "validate_worker_entries previous (entry # entries) =
     (if ws_worker_id entry = 0 then Some PROTOCOL_INVALID_WORKER_ID
      else if ws_state entry \<noteq> WORKER_VIEW_ALIVE \<and> ws_state entry \<noteq> WORKER_VIEW_DEAD
      then Some PROTOCOL_INVALID_WORKER_STATE
      else if (ws_job_id entry = 0) \<noteq> (ws_attempt entry = 0) then Some PROTOCOL_INVALID_ATTEMPT
      else if ws_state entry = WORKER_VIEW_DEAD \<and> ws_job_id entry \<noteq> 0 then Some PROTOCOL_INVALID_JOB_ID
      else if (case previous of None \<Rightarrow> False | Some p \<Rightarrow> ws_worker_id entry \<le> p)
      then Some PROTOCOL_INVALID_LIST_ORDER
      else validate_worker_entries (Some (ws_worker_id entry)) entries)"

definition validate_workers :: "faultline_workers_payload \<Rightarrow> protocol_error option" where
  "validate_workers list =
     (if length (wl_entries list) > FAULTLINE_WORKERS_MAX_ENTRIES then Some PROTOCOL_INVALID_LIST_COUNT
      else if wl_heartbeat_timeout_ms list = 0 then Some PROTOCOL_INVALID_HEARTBEAT_TIMEOUT
      else validate_worker_entries None (wl_entries list))"

definition validate_stats :: "faultline_stats_payload \<Rightarrow> protocol_error option" where
  "validate_stats s =
     (if stat_jobs_submitted_total s > word_of_nat FAULTLINE_JOBS_MAX_ENTRIES \<or>
         stat_jobs_queued s > stat_jobs_submitted_total s \<or>
         stat_jobs_assigned s > stat_jobs_submitted_total s \<or>
         stat_jobs_running s > stat_jobs_submitted_total s \<or>
         stat_jobs_completed_total s > stat_jobs_submitted_total s \<or>
         stat_jobs_failed_total s > stat_jobs_submitted_total s \<or>
         stat_job_retries_total s > stat_jobs_submitted_total s * 0xffffffff \<or>
         stat_workers_retained s > word_of_nat FAULTLINE_WORKERS_MAX_ENTRIES \<or>
         stat_workers_alive s > stat_workers_retained s \<or>
         stat_workers_expired s > stat_workers_retained s \<or>
         stat_workers_dead s > stat_workers_retained s \<or>
         stat_workers_busy s > stat_workers_alive s \<or> stat_workers_idle s > stat_workers_alive s
      then Some PROTOCOL_INVALID_STATS
      else if stat_jobs_queued s + stat_jobs_assigned s + stat_jobs_running s +
           stat_jobs_completed_total s + stat_jobs_failed_total s \<noteq> stat_jobs_submitted_total s \<or>
         stat_job_attempts_total s \<noteq>
           stat_job_retries_total s + stat_jobs_submitted_total s - stat_jobs_queued s \<or>
         stat_workers_alive s + stat_workers_expired s + stat_workers_dead s \<noteq> stat_workers_retained s \<or>
         stat_workers_busy s + stat_workers_idle s \<noteq> stat_workers_alive s \<or>
         stat_workers_busy s > stat_jobs_assigned s + stat_jobs_running s \<or>
         stat_startup_jobs_recovered s > stat_jobs_submitted_total s \<or>
         stat_startup_interrupted_jobs s > stat_startup_jobs_recovered s \<or>
         stat_session_jobs_submitted s \<noteq> stat_jobs_submitted_total s - stat_startup_jobs_recovered s \<or>
         stat_session_jobs_completed s > stat_jobs_completed_total s \<or>
         stat_session_jobs_failed s > stat_jobs_failed_total s \<or>
         stat_session_job_retries s > stat_job_retries_total s \<or>
         stat_completed_latency_avg_ms s > 0x7fffffffffffffff \<or>
         stat_jobs_completed_total s = 0 \<and> stat_completed_latency_avg_ms s \<noteq> 0 \<or>
         stat_session_uptime_ms s > 0x7fffffffffffffff \<or> stat_startup_duration_ms s > 0x7fffffffffffffff \<or>
         stat_heartbeat_timeout_ms s = 0 \<or> stat_heartbeat_timeout_ms s > 0x7fffffff
      then Some PROTOCOL_INVALID_STATS
      else None)"

section \<open>Validation of messages\<close>

text \<open>
  \<^verbatim>\<open>validate_message\<close> in its three parts: the switch on the message type with the errors it returns,
  the identity it selects for the check after it, and the variable data size it records.
\<close>

fun check_message_fields :: "faultline_message \<Rightarrow> protocol_error option" where
  "check_message_fields (MSG_PING w) = (if w \<noteq> 0 then Some PROTOCOL_INVALID_WORKER_ID else None)"
| "check_message_fields (MSG_PONG w) = (if w \<noteq> 0 then Some PROTOCOL_INVALID_WORKER_ID else None)"
| "check_message_fields (MSG_WORKER_REGISTER w) = (if w \<noteq> 0 then Some PROTOCOL_INVALID_WORKER_ID else None)"
| "check_message_fields (MSG_JOBS_REQUEST w) = (if w \<noteq> 0 then Some PROTOCOL_INVALID_WORKER_ID else None)"
| "check_message_fields (MSG_WORKERS_REQUEST w) = (if w \<noteq> 0 then Some PROTOCOL_INVALID_WORKER_ID else None)"
| "check_message_fields (MSG_STATS_REQUEST w) = (if w \<noteq> 0 then Some PROTOCOL_INVALID_WORKER_ID else None)"
| "check_message_fields (MSG_WORKER_REGISTER_ACK w) = (if w = 0 then Some PROTOCOL_INVALID_WORKER_ID else None)"
| "check_message_fields (MSG_HEARTBEAT w) = (if w = 0 then Some PROTOCOL_INVALID_WORKER_ID else None)"
| "check_message_fields (MSG_JOB_SUBMIT p) =
     (if \<not> valid_task (sub_task_type p) then Some PROTOCOL_INVALID_TASK_TYPE else None)"
| "check_message_fields (MSG_JOB_SUBMIT_ACK i) = (if i = 0 then Some PROTOCOL_INVALID_JOB_ID else None)"
| "check_message_fields (MSG_JOB_ASSIGN p) =
     (if \<not> valid_task (asg_task_type p) then Some PROTOCOL_INVALID_TASK_TYPE else None)"
| "check_message_fields (MSG_JOB_STARTED _) = None"
| "check_message_fields (MSG_JOB_COMPLETED _) = None"
| "check_message_fields (MSG_JOB_FAILED p) =
     (if fail_failure p \<noteq> failure_code FAILURE_TASK then Some PROTOCOL_INVALID_FAILURE else None)"
| "check_message_fields (MSG_JOB_STATUS_REQUEST i) = (if i = 0 then Some PROTOCOL_INVALID_JOB_ID else None)"
| "check_message_fields (MSG_JOB_STATUS_RESPONSE p) = validate_job_status p"
| "check_message_fields (MSG_JOB_STATUS_NOT_FOUND i) = (if i = 0 then Some PROTOCOL_INVALID_JOB_ID else None)"
| "check_message_fields (MSG_JOBS_RESPONSE es) = validate_jobs es"
| "check_message_fields (MSG_WORKERS_RESPONSE p) = validate_workers p"
| "check_message_fields (MSG_STATS_RESPONSE p) = validate_stats p"

fun message_identity :: "faultline_message \<Rightarrow> faultline_job_identity option" where
  "message_identity (MSG_JOB_ASSIGN p) = Some (asg_identity p)"
| "message_identity (MSG_JOB_STARTED i) = Some i"
| "message_identity (MSG_JOB_COMPLETED p) = Some (cmp_identity p)"
| "message_identity (MSG_JOB_FAILED p) = Some (fail_identity p)"
| "message_identity _ = None"

fun message_data_size :: "faultline_message \<Rightarrow> nat" where
  "message_data_size (MSG_JOB_SUBMIT p) = sub_argument_size p"
| "message_data_size (MSG_JOB_ASSIGN p) = asg_argument_size p"
| "message_data_size (MSG_JOB_COMPLETED p) = cmp_result_size p"
| "message_data_size (MSG_JOB_STATUS_RESPONSE p) = st_result_size p"
| "message_data_size (MSG_JOBS_RESPONSE es) = length es * FAULTLINE_JOB_SUMMARY_SIZE"
| "message_data_size (MSG_WORKERS_RESPONSE p) = length (wl_entries p) * FAULTLINE_WORKER_SUMMARY_SIZE"
| "message_data_size _ = 0"

definition validate_message :: "faultline_message \<Rightarrow> protocol_error + nat" where
  "validate_message message =
     (case message_payload_bounds (message_type message) of
        Inl e \<Rightarrow> Inl e
      | Inr (minimum, maximum) \<Rightarrow>
          (case check_message_fields message of
             Some e \<Rightarrow> Inl e
           | None \<Rightarrow>
               (case (case message_identity message of None \<Rightarrow> None | Some i \<Rightarrow> validate_identity i) of
                  Some e \<Rightarrow> Inl e
                | None \<Rightarrow>
                    if message_data_size message > maximum - minimum then Inl PROTOCOL_PAYLOAD_TOO_LARGE
                    else Inr (minimum + message_data_size message))))"

section \<open>Facts on validation\<close>

lemma valid_task_iff: "valid_task ty \<longleftrightarrow> (\<exists>task. task_of_code ty = Some task)"
  by (auto simp: valid_task_def task_of_code_def)

definition payload_minimum :: "faultline_message \<Rightarrow> nat" where
  "payload_minimum m = the (message_payload_minimum (message_type m))"

lemma message_minimum: "message_payload_minimum (message_type m) = Some (payload_minimum m)"
  by (cases m) (simp_all add: payload_minimum_def message_payload_minimum_def)

lemma validate_message_Inr_iff [outcome_simps]:
  "validate_message m = Inr n \<longleftrightarrow>
     check_message_fields m = None \<and> (\<forall>i. message_identity m = Some i \<longrightarrow> validate_identity i = None) \<and>
     message_data_size m \<le> message_payload_extra (message_type m) \<and>
     n = payload_minimum m + message_data_size m"
  by (auto simp: validate_message_def message_payload_bounds_def message_minimum split: option.splits)

text \<open>No valid message exceeds the frame buffer of a connection.\<close>

lemma payload_bound:
  "payload_minimum m + message_payload_extra (message_type m) + FAULTLINE_HEADER_SIZE \<le> FAULTLINE_MESSAGE_MAX_FRAME_SIZE"
  by (cases m) (simp_all add: payload_minimum_def message_payload_minimum_def message_payload_extra_def
      FAULTLINE_MESSAGE_MAX_FRAME_SIZE_def protocol_sizes)

end
