(* ===== verification/Scheduler.thy ===== *)
theory Scheduler
  imports Job_Queue Message
begin

text \<open>
  The job table of the coordinator (\<^verbatim>\<open>include/scheduler.h\<close>, \<^verbatim>\<open>src/coordinator/scheduler.c\<close>): the
  retained jobs in creation order, the next job identifier and the pending queue. The array of jobs
  is the list of the slots in use. The lemmas show that the queue always holds exactly the queued
  jobs, that a worker has at most one active job, that the queue never rejects a job the scheduler
  pushes, that dispatch is first come, first served, that reports of an earlier attempt are
  refused, and that every operation moves one job along its life cycle and leaves the others alone.
\<close>

section \<open>State and operations\<close>

definition FAULTLINE_JOB_STORE_CAPACITY :: nat where
  "FAULTLINE_JOB_STORE_CAPACITY = 256"

record faultline_scheduler =
  s_jobs :: "faultline_job list"
  s_next_job_id :: u64
  s_pending :: faultline_job_queue

datatype scheduler_error =
    SCHEDULER_INVALID_ARGUMENT
  | SCHEDULER_FULL
  | SCHEDULER_ID_EXHAUSTED
  | SCHEDULER_EMPTY
  | SCHEDULER_WORKER_BUSY
  | SCHEDULER_INVALID_JOB
  | SCHEDULER_QUEUE_ERROR

definition faultline_scheduler_init :: faultline_scheduler where
  "faultline_scheduler_init =
     \<lparr> s_jobs = [], s_next_job_id = 1, s_pending = faultline_job_queue_init \<rparr>"

definition find_slot :: "faultline_scheduler \<Rightarrow> u64 \<Rightarrow> nat" where
  "find_slot scheduler job_id = first_index (\<lambda>j. j_id j = job_id) (s_jobs scheduler)"

definition faultline_scheduler_find :: "faultline_scheduler \<Rightarrow> u64 \<Rightarrow> faultline_job option" where
  "faultline_scheduler_find scheduler job_id =
     (if job_id = 0 then None
      else
        (let slot = find_slot scheduler job_id in
         if slot = length (s_jobs scheduler) then None else Some (s_jobs scheduler ! slot)))"

definition faultline_scheduler_active :: "faultline_scheduler \<Rightarrow> u32 \<Rightarrow> faultline_job option" where
  "faultline_scheduler_active scheduler worker_id =
     (if worker_id = 0 then None
      else List.find (\<lambda>job. j_worker_id job = worker_id \<and>
             (j_state job = JOB_ASSIGNED \<or> j_state job = JOB_RUNNING)) (s_jobs scheduler))"

definition faultline_scheduler_submit ::
  "faultline_scheduler \<Rightarrow> faultline_job_submit_payload \<Rightarrow> int \<Rightarrow> scheduler_error + u64 \<times> faultline_scheduler" where
  "faultline_scheduler_submit scheduler submit now_ms =
     (if now_ms < 0 then Inl SCHEDULER_INVALID_ARGUMENT
      else if length (s_jobs scheduler) = FAULTLINE_JOB_STORE_CAPACITY then Inl SCHEDULER_FULL
      else if s_next_job_id scheduler = 0 then Inl SCHEDULER_ID_EXHAUSTED
      else
        (case faultline_job_init (s_next_job_id scheduler) (task_of_code (sub_task_type submit))
                (Some (sub_arguments submit)) (sub_argument_size submit) (sub_max_retries submit) now_ms of
           Inl _ \<Rightarrow> Inl SCHEDULER_INVALID_JOB
         | Inr job \<Rightarrow>
             (case faultline_job_queue_push (s_pending scheduler) job of
                Inl _ \<Rightarrow> Inl SCHEDULER_QUEUE_ERROR
              | Inr pending \<Rightarrow>
                  Inr (j_id job, \<lparr> s_jobs = s_jobs scheduler @ [job], s_next_job_id = next_id (j_id job),
                                   s_pending = pending \<rparr>))))"

definition assignment_message :: "faultline_job \<Rightarrow> u32 \<Rightarrow> faultline_message" where
  "assignment_message candidate worker_id =
     MSG_JOB_ASSIGN \<lparr>
       asg_identity = \<lparr> i_job_id = j_id candidate, i_worker_id = worker_id, i_attempt = j_attempt candidate \<rparr>,
       asg_task_type = task_code (j_task_type candidate),
       asg_argument_size = length (j_arguments candidate), asg_arguments = j_arguments candidate \<rparr>"

definition faultline_scheduler_assign ::
  "faultline_scheduler \<Rightarrow> u32 \<Rightarrow> int \<Rightarrow> scheduler_error + faultline_message \<times> faultline_scheduler" where
  "faultline_scheduler_assign scheduler worker_id now_ms =
     (if worker_id = 0 \<or> now_ms < 0 then Inl SCHEDULER_INVALID_ARGUMENT
      else if faultline_scheduler_active scheduler worker_id \<noteq> None then Inl SCHEDULER_WORKER_BUSY
      else
        (case faultline_job_queue_peek (s_pending scheduler) of
           Inl _ \<Rightarrow> Inl SCHEDULER_EMPTY
         | Inr job_id \<Rightarrow>
             (let slot = find_slot scheduler job_id in
              if slot = length (s_jobs scheduler) then Inl SCHEDULER_INVALID_JOB
              else
                (case faultline_job_assign (s_jobs scheduler ! slot) worker_id now_ms of
                   Inl _ \<Rightarrow> Inl SCHEDULER_INVALID_JOB
                 | Inr candidate \<Rightarrow>
                     (case faultline_job_queue_pop (s_pending scheduler) of
                        Inl _ \<Rightarrow> Inl SCHEDULER_QUEUE_ERROR
                      | Inr (removed, pending) \<Rightarrow>
                          Inr (assignment_message candidate worker_id,
                               scheduler\<lparr> s_pending := pending,
                                          s_jobs := (s_jobs scheduler)[slot := candidate] \<rparr>))))))"

definition publish_outcome ::
  "faultline_scheduler \<Rightarrow> nat \<Rightarrow> faultline_job \<Rightarrow> scheduler_error + faultline_scheduler" where
  "publish_outcome scheduler slot candidate =
     (if j_state candidate = JOB_QUEUED
      then
        (case faultline_job_queue_push (s_pending scheduler) candidate of
           Inl _ \<Rightarrow> Inl SCHEDULER_QUEUE_ERROR
         | Inr pending \<Rightarrow>
             Inr (scheduler\<lparr> s_pending := pending, s_jobs := (s_jobs scheduler)[slot := candidate] \<rparr>))
      else Inr (scheduler\<lparr> s_jobs := (s_jobs scheduler)[slot := candidate] \<rparr>))"

text \<open>The report's identity, for the three message types a worker reports with.\<close>

fun report_identity :: "faultline_message \<Rightarrow> faultline_job_identity option" where
  "report_identity (MSG_JOB_STARTED identity) = Some identity"
| "report_identity (MSG_JOB_COMPLETED completed) = Some (cmp_identity completed)"
| "report_identity (MSG_JOB_FAILED failed) = Some (fail_identity failed)"
| "report_identity _ = None"

fun apply_report ::
  "faultline_job \<Rightarrow> u32 \<Rightarrow> faultline_message \<Rightarrow> int \<Rightarrow> scheduler_error + faultline_job" where
  "apply_report candidate worker_id (MSG_JOB_STARTED identity) now_ms =
     map_sum (\<lambda>_. SCHEDULER_INVALID_JOB) id
       (faultline_job_start candidate worker_id (i_attempt identity) now_ms)"
| "apply_report candidate worker_id (MSG_JOB_COMPLETED completed) now_ms =
     map_sum (\<lambda>_. SCHEDULER_INVALID_JOB) id
       (faultline_job_complete candidate worker_id (i_attempt (cmp_identity completed))
          (Some (cmp_result completed)) (cmp_result_size completed) now_ms)"
| "apply_report candidate worker_id (MSG_JOB_FAILED failed) now_ms =
     (if fail_failure failed \<noteq> failure_code FAILURE_TASK then Inl SCHEDULER_INVALID_JOB
      else map_sum (\<lambda>_. SCHEDULER_INVALID_JOB) id
             (faultline_job_fail candidate worker_id (i_attempt (fail_identity failed)) FAILURE_TASK now_ms))"
| "apply_report candidate worker_id _ now_ms = Inl SCHEDULER_INVALID_ARGUMENT"

definition faultline_scheduler_report ::
  "faultline_scheduler \<Rightarrow> u32 \<Rightarrow> faultline_message \<Rightarrow> int \<Rightarrow> scheduler_error + faultline_scheduler" where
  "faultline_scheduler_report scheduler worker_id report now_ms =
     (if worker_id = 0 \<or> now_ms < 0 then Inl SCHEDULER_INVALID_ARGUMENT
      else
        (case report_identity report of
           None \<Rightarrow> Inl SCHEDULER_INVALID_ARGUMENT
         | Some identity \<Rightarrow>
             (let slot = find_slot scheduler (i_job_id identity) in
              if i_worker_id identity \<noteq> worker_id \<or> slot = length (s_jobs scheduler)
              then Inl SCHEDULER_INVALID_JOB
              else
                (case apply_report (s_jobs scheduler ! slot) worker_id report now_ms of
                   Inl e \<Rightarrow> Inl e
                 | Inr candidate \<Rightarrow> publish_outcome scheduler slot candidate))))"

definition faultline_scheduler_worker_lost ::
  "faultline_scheduler \<Rightarrow> u32 \<Rightarrow> int \<Rightarrow> scheduler_error + faultline_scheduler" where
  "faultline_scheduler_worker_lost scheduler worker_id now_ms =
     (if worker_id = 0 \<or> now_ms < 0 then Inl SCHEDULER_INVALID_ARGUMENT
      else
        (case faultline_scheduler_active scheduler worker_id of
           None \<Rightarrow> Inl SCHEDULER_EMPTY
         | Some active \<Rightarrow>
             (case faultline_job_fail active worker_id (j_attempt active) FAILURE_WORKER_LOST now_ms of
                Inl _ \<Rightarrow> Inl SCHEDULER_INVALID_JOB
              | Inr candidate \<Rightarrow> publish_outcome scheduler (find_slot scheduler (j_id candidate)) candidate)))"

section \<open>The invariant\<close>

definition job_active :: "faultline_job \<Rightarrow> bool" where
  "job_active j \<longleftrightarrow> j_state j = JOB_ASSIGNED \<or> j_state j = JOB_RUNNING"

definition queued_ids :: "faultline_job list \<Rightarrow> u64 set" where
  "queued_ids js = j_id ` {j \<in> set js. j_state j = JOB_QUEUED}"

definition sched_wf :: "faultline_scheduler \<Rightarrow> bool" where
  "sched_wf s \<longleftrightarrow>
     length (s_jobs s) \<le> FAULTLINE_JOB_STORE_CAPACITY \<and>
     (\<forall>j \<in> set (s_jobs s). job_wf j \<and> id_before (j_id j) (s_next_job_id s)) \<and>
     sorted_wrt (<) (map j_id (s_jobs s)) \<and>
     queue_inv (s_pending s) \<and> set (queue_contents (s_pending s)) = queued_ids (s_jobs s) \<and>
     slots_distinct job_active j_worker_id (s_jobs s)"

lemma sched_init_wf: "sched_wf faultline_scheduler_init"
  by (simp add: sched_wf_def faultline_scheduler_init_def jq.empty_inv jq.empty_contents queued_ids_def
      slots_distinct_def)

lemma sched_wf_distinct: "sched_wf s \<Longrightarrow> distinct (map j_id (s_jobs s))"
  by (auto simp: sched_wf_def strict_sorted_iff)

lemma sched_wf_job: "sched_wf s \<Longrightarrow> j \<in> set (s_jobs s) \<Longrightarrow> job_wf j"
  by (simp add: sched_wf_def)

lemma job_wf_id: "job_wf j \<Longrightarrow> j_id j \<noteq> 0"
  by (simp add: job_wf_def job_common_wf_def)

lemma sched_find_slot:
  assumes "sched_wf s" "i < length (s_jobs s)"
  shows "find_slot s (j_id (s_jobs s ! i)) = i"
  unfolding find_slot_def using first_index_distinct [OF sched_wf_distinct [OF assms(1)] assms(2)] .

lemma find_slot_job:
  assumes "find_slot s i \<noteq> length (s_jobs s)"
  shows "find_slot s i < length (s_jobs s) \<and> j_id (s_jobs s ! find_slot s i) = i"
proof -
  have "find_slot s i < length (s_jobs s)"
    using assms first_index_le [of "\<lambda>j. j_id j = i" "s_jobs s"] by (simp add: find_slot_def less_le)
  then show ?thesis using first_index_holds [of "\<lambda>j. j_id j = i" "s_jobs s"] by (simp add: find_slot_def)
qed

lemma find_Some_iff [outcome_simps]:
  assumes "sched_wf s"
  shows "faultline_scheduler_find s i = Some j \<longleftrightarrow> j \<in> set (s_jobs s) \<and> j_id j = i"
proof
  assume "faultline_scheduler_find s i = Some j"
  then show "j \<in> set (s_jobs s) \<and> j_id j = i"
    using find_slot_job [of s i] by (auto simp: faultline_scheduler_find_def Let_def split: if_splits)
next
  assume j: "j \<in> set (s_jobs s) \<and> j_id j = i"
  then obtain k where "k < length (s_jobs s)" "j = s_jobs s ! k" by (metis in_set_conv_nth)
  then show "faultline_scheduler_find s i = Some j"
    using sched_find_slot [OF assms] j job_wf_id sched_wf_job [OF assms]
    by (auto simp: faultline_scheduler_find_def Let_def)
qed

lemma active_Some_iff [outcome_simps]:
  assumes "sched_wf s"
  shows "faultline_scheduler_active s w = Some j \<longleftrightarrow> j \<in> set (s_jobs s) \<and> job_active j \<and> j_worker_id j = w \<and> w \<noteq> 0"
proof
  assume "faultline_scheduler_active s w = Some j"
  then show "j \<in> set (s_jobs s) \<and> job_active j \<and> j_worker_id j = w \<and> w \<noteq> 0"
    using find_Some_set by (fastforce simp: faultline_scheduler_active_def job_active_def split: if_splits)
next
  assume j: "j \<in> set (s_jobs s) \<and> job_active j \<and> j_worker_id j = w \<and> w \<noteq> 0"
  then obtain k where k: "k < length (s_jobs s)" "j = s_jobs s ! k" by (metis in_set_conv_nth)
  have "first_index (\<lambda>j. job_active j \<and> j_worker_id j = w) (s_jobs s) = k"
    using assms j k by (intro first_index_slot) (auto simp: sched_wf_def)
  then show "faultline_scheduler_active s w = Some j"
    using j k by (simp add: faultline_scheduler_active_def find_eq_first_index job_active_def conj_commute)
qed

lemma active_None_iff:
  "faultline_scheduler_active s w = None \<longleftrightarrow> w = 0 \<or> (\<forall>j \<in> set (s_jobs s). job_active j \<longrightarrow> j_worker_id j \<noteq> w)"
  by (auto simp: faultline_scheduler_active_def find_None_iff job_active_def)

lemma job_wf_active_worker: "job_wf j \<Longrightarrow> job_active j \<Longrightarrow> j_worker_id j \<noteq> 0"
  by (auto simp: job_wf_def job_state_wf_def job_owned_wf_def job_active_def)

text \<open>The queue never holds more identifiers than there are jobs, and fewer if some job is not queued.\<close>

lemma card_queued_ids: "card (queued_ids js) \<le> length js"
proof -
  have "queued_ids js \<subseteq> set (map j_id js)" by (auto simp: queued_ids_def)
  then have "card (queued_ids js) \<le> card (set (map j_id js))" by (simp add: card_mono)
  then show ?thesis using card_length [of "map j_id js"] by simp
qed

lemma card_queued_ids_less:
  assumes "distinct (map j_id js)" "j \<in> set js" "j_state j \<noteq> JOB_QUEUED"
  shows "card (queued_ids js) < length js"
proof -
  have "j_id j \<notin> queued_ids js"
    using assms by (auto simp: queued_ids_def distinct_map inj_on_def)
  then have "queued_ids js \<subset> set (map j_id js)" using assms(2) by (auto simp: queued_ids_def)
  then have "card (queued_ids js) < card (set (map j_id js))" by (simp add: psubset_card_mono)
  then show ?thesis using card_length [of "map j_id js"] by simp
qed

lemma pending_count:
  assumes "sched_wf s"
  shows "q_count (s_pending s) = card (queued_ids (s_jobs s))"
proof -
  have "card (set (queue_contents (s_pending s))) = length (queue_contents (s_pending s))"
    using assms by (intro distinct_card) (simp add: sched_wf_def queue_inv_def)
  then show ?thesis using assms by (simp add: sched_wf_def)
qed

lemma queued_ids_append: "queued_ids (js @ [j]) = queued_ids js \<union> (if j_state j = JOB_QUEUED then {j_id j} else {})"
  by (auto simp: queued_ids_def)

lemma in_queued_ids_iff:
  "x \<in> queued_ids js \<longleftrightarrow> (\<exists>k < length js. j_state (js ! k) = JOB_QUEUED \<and> j_id (js ! k) = x)"
  by (auto simp: queued_ids_def in_set_conv_nth)

lemma queued_ids_update:
  assumes "distinct (map j_id js)" "i < length js" "j_id c = j_id (js ! i)"
  shows "queued_ids (js[i := c]) = queued_ids js - {j_id c} \<union> (if j_state c = JOB_QUEUED then {j_id c} else {})"
proof (rule set_eqI)
  fix x
  have other: "j_id (js ! k) = j_id c \<longleftrightarrow> k = i" if "k < length js" for k
    using nth_eq_iff_index_eq [OF assms(1), of k i] that assms(2,3) by simp
  have "x \<in> queued_ids (js[i := c]) \<longleftrightarrow>
      j_state c = JOB_QUEUED \<and> x = j_id c \<or>
      (\<exists>k < length js. k \<noteq> i \<and> j_state (js ! k) = JOB_QUEUED \<and> j_id (js ! k) = x)"
    using assms(2) by (auto simp: in_queued_ids_iff nth_list_update split: if_splits)
  also have "\<dots> \<longleftrightarrow> j_state c = JOB_QUEUED \<and> x = j_id c \<or> x \<in> queued_ids js \<and> x \<noteq> j_id c"
    using other by (auto simp: in_queued_ids_iff)
  finally show "x \<in> queued_ids (js[i := c]) \<longleftrightarrow>
      x \<in> queued_ids js - {j_id c} \<union> (if j_state c = JOB_QUEUED then {j_id c} else {})"
    by auto
qed

text \<open>
  Publishing a record over the slot of its predecessor keeps the invariant when the queue follows
  the record's state and the record takes no worker that is busy with another job.
\<close>

lemma sched_update_wf:
  assumes wf: "sched_wf s" "i < length (s_jobs s)"
    and c: "job_wf c" "j_id c = j_id (s_jobs s ! i)"
    and pending: "queue_inv p" "set (queue_contents p) =
      queued_ids (s_jobs s) - {j_id c} \<union> (if j_state c = JOB_QUEUED then {j_id c} else {})"
    and free: "\<And>k. job_active c \<Longrightarrow> k < length (s_jobs s) \<Longrightarrow> k \<noteq> i \<Longrightarrow> job_active (s_jobs s ! k) \<Longrightarrow>
      j_worker_id (s_jobs s ! k) \<noteq> j_worker_id c"
  shows "sched_wf (s\<lparr> s_pending := p, s_jobs := (s_jobs s)[i := c] \<rparr>)"
proof -
  have "map j_id ((s_jobs s)[i := c]) = map j_id (s_jobs s)"
    using wf(2) c(2) by (rule map_list_update_same)
  moreover have "slots_distinct job_active j_worker_id ((s_jobs s)[i := c])"
    using wf free by (intro slots_distinct_update) (auto simp: sched_wf_def)
  moreover have "job_wf j \<and> id_before (j_id j) (s_next_job_id s)" if "j \<in> set ((s_jobs s)[i := c])" for j
    using set_list_update_cases [OF that] wf c nth_mem [OF wf(2)] by (auto simp: sched_wf_def)
  ultimately show ?thesis
    using wf pending queued_ids_update [OF sched_wf_distinct [OF wf(1)] wf(2) c(2)]
    by (simp add: sched_wf_def)
qed

section \<open>What each operation does\<close>

lemma publish_outcome_active:
  assumes "sched_wf s" "i < length (s_jobs s)" "job_active (s_jobs s ! i)"
    and c: "job_wf c" "j_id c = j_id (s_jobs s ! i)" "job_active c \<Longrightarrow> j_worker_id c = j_worker_id (s_jobs s ! i)"
  shows "\<exists>s'. publish_outcome s i c = Inr s' \<and> sched_wf s' \<and> s_next_job_id s' = s_next_job_id s \<and>
    s_jobs s' = (s_jobs s)[i := c] \<and>
    queue_contents (s_pending s') = queue_contents (s_pending s) @ (if j_state c = JOB_QUEUED then [j_id c] else [])"
proof -
  have old: "s_jobs s ! i \<in> set (s_jobs s)" "j_state (s_jobs s ! i) \<noteq> JOB_QUEUED"
    using assms(2,3) by (auto simp: job_active_def)
  have notin: "j_id c \<notin> queued_ids (s_jobs s)"
    using old c(2) sched_wf_distinct [OF assms(1)] by (auto simp: queued_ids_def distinct_map inj_on_def)
  have free: "j_worker_id (s_jobs s ! k) \<noteq> j_worker_id c"
    if "job_active c" "k < length (s_jobs s)" "k \<noteq> i" "job_active (s_jobs s ! k)" for k
    using that assms(1-3) c(3) by (auto simp: sched_wf_def dest: slots_distinctD)
  have inv: "queue_inv (s_pending s)" "set (queue_contents (s_pending s)) = queued_ids (s_jobs s)"
    using assms(1) by (auto simp: sched_wf_def)
  show ?thesis
  proof (cases "j_state c = JOB_QUEUED")
    case False
    have "s\<lparr> s_jobs := (s_jobs s)[i := c] \<rparr> = s\<lparr> s_pending := s_pending s, s_jobs := (s_jobs s)[i := c] \<rparr>" by simp
    moreover have "sched_wf (s\<lparr> s_pending := s_pending s, s_jobs := (s_jobs s)[i := c] \<rparr>)"
      using False notin inv by (intro sched_update_wf assms(1,2) c(1,2) free) auto
    ultimately show ?thesis using False by (simp add: publish_outcome_def)
  next
    case True
    have "card (queued_ids (s_jobs s)) < length (s_jobs s)"
      using sched_wf_distinct [OF assms(1)] old by (rule card_queued_ids_less)
    then have "q_count (s_pending s) < FAULTLINE_JOB_QUEUE_CAPACITY"
      using pending_count [OF assms(1)] assms(1)
      by (simp add: sched_wf_def FAULTLINE_JOB_QUEUE_CAPACITY_def FAULTLINE_JOB_STORE_CAPACITY_def)
    moreover have "queueable c"
      using c(1) True by (simp add: queueable_def job_wf_def job_common_wf_def job_state_wf_def)
    ultimately obtain p where p: "faultline_job_queue_push (s_pending s) c = Inr p"
      using inv notin by (simp add: queue_push_Inr_iff)
    then have p': "queue_inv p" "queue_contents p = queue_contents (s_pending s) @ [j_id c]"
      using queue_push_inv [OF inv(1)] by auto
    have "sched_wf (s\<lparr> s_pending := p, s_jobs := (s_jobs s)[i := c] \<rparr>)"
      using True notin inv p' by (intro sched_update_wf assms(1,2) c(1,2) free) auto
    then show ?thesis using True p p' by (simp add: publish_outcome_def)
  qed
qed

lemma submit_Inr:
  assumes "sched_wf s" "faultline_scheduler_submit s p now = Inr (i, s')" "now \<le> INT64_MAX"
  obtains job where "i = s_next_job_id s" "i \<noteq> 0"
    "faultline_job_init i (task_of_code (sub_task_type p)) (Some (sub_arguments p)) (sub_argument_size p)
       (sub_max_retries p) now = Inr job"
    "j_id job = i" "j_state job = JOB_QUEUED" "sched_wf s'" "s_jobs s' = s_jobs s @ [job]"
    "s_next_job_id s' = next_id i" "queue_contents (s_pending s') = queue_contents (s_pending s) @ [i]"
proof -
  from assms(2) obtain job pending where ok: "0 \<le> now" "length (s_jobs s) \<noteq> FAULTLINE_JOB_STORE_CAPACITY"
      "s_next_job_id s \<noteq> 0"
    and job: "faultline_job_init (s_next_job_id s) (task_of_code (sub_task_type p)) (Some (sub_arguments p))
      (sub_argument_size p) (sub_max_retries p) now = Inr job"
    and push: "faultline_job_queue_push (s_pending s) job = Inr pending"
    and s': "i = j_id job" "s' = \<lparr> s_jobs = s_jobs s @ [job], s_next_job_id = next_id (j_id job), s_pending = pending \<rparr>"
    by (auto simp: faultline_scheduler_submit_def split: if_splits sum.splits)
  have new: "j_id job = s_next_job_id s" "j_state job = JOB_QUEUED" "job_wf job"
    using job job_init_wf [OF job assms(3)] by (auto simp: job_init_Inr_iff)
  have queue: "queue_inv pending" "queue_contents pending = queue_contents (s_pending s) @ [j_id job]"
    using queue_push_inv push assms(1) by (auto simp: sched_wf_def)
  have before: "id_before x (next_id (s_next_job_id s))" if "id_before x (s_next_job_id s)" for x
    using that ok(3) by (simp add: id_before_next_id)
  have "j_id j < s_next_job_id s" if "j \<in> set (s_jobs s)" for j
    using that assms(1) ok(3) by (auto simp: sched_wf_def id_before_def)
  moreover have "\<not> job_active job" using new(2) by (simp add: job_active_def)
  moreover have "slots_distinct job_active j_worker_id (s_jobs s @ [job])"
    using assms(1) \<open>\<not> job_active job\<close> by (auto simp: sched_wf_def slots_distinct_def nth_append)
  ultimately have "sched_wf s'"
    using assms(1) ok new queue before
    by (auto simp: s' sched_wf_def queued_ids_append sorted_wrt_append id_before_next_id)
  then show thesis using that [of job] job new queue s' ok by simp
qed

lemma submit_accepts:
  assumes "sched_wf s" "0 \<le> now" "length (s_jobs s) < FAULTLINE_JOB_STORE_CAPACITY" "s_next_job_id s \<noteq> 0"
    "sub_argument_size p \<le> FAULTLINE_JOB_MAX_ARGUMENT_SIZE" "valid_task (sub_task_type p)"
  shows "\<exists>i s'. faultline_scheduler_submit s p now = Inr (i, s')"
proof -
  obtain job where job: "faultline_job_init (s_next_job_id s) (task_of_code (sub_task_type p)) (Some (sub_arguments p))
      (sub_argument_size p) (sub_max_retries p) now = Inr job"
    using assms by (auto simp: job_init_Inr_iff valid_task_iff)
  then have new: "j_id job = s_next_job_id s" "queueable job"
    using assms(4) by (auto simp: job_init_Inr_iff queueable_def)
  have "j_id job \<notin> queued_ids (s_jobs s)"
    using assms(1,4) new(1) by (auto simp: sched_wf_def queued_ids_def)
  moreover have "q_count (s_pending s) < FAULTLINE_JOB_QUEUE_CAPACITY"
    using pending_count [OF assms(1)] card_queued_ids [of "s_jobs s"] assms(3)
    by (simp add: FAULTLINE_JOB_QUEUE_CAPACITY_def FAULTLINE_JOB_STORE_CAPACITY_def)
  ultimately obtain q where "faultline_job_queue_push (s_pending s) job = Inr q"
    using assms(1) new(2) queue_push_Inr_iff [of "s_pending s" job] by (auto simp: sched_wf_def)
  then show ?thesis using assms job by (simp add: faultline_scheduler_submit_def)
qed

lemma submit_no_queue_error:
  assumes "sched_wf s"
  shows "faultline_scheduler_submit s p now \<noteq> Inl SCHEDULER_QUEUE_ERROR"
proof
  assume error: "faultline_scheduler_submit s p now = Inl SCHEDULER_QUEUE_ERROR"
  then have "0 \<le> now" "length (s_jobs s) < FAULTLINE_JOB_STORE_CAPACITY" "s_next_job_id s \<noteq> 0"
    "sub_argument_size p \<le> FAULTLINE_JOB_MAX_ARGUMENT_SIZE" "valid_task (sub_task_type p)"
    using assms by (auto simp: faultline_scheduler_submit_def sched_wf_def valid_task_iff job_init_Inr_iff less_le
        split: if_splits sum.splits)
  from submit_accepts [OF assms this] error show False by auto
qed

text \<open>The head of the queue is a queued job of the table.\<close>

lemma pending_head:
  assumes "sched_wf s" "queue_contents (s_pending s) = k # ks"
  shows "find_slot s k < length (s_jobs s) \<and> j_id (s_jobs s ! find_slot s k) = k \<and>
    j_state (s_jobs s ! find_slot s k) = JOB_QUEUED"
proof -
  have "k \<in> queued_ids (s_jobs s)" using assms by (auto simp: sched_wf_def)
  then obtain i where "i < length (s_jobs s)" "j_state (s_jobs s ! i) = JOB_QUEUED" "j_id (s_jobs s ! i) = k"
    by (auto simp: in_queued_ids_iff)
  then show ?thesis using sched_find_slot [OF assms(1)] by auto
qed

lemma assign_outcome:
  assumes "sched_wf s" "w \<noteq> 0" "0 \<le> now"
  shows "faultline_scheduler_assign s w now =
    (if faultline_scheduler_active s w \<noteq> None then Inl SCHEDULER_WORKER_BUSY
     else case queue_contents (s_pending s) of
       [] \<Rightarrow> Inl SCHEDULER_EMPTY
     | k # ks \<Rightarrow>
         (case faultline_job_assign (s_jobs s ! find_slot s k) w now of
            Inl _ \<Rightarrow> Inl SCHEDULER_INVALID_JOB
          | Inr c \<Rightarrow>
              (case faultline_job_queue_pop (s_pending s) of
                 Inl _ \<Rightarrow> Inl SCHEDULER_QUEUE_ERROR
               | Inr (_, q) \<Rightarrow> Inr (assignment_message c w,
                   s\<lparr> s_pending := q, s_jobs := (s_jobs s)[find_slot s k := c] \<rparr>))))"
  using assms jq.peek_result [of "s_pending s"] pending_head [OF assms(1)]
  by (auto simp: faultline_scheduler_assign_def sched_wf_def Let_def split: list.splits sum.splits)

lemma assign_Inr:
  assumes "sched_wf s" "faultline_scheduler_assign s w now = Inr (m, s')" "now \<le> INT64_MAX"
  obtains k c where "w \<noteq> 0" "0 \<le> now" "faultline_scheduler_active s w = None"
    "queue_contents (s_pending s) = k # queue_contents (s_pending s')"
    "find_slot s k < length (s_jobs s)" "j_id (s_jobs s ! find_slot s k) = k"
    "faultline_job_assign (s_jobs s ! find_slot s k) w now = Inr c" "m = assignment_message c w"
    "s_jobs s' = (s_jobs s)[find_slot s k := c]" "s_next_job_id s' = s_next_job_id s" "sched_wf s'"
proof -
  have args: "w \<noteq> 0" "0 \<le> now" using assms(2) by (auto simp: faultline_scheduler_assign_def split: if_splits)
  note outcome = assms(2) [unfolded assign_outcome [OF assms(1) args]]
  from outcome have idle: "faultline_scheduler_active s w = None" by (auto split: if_splits)
  from outcome idle obtain k ks where k: "queue_contents (s_pending s) = k # ks" by (auto split: list.splits)
  let ?i = "find_slot s k"
  from outcome idle k obtain c q r where c: "faultline_job_assign (s_jobs s ! ?i) w now = Inr c"
    and q: "faultline_job_queue_pop (s_pending s) = Inr (r, q)"
    and s': "m = assignment_message c w" "s' = s\<lparr> s_pending := q, s_jobs := (s_jobs s)[?i := c] \<rparr>"
    by (auto split: sum.splits)
  note head = pending_head [OF assms(1) k]
  have popped: "queue_inv q" "queue_contents q = ks" "distinct (k # ks)"
    using jq.pop_Inr [OF _ q] k assms(1) by (auto simp: sched_wf_def queue_inv_def)
  have cand: "j_id c = k" "j_state c = JOB_ASSIGNED" "j_worker_id c = w" "job_wf c"
    using c head job_assign_wf [OF c _ assms(3)] assms(1) nth_mem by (auto simp: job_assign_Inr_iff sched_wf_def)
  have "sched_wf s'" unfolding s'(2)
  proof (rule sched_update_wf [OF assms(1)])
    show "set (queue_contents q) =
      queued_ids (s_jobs s) - {j_id c} \<union> (if j_state c = JOB_QUEUED then {j_id c} else {})"
      using assms(1) k popped cand by (auto simp: sched_wf_def)
    show "j_worker_id (s_jobs s ! j) \<noteq> j_worker_id c"
      if "job_active c" "j < length (s_jobs s)" "j \<noteq> ?i" "job_active (s_jobs s ! j)" for j
      using that idle args(1) cand by (auto simp: active_None_iff)
  qed (use head cand popped in auto)
  then show thesis using that [of k c] args idle k popped head c s' by simp
qed

lemma job_step_id: "job_step j c \<Longrightarrow> j_id c = j_id j"
  using job_step_keeps by blast

lemma active_step_worker:
  "job_step j c \<Longrightarrow> job_active j \<Longrightarrow> job_active c \<Longrightarrow> j_worker_id c = j_worker_id j"
  by (auto elim!: job_stepE simp: outcome_simps job_active_def split: if_splits)

lemma apply_report_Inr:
  assumes "apply_report j w r now = Inr c" "now \<le> INT64_MAX"
  shows "job_step j c \<and> job_active j \<and> j_worker_id j = w \<and>
    (\<exists>identity. report_identity r = Some identity \<and> i_attempt identity = j_attempt j)"
  using assms
  by (cases r) (auto simp: outcome_simps job_active_def map_sum_def split: sum.splits if_splits
      intro: job_step.intros [unfolded outcome_simps])

lemma report_Inr:
  assumes "sched_wf s" "faultline_scheduler_report s w r now = Inr s'" "now \<le> INT64_MAX"
  obtains i c identity where "report_identity r = Some identity" "i_worker_id identity = w"
    "i < length (s_jobs s)" "j_id (s_jobs s ! i) = i_job_id identity"
    "job_active (s_jobs s ! i)" "j_worker_id (s_jobs s ! i) = w" "i_attempt identity = j_attempt (s_jobs s ! i)"
    "apply_report (s_jobs s ! i) w r now = Inr c" "job_step (s_jobs s ! i) c" "job_wf c"
    "s_jobs s' = (s_jobs s)[i := c]" "s_next_job_id s' = s_next_job_id s" "sched_wf s'"
    "queue_contents (s_pending s') = queue_contents (s_pending s) @ (if j_state c = JOB_QUEUED then [j_id c] else [])"
proof -
  from assms(2) obtain identity c where identity: "report_identity r = Some identity" "i_worker_id identity = w"
    and slot: "find_slot s (i_job_id identity) \<noteq> length (s_jobs s)"
    and c: "apply_report (s_jobs s ! find_slot s (i_job_id identity)) w r now = Inr c"
    and s': "publish_outcome s (find_slot s (i_job_id identity)) c = Inr s'"
    by (auto simp: faultline_scheduler_report_def Let_def split: if_splits option.splits sum.splits)
  let ?i = "find_slot s (i_job_id identity)"
  note i = find_slot_job [OF slot]
  note step = apply_report_Inr [OF c assms(3)]
  have wf: "job_wf c" using jobs.step_inv step i sched_wf_job [OF assms(1) nth_mem] by blast
  show thesis
    using publish_outcome_active [OF assms(1), of ?i c] s' i step wf job_step_id active_step_worker
      that [OF identity _ _ _ _ _ c] identity by auto
qed

lemma worker_lost_Inr:
  assumes "sched_wf s" "faultline_scheduler_worker_lost s w now = Inr s'" "now \<le> INT64_MAX"
  obtains i where "w \<noteq> 0" "i < length (s_jobs s)" "job_active (s_jobs s ! i)" "j_worker_id (s_jobs s ! i) = w"
    "j_updated_at_ms (s_jobs s ! i) \<le> now"
    "job_step (s_jobs s ! i) (failed_job (s_jobs s ! i) FAILURE_WORKER_LOST now)"
    "s_jobs s' = (s_jobs s)[i := failed_job (s_jobs s ! i) FAILURE_WORKER_LOST now]"
    "s_next_job_id s' = s_next_job_id s" "sched_wf s'"
    "queue_contents (s_pending s') = queue_contents (s_pending s) @
       (if j_state (failed_job (s_jobs s ! i) FAILURE_WORKER_LOST now) = JOB_QUEUED then [j_id (s_jobs s ! i)] else [])"
proof -
  from assms(2) obtain j where j: "faultline_scheduler_active s w = Some j"
    and c: "faultline_job_fail j w (j_attempt j) FAILURE_WORKER_LOST now = Inr (failed_job j FAILURE_WORKER_LOST now)"
    and s': "publish_outcome s (find_slot s (j_id j)) (failed_job j FAILURE_WORKER_LOST now) = Inr s'"
    by (auto simp: faultline_scheduler_worker_lost_def job_fail_Inr_iff split: if_splits option.splits sum.splits)
  have active: "j \<in> set (s_jobs s)" "job_active j" "j_worker_id j = w" "w \<noteq> 0"
    using j assms(1) by (auto simp: active_Some_iff)
  then obtain i where i: "i < length (s_jobs s)" "s_jobs s ! i = j" by (metis in_set_conv_nth)
  have slot: "find_slot s (j_id j) = i" using sched_find_slot [OF assms(1) i(1)] i(2) by simp
  have step: "job_step j (failed_job j FAILURE_WORKER_LOST now)" using c assms(3) by (rule job_step.fail)
  have "job_wf (failed_job j FAILURE_WORKER_LOST now)"
    using jobs.step_inv [OF sched_wf_job [OF assms(1) active(1)] step] .
  from publish_outcome_active [OF assms(1) i(1), of "failed_job j FAILURE_WORKER_LOST now"] this
  show thesis using that [OF active(4) i(1)] i s' slot active step c active_step_worker [OF step]
    by (auto simp: job_fail_Inr_iff simp del: failed_job_simps(10,11))
qed

lemma publish_no_queue_error:
  assumes "sched_wf s" "i < length (s_jobs s)" "job_active (s_jobs s ! i)" "job_step (s_jobs s ! i) c"
  shows "publish_outcome s i c \<noteq> Inl e"
proof -
  have "job_wf c" using jobs.step_inv assms(4) sched_wf_job [OF assms(1) nth_mem [OF assms(2)]] by blast
  then show ?thesis
    using publish_outcome_active [OF assms(1-3)] job_step_id [OF assms(4)] active_step_worker [OF assms(4,3)]
    by (metis sum.distinct(1))
qed

lemma report_no_queue_error:
  assumes "sched_wf s" "now \<le> INT64_MAX"
  shows "faultline_scheduler_report s w r now \<noteq> Inl SCHEDULER_QUEUE_ERROR"
proof
  assume error: "faultline_scheduler_report s w r now = Inl SCHEDULER_QUEUE_ERROR"
  have "apply_report j w r now \<noteq> Inl SCHEDULER_QUEUE_ERROR" for j
    by (cases r) (auto simp: map_sum_def split: sum.splits)
  then obtain i c where "i \<noteq> length (s_jobs s)" "i = find_slot s (j_id (s_jobs s ! i))"
      "apply_report (s_jobs s ! i) w r now = Inr c" "publish_outcome s i c = Inl SCHEDULER_QUEUE_ERROR"
    using error find_slot_job
    by (fastforce simp: faultline_scheduler_report_def Let_def split: if_splits option.splits sum.splits)
  then show False
    using find_slot_job publish_no_queue_error [OF assms(1)] apply_report_Inr [OF _ assms(2)] by metis
qed

lemma worker_lost_outcome:
  assumes "sched_wf s" "w \<noteq> 0" "0 \<le> now" "now \<le> INT64_MAX" "\<And>j. j \<in> set (s_jobs s) \<Longrightarrow> j_updated_at_ms j \<le> now"
  shows "case faultline_scheduler_active s w of
      None \<Rightarrow> faultline_scheduler_worker_lost s w now = Inl SCHEDULER_EMPTY
    | Some j \<Rightarrow> \<exists>s'. faultline_scheduler_worker_lost s w now = Inr s'"
proof (cases "faultline_scheduler_active s w")
  case (Some j)
  then have j: "j \<in> set (s_jobs s)" "job_active j" "j_worker_id j = w" using assms(1) by (auto simp: active_Some_iff)
  then obtain i where i: "i < length (s_jobs s)" "s_jobs s ! i = j" by (metis in_set_conv_nth)
  have wf: "job_wf j" using assms(1) j(1) by (rule sched_wf_job)
  have "j_attempt j \<noteq> 0"
  proof -
    have "unat (ucast (j_retry_count j) + 1 :: u64) = Suc (unat (j_retry_count j))"
      using unat_u32_less [of "j_retry_count j"] by (simp add: unat_word_ariths)
    then show ?thesis using wf j(2) by (auto simp: job_wf_def job_state_wf_def job_owned_wf_def job_active_def)
  qed
  then have c: "faultline_job_fail j w (j_attempt j) FAILURE_WORKER_LOST now = Inr (failed_job j FAILURE_WORKER_LOST now)"
    using j assms by (auto simp: job_fail_Inr_iff job_active_def)
  then have "job_step j (failed_job j FAILURE_WORKER_LOST now)" using assms(4) by (rule job_step.fail)
  then have "\<exists>s'. publish_outcome s i (failed_job j FAILURE_WORKER_LOST now) = Inr s'"
    using publish_no_queue_error [OF assms(1) i(1)] i(2) j(2) by (metis sum.exhaust)
  then show ?thesis
    using Some c assms(2,3) sched_find_slot [OF assms(1) i(1)] i(2)
    by (simp add: faultline_scheduler_worker_lost_def)
qed (use assms in \<open>simp add: faultline_scheduler_worker_lost_def\<close>)

text \<open>Publishing one job leaves the lookup of every other job as it was.\<close>

lemma find_update_other:
  assumes "sched_wf s" "sched_wf s'" "s_jobs s' = (s_jobs s)[i := c]" "i < length (s_jobs s)"
    and "j_id (s_jobs s ! i) = j_id c" "x \<noteq> j_id c"
  shows "faultline_scheduler_find s' x = faultline_scheduler_find s x"
proof -
  have "j \<in> set (s_jobs s') \<longleftrightarrow> j \<in> set (s_jobs s)" if "j_id j = x" for j
  proof
    assume "j \<in> set (s_jobs s')"
    then show "j \<in> set (s_jobs s)" using that assms(3,6) set_list_update_cases by fastforce
  next
    assume "j \<in> set (s_jobs s)"
    then obtain k where "k < length (s_jobs s)" "s_jobs s ! k = j" by (metis in_set_conv_nth)
    moreover from this have "k \<noteq> i" using that assms(5,6) by auto
    ultimately have "s_jobs s' ! k = j" "k < length (s_jobs s')" using assms(3) by simp_all
    then show "j \<in> set (s_jobs s')" by (metis nth_mem)
  qed
  then have "faultline_scheduler_find s' x = Some j \<longleftrightarrow> faultline_scheduler_find s x = Some j" for j
    by (auto simp: find_Some_iff [OF assms(1)] find_Some_iff [OF assms(2)])
  then show ?thesis by (metis option.exhaust)
qed

section \<open>Runs of the scheduler\<close>

inductive sched_issue :: "faultline_scheduler \<Rightarrow> u64 \<Rightarrow> faultline_scheduler \<Rightarrow> bool" where
  submitted: "faultline_scheduler_submit s p now = Inr (i, s') \<Longrightarrow> now \<le> INT64_MAX \<Longrightarrow> sched_issue s i s'"

inductive sched_keep :: "faultline_scheduler \<Rightarrow> faultline_scheduler \<Rightarrow> bool" where
  assigned: "faultline_scheduler_assign s w now = Inr (m, s') \<Longrightarrow> now \<le> INT64_MAX \<Longrightarrow> sched_keep s s'"
| reported: "faultline_scheduler_report s w r now = Inr s' \<Longrightarrow> now \<le> INT64_MAX \<Longrightarrow> sched_keep s s'"
| lost: "faultline_scheduler_worker_lost s w now = Inr s' \<Longrightarrow> now \<le> INT64_MAX \<Longrightarrow> sched_keep s s'"

inductive sched_step :: "faultline_scheduler \<Rightarrow> faultline_scheduler \<Rightarrow> bool" where
  sched_issues: "sched_issue s i s' \<Longrightarrow> sched_step s s'"
| sched_keeps: "sched_keep s s' \<Longrightarrow> sched_step s s'"

inductive_cases sched_issueE: "sched_issue s i s'"
inductive_cases sched_keepE: "sched_keep s s'"
inductive_cases sched_stepE: "sched_step s s'"

text \<open>Every step but a submission moves exactly one job one step along its life cycle.\<close>

lemma sched_keep_job:
  assumes "sched_wf s" "sched_keep s s'"
  shows "sched_wf s' \<and> s_next_job_id s' = s_next_job_id s \<and>
    (\<exists>i < length (s_jobs s). \<exists>c. job_step (s_jobs s ! i) c \<and> s_jobs s' = (s_jobs s)[i := c])"
  using assms(2)
proof cases
  case (assigned w now m)
  from assign_Inr [OF assms(1) assigned(1,2)] show ?thesis
    using assigned(2) by (metis job_step.assign)
next
  case (reported w r now)
  from report_Inr [OF assms(1) reported(1,2)] show ?thesis by metis
next
  case (lost w now)
  from worker_lost_Inr [OF assms(1) lost(1,2)] show ?thesis by metis
qed

lemma sched_issue_job:
  assumes "sched_wf s" "sched_issue s i s'"
  shows "sched_wf s' \<and> i = s_next_job_id s \<and> i \<noteq> 0 \<and> s_next_job_id s' = next_id i \<and>
    (\<exists>job. job_created job \<and> j_id job = i \<and> s_jobs s' = s_jobs s @ [job])"
  using assms(2)
proof cases
  case (submitted p now)
  from submit_Inr [OF assms(1) submitted(1,2)] show ?thesis
    using submitted(2) by (metis job_created.created)
qed

lemma sched_step_wf: "sched_wf s \<Longrightarrow> sched_step s s' \<Longrightarrow> sched_wf s'"
  by (elim sched_stepE) (use sched_issue_job sched_keep_job in blast)+

interpretation scheduler: invariant_system "\<lambda>s. s = faultline_scheduler_init" sched_step sched_wf
  by unfold_locales (auto simp: sched_init_wf intro: sched_step_wf)

lemma sched_keep_next: "sched_keep s s' \<Longrightarrow> s_next_job_id s' = s_next_job_id s"
  by (elim sched_keepE) (auto simp: faultline_scheduler_assign_def faultline_scheduler_report_def
      faultline_scheduler_worker_lost_def publish_outcome_def Let_def
      split: if_splits sum.splits option.splits prod.splits)

interpretation job_ids: id_source s_next_job_id sched_issue sched_keep
proof unfold_locales
  fix s i s' assume "sched_issue s i s'"
  then show "i = s_next_job_id s \<and> i \<noteq> 0" "s_next_job_id s' = next_id i"
    by (auto elim!: sched_issueE simp: faultline_scheduler_submit_def job_init_Inr_iff
        split: if_splits sum.splits)
qed (rule sched_keep_next)

section \<open>Properties\<close>

text \<open>Claim C13. Whatever is submitted, assigned, reported and lost, the table is consistent:
  at most 256 well-formed jobs with strictly increasing identifiers, the pending queue holds exactly
  the identifiers of the queued jobs, and no worker owns two active jobs.\<close>

theorem scheduler_reachable_wf:
  "reachable (\<lambda>s. s = faultline_scheduler_init) sched_step s \<Longrightarrow> sched_wf s"
  by (rule scheduler.reachable_inv)

definition sample_payload :: faultline_job_submit_payload where
  "sample_payload = \<lparr> sub_task_type = 4, sub_max_retries = 1, sub_argument_size = 1, sub_arguments = [97] \<rparr>"

lemma sample_accepted: "\<exists>s. faultline_scheduler_submit faultline_scheduler_init sample_payload 5 = Inr (1, s)"
proof -
  obtain i s where s: "faultline_scheduler_submit faultline_scheduler_init sample_payload 5 = Inr (i, s)"
    using submit_accepts [OF sched_init_wf, of 5 sample_payload]
    by (auto simp: faultline_scheduler_init_def sample_payload_def valid_task_def
        FAULTLINE_JOB_STORE_CAPACITY_def FAULTLINE_JOB_MAX_ARGUMENT_SIZE_def)
  then have "sched_issue faultline_scheduler_init i s" by (rule sched_issue.submitted) simp
  from sched_issue_job [OF sched_init_wf this] s show ?thesis by (simp add: faultline_scheduler_init_def)
qed

lemma sample_issue:
  "faultline_scheduler_submit faultline_scheduler_init sample_payload 5 = Inr (1, s) \<Longrightarrow>
     sched_issue faultline_scheduler_init 1 s"
  by (erule sched_issue.submitted) simp

lemma sample_table:
  "\<exists>s job. faultline_scheduler_submit faultline_scheduler_init sample_payload 5 = Inr (1, s) \<and> sched_wf s \<and>
     s_jobs s = [job] \<and> j_id job = 1 \<and> j_state job = JOB_QUEUED \<and> j_updated_at_ms job = 5 \<and>
     queue_contents (s_pending s) = [1]"
proof -
  obtain s where s: "faultline_scheduler_submit faultline_scheduler_init sample_payload 5 = Inr (1, s)"
    using sample_accepted by blast
  show ?thesis
  proof (rule submit_Inr [OF sched_init_wf s])
    fix job
    assume job: "faultline_job_init 1 (task_of_code (sub_task_type sample_payload)) (Some (sub_arguments sample_payload))
        (sub_argument_size sample_payload) (sub_max_retries sample_payload) 5 = Inr job"
      "j_id job = 1" "j_state job = JOB_QUEUED" "sched_wf s" "s_jobs s = s_jobs faultline_scheduler_init @ [job]"
      "queue_contents (s_pending s) = queue_contents (s_pending faultline_scheduler_init) @ [1]"
    have "j_updated_at_ms job = 5" using job(1) by (auto simp: job_init_Inr_iff)
    then show ?thesis using s job jq.empty_contents by (auto simp: faultline_scheduler_init_def)
  qed simp
qed

theorem scheduler_reachable_wf_witness:
  "\<exists>s. faultline_scheduler_submit faultline_scheduler_init sample_payload 5 = Inr (1, s) \<and> sched_wf s"
proof -
  obtain s where s: "faultline_scheduler_submit faultline_scheduler_init sample_payload 5 = Inr (1, s)"
    using sample_accepted by blast
  then have "sched_step faultline_scheduler_init s" by (blast intro: sched_step.intros sample_issue)
  then have "reachable (\<lambda>s. s = faultline_scheduler_init) sched_step s" by (blast intro: reachable.intros)
  with s scheduler_reachable_wf show ?thesis by blast
qed

text \<open>Claim C14. The pending queue never turns away a job of the scheduler: on a consistent table
  no operation ends in the queue error, in particular an active job always finds room to be queued
  again, and an assignment can only fail because the worker is busy, nothing is pending, or the
  clock is behind the job's last change.\<close>

theorem queue_error_impossible:
  assumes "sched_wf s" "now \<le> INT64_MAX" "w \<noteq> 0" "0 \<le> now" "\<forall>j \<in> set (s_jobs s). j_updated_at_ms j \<le> now"
  shows "faultline_scheduler_submit s p now \<noteq> Inl SCHEDULER_QUEUE_ERROR \<and>
    faultline_scheduler_report s w r now \<noteq> Inl SCHEDULER_QUEUE_ERROR \<and>
    (case faultline_scheduler_assign s w now of
       Inr _ \<Rightarrow> True | Inl e \<Rightarrow> e = SCHEDULER_WORKER_BUSY \<or> e = SCHEDULER_EMPTY) \<and>
    (case faultline_scheduler_worker_lost s w now of Inr _ \<Rightarrow> True | Inl e \<Rightarrow> e = SCHEDULER_EMPTY)"
proof (intro conjI)
  show "case faultline_scheduler_assign s w now of
      Inr _ \<Rightarrow> True | Inl e \<Rightarrow> e = SCHEDULER_WORKER_BUSY \<or> e = SCHEDULER_EMPTY"
  proof (cases "queue_contents (s_pending s)")
    case Nil
    then show ?thesis by (simp add: assign_outcome [OF assms(1,3,4)])
  next
    case (Cons k ks)
    note head = pending_head [OF assms(1) Cons]
    have "\<exists>c. faultline_job_assign (s_jobs s ! find_slot s k) w now = Inr c"
      using head assms nth_mem by (auto simp: job_assign_Inr_iff)
    moreover have "\<exists>q. faultline_job_queue_pop (s_pending s) = Inr (k, q)"
      using queue_pop_inv [OF _ Cons] assms(1) by (auto simp: sched_wf_def)
    ultimately show ?thesis using Cons by (auto simp: assign_outcome [OF assms(1,3,4)])
  qed
  show "case faultline_scheduler_worker_lost s w now of Inr _ \<Rightarrow> True | Inl e \<Rightarrow> e = SCHEDULER_EMPTY"
    using worker_lost_outcome [OF assms(1,3,4,2)] assms(5) by (auto split: option.splits)
qed (use submit_no_queue_error report_no_queue_error assms in auto)

theorem queue_error_impossible_witness:
  "sched_wf faultline_scheduler_init \<and>
   faultline_scheduler_submit faultline_scheduler_init sample_payload 5 \<noteq> Inl SCHEDULER_QUEUE_ERROR"
  using queue_error_impossible [OF sched_init_wf, of 5 1 sample_payload "MSG_PING 0"] sched_init_wf
  by (simp add: faultline_scheduler_init_def)

text \<open>Claim C15. Dispatch is first come, first served: when the worker is idle and the clock is
  not behind, the job at the head of the queue is assigned to it, leaves the queue, and is announced
  with the identity the table now holds for it; every other job is untouched.\<close>

theorem dispatch_oldest:
  assumes "sched_wf s" "queue_contents (s_pending s) = k # ks" "faultline_scheduler_active s w = None"
    and "w \<noteq> 0" "0 \<le> now" "now \<le> INT64_MAX" "\<forall>j \<in> set (s_jobs s). j_updated_at_ms j \<le> now"
  shows "\<exists>m s' j j'. faultline_scheduler_assign s w now = Inr (m, s') \<and>
    faultline_scheduler_find s k = Some j \<and> faultline_job_assign j w now = Inr j' \<and>
    faultline_scheduler_find s' k = Some j' \<and> faultline_scheduler_active s' w = Some j' \<and>
    m = assignment_message j' w \<and> queue_contents (s_pending s') = ks \<and>
    (\<forall>i. i \<noteq> k \<longrightarrow> faultline_scheduler_find s' i = faultline_scheduler_find s i)"
proof -
  note head = pending_head [OF assms(1,2)]
  let ?i = "find_slot s k"
  have "\<exists>c. faultline_job_assign (s_jobs s ! ?i) w now = Inr c"
    using head assms nth_mem by (auto simp: job_assign_Inr_iff)
  moreover have "\<exists>q. faultline_job_queue_pop (s_pending s) = Inr (k, q)"
    using queue_pop_inv [OF _ assms(2)] assms(1) by (auto simp: sched_wf_def)
  ultimately obtain m s' where ok: "faultline_scheduler_assign s w now = Inr (m, s')"
    using assms(2,3) by (auto simp: assign_outcome [OF assms(1,4,5)])
  obtain c where c: "faultline_job_assign (s_jobs s ! ?i) w now = Inr c" "m = assignment_message c w"
    "s_jobs s' = (s_jobs s)[?i := c]" "queue_contents (s_pending s') = ks" "sched_wf s'"
    using assign_Inr [OF assms(1) ok assms(6)] assms(2) by (metis list.inject)
  have ids: "j_id c = k" "job_active c" "j_worker_id c = w"
    using c(1) head by (auto simp: job_assign_Inr_iff job_active_def)
  have mem: "c \<in> set (s_jobs s')" using head c(3) by (simp add: set_update_memI)
  have others: "faultline_scheduler_find s' i = faultline_scheduler_find s i" if "i \<noteq> k" for i
    by (rule find_update_other [OF assms(1) c(5) c(3)]) (use head ids that in auto)
  have "faultline_scheduler_find s k = Some (s_jobs s ! ?i)"
    using head by (simp add: find_Some_iff [OF assms(1)])
  moreover have "faultline_scheduler_find s' k = Some c" "faultline_scheduler_active s' w = Some c"
    using mem ids assms(4) by (simp_all add: find_Some_iff [OF c(5)] active_Some_iff [OF c(5)])
  ultimately show ?thesis using ok c(1,2,4) others by blast
qed

theorem dispatch_oldest_witness:
  "\<exists>s m s'. faultline_scheduler_submit faultline_scheduler_init sample_payload 5 = Inr (1, s) \<and>
     faultline_scheduler_assign s 9 7 = Inr (m, s') \<and> queue_contents (s_pending s') = []"
proof -
  obtain s job where s: "faultline_scheduler_submit faultline_scheduler_init sample_payload 5 = Inr (1, s)"
    "sched_wf s" "s_jobs s = [job]" "j_state job = JOB_QUEUED" "j_updated_at_ms job = 5"
    "queue_contents (s_pending s) = [1]"
    using sample_table by blast
  have "faultline_scheduler_active s 9 = None" using s(3,4) by (simp add: active_None_iff job_active_def)
  from dispatch_oldest [OF s(2,6) this, of 7] s(1,3,5) show ?thesis by auto
qed

text \<open>Claim C16. Reports are fenced by the attempt: a report whose worker or attempt is not the one
  the table holds for the job is refused, so a worker that was presumed lost cannot finish a job
  that has been queued again or handed to another worker.\<close>

theorem stale_report_refused:
  assumes "sched_wf s" "report_identity r = Some identity" "faultline_scheduler_find s (i_job_id identity) = Some j"
    and "i_worker_id identity \<noteq> j_worker_id j \<or> i_attempt identity \<noteq> j_attempt j \<or> \<not> job_active j"
    and "0 \<le> now" "now \<le> INT64_MAX" "w \<noteq> 0"
  shows "faultline_scheduler_report s w r now = Inl SCHEDULER_INVALID_JOB"
proof -
  have j: "j \<in> set (s_jobs s)" "j_id j = i_job_id identity" using assms(1,3) by (auto simp: find_Some_iff)
  then obtain i where i: "i < length (s_jobs s)" "s_jobs s ! i = j" by (metis in_set_conv_nth)
  have slot: "find_slot s (i_job_id identity) = i" using sched_find_slot [OF assms(1) i(1)] i j by simp
  have "apply_report j w r now = Inl SCHEDULER_INVALID_JOB" if "i_worker_id identity = w"
  proof -
    have "apply_report j w r now \<noteq> Inr c" for c
      using apply_report_Inr [of j w r now c] assms(2,4,6) that by auto
    moreover have "apply_report j w r now = Inl e \<Longrightarrow> e = SCHEDULER_INVALID_JOB" for e
      using assms(2) by (cases r) (auto simp: map_sum_def split: sum.splits if_splits)
    ultimately show ?thesis by (metis sum.exhaust)
  qed
  then show ?thesis using assms slot i by (auto simp: faultline_scheduler_report_def Let_def)
qed

theorem stale_report_refused_witness:
  "\<exists>s. faultline_scheduler_submit faultline_scheduler_init sample_payload 5 = Inr (1, s) \<and>
     faultline_scheduler_report s 9 (MSG_JOB_STARTED \<lparr> i_job_id = 1, i_worker_id = 9, i_attempt = 1 \<rparr>) 7 =
       Inl SCHEDULER_INVALID_JOB"
proof -
  obtain s job where s: "faultline_scheduler_submit faultline_scheduler_init sample_payload 5 = Inr (1, s)"
    "sched_wf s" "s_jobs s = [job]" "j_id job = 1" "j_state job = JOB_QUEUED"
    using sample_table by blast
  have "faultline_scheduler_find s 1 = Some job" using s by (simp add: find_Some_iff)
  from stale_report_refused [OF s(2), of "MSG_JOB_STARTED \<lparr> i_job_id = 1, i_worker_id = 9, i_attempt = 1 \<rparr>" _ job 7 9]
    this s(1,5) show ?thesis by (auto simp: job_active_def)
qed

text \<open>Claim C17. Every operation of the scheduler is one step of one job: a submission appends a
  new queued job under a fresh identifier, and every other operation moves exactly one existing job
  one step along its life cycle and leaves all the others as they were. No job ever disappears.\<close>

theorem scheduler_moves_one_job:
  assumes "sched_wf s" "sched_step s s'"
  shows "(\<exists>job. job_created job \<and> j_id job = s_next_job_id s \<and> s_jobs s' = s_jobs s @ [job]) \<or>
    (\<exists>i < length (s_jobs s). \<exists>c. job_step (s_jobs s ! i) c \<and> s_jobs s' = (s_jobs s)[i := c])"
  using assms(2) sched_issue_job [OF assms(1)] sched_keep_job [OF assms(1)] by (elim sched_stepE) blast+

theorem scheduler_moves_one_job_witness:
  "\<exists>s job. faultline_scheduler_submit faultline_scheduler_init sample_payload 5 = Inr (1, s) \<and> s_jobs s = [job]"
proof -
  obtain s where s: "faultline_scheduler_submit faultline_scheduler_init sample_payload 5 = Inr (1, s)"
    using sample_accepted by blast
  then have "sched_step faultline_scheduler_init s" by (blast intro: sched_step.intros sample_issue)
  from scheduler_moves_one_job [OF sched_init_wf this] s show ?thesis
    by (auto simp: faultline_scheduler_init_def)
qed

text \<open>Claim C18. Job identifiers are never issued twice: over any run from an empty table the
  issued identifiers are non-zero and strictly increasing, and an exhausted allocator fails.\<close>

theorem job_ids_never_repeat:
  assumes "issued sched_issue sched_keep faultline_scheduler_init is s"
  shows "distinct is \<and> 0 \<notin> set is \<and> sorted_wrt (<) is"
  using job_ids.issued_distinct_nonzero [OF assms] job_ids.issued_strictly_increasing [OF assms] by simp

theorem job_ids_never_repeat_witness:
  "\<exists>s. issued sched_issue sched_keep faultline_scheduler_init [1] s \<and> 0 \<notin> set [1 :: u64]"
proof -
  obtain s where "faultline_scheduler_submit faultline_scheduler_init sample_payload 5 = Inr (1, s)"
    using sample_accepted by blast
  then have "issued sched_issue sched_keep faultline_scheduler_init [1] s"
    by (blast intro: issued.intros sample_issue)
  with job_ids_never_repeat show ?thesis by blast
qed

end
