(* ===== verification/Worker_Registry.thy ===== *)
theory Worker_Registry
  imports Prelude
begin

text \<open>
  The coordinator's table of workers (\<^verbatim>\<open>include/worker_registry.h\<close>,
  \<^verbatim>\<open>src/coordinator/worker_registry.c\<close>): 64 slots and the identifier the next registration takes.
  The lemmas show that every slot stays consistent, that at most one live worker holds a connection,
  that a lookup after a registration finds it, and that identifiers never repeat.
\<close>

section \<open>Data\<close>

definition FAULTLINE_MAX_WORKERS :: nat where
  "FAULTLINE_MAX_WORKERS = 64"

abbreviation FAULTLINE_WORKER_ID_UNASSIGNED :: u32 where
  "FAULTLINE_WORKER_ID_UNASSIGNED \<equiv> 0"

datatype faultline_worker_state = WORKER_UNUSED | WORKER_ALIVE | WORKER_DEAD

record faultline_worker =
  w_id :: u32
  w_fd :: int
  w_state :: faultline_worker_state
  w_last_heartbeat_ms :: int

record faultline_worker_registry =
  r_workers :: "faultline_worker list"
  r_next_worker_id :: u32

datatype registry_error =
    REGISTRY_INVALID_ARGUMENT
  | REGISTRY_ALREADY_REGISTERED
  | REGISTRY_FULL
  | REGISTRY_ID_EXHAUSTED
  | REGISTRY_NOT_FOUND
  | REGISTRY_NOT_ALIVE
  | REGISTRY_CONNECTION_MISMATCH

section \<open>Operations\<close>

definition unused_worker :: faultline_worker where
  "unused_worker = \<lparr> w_id = 0, w_fd = - 1, w_state = WORKER_UNUSED, w_last_heartbeat_ms = 0 \<rparr>"

definition faultline_worker_registry_init :: faultline_worker_registry where
  "faultline_worker_registry_init =
     \<lparr> r_workers = replicate FAULTLINE_MAX_WORKERS unused_worker, r_next_worker_id = 1 \<rparr>"

text \<open>The scans return the number of slots when no slot qualifies.\<close>

definition find_slot :: "faultline_worker_registry \<Rightarrow> u32 \<Rightarrow> nat" where
  "find_slot registry worker_id =
     first_index (\<lambda>w. w_state w \<noteq> WORKER_UNUSED \<and> w_id w = worker_id) (r_workers registry)"

definition faultline_worker_find :: "faultline_worker_registry \<Rightarrow> u32 \<Rightarrow> faultline_worker option" where
  "faultline_worker_find registry worker_id =
     (if worker_id = FAULTLINE_WORKER_ID_UNASSIGNED then None
      else
        (let slot = find_slot registry worker_id in
         if slot = FAULTLINE_MAX_WORKERS then None else Some (r_workers registry ! slot)))"

definition faultline_worker_timed_out :: "faultline_worker option \<Rightarrow> int \<Rightarrow> int \<Rightarrow> bool" where
  "faultline_worker_timed_out worker now_ms timeout_ms =
     (case worker of
        None \<Rightarrow> False
      | Some w \<Rightarrow>
          w_state w = WORKER_ALIVE \<and> timeout_ms > 0 \<and> w_last_heartbeat_ms w \<ge> 0 \<and>
          now_ms \<ge> w_last_heartbeat_ms w \<and> now_ms - w_last_heartbeat_ms w \<ge> timeout_ms)"

definition faultline_worker_register ::
  "faultline_worker_registry \<Rightarrow> int \<Rightarrow> int \<Rightarrow> registry_error + u32 \<times> faultline_worker_registry" where
  "faultline_worker_register registry fd now_ms =
     (if fd < 0 \<or> now_ms < 0 then Inl REGISTRY_INVALID_ARGUMENT
      else if list_ex (\<lambda>w. w_state w = WORKER_ALIVE \<and> w_fd w = fd) (r_workers registry)
      then Inl REGISTRY_ALREADY_REGISTERED
      else
        (let slot = first_index (\<lambda>w. w_state w \<noteq> WORKER_ALIVE) (r_workers registry) in
         if slot = FAULTLINE_MAX_WORKERS then Inl REGISTRY_FULL
         else if r_next_worker_id registry = FAULTLINE_WORKER_ID_UNASSIGNED
         then Inl REGISTRY_ID_EXHAUSTED
         else
           (let worker_id = r_next_worker_id registry in
            Inr (worker_id,
                 registry\<lparr> r_workers := (r_workers registry)[slot :=
                              \<lparr> w_id = worker_id, w_fd = fd, w_state = WORKER_ALIVE,
                                w_last_heartbeat_ms = now_ms \<rparr>],
                           r_next_worker_id := next_id worker_id \<rparr>))))"

text \<open>The C function returns a pointer into the table; here it returns the slot.\<close>

definition find_live_connection ::
  "faultline_worker_registry \<Rightarrow> u32 \<Rightarrow> int \<Rightarrow> registry_error + nat" where
  "find_live_connection registry worker_id fd =
     (if fd < 0 then Inl REGISTRY_INVALID_ARGUMENT
      else
        (let slot = find_slot registry worker_id in
         if slot = FAULTLINE_MAX_WORKERS then Inl REGISTRY_NOT_FOUND
         else if w_state (r_workers registry ! slot) \<noteq> WORKER_ALIVE then Inl REGISTRY_NOT_ALIVE
         else if w_fd (r_workers registry ! slot) \<noteq> fd then Inl REGISTRY_CONNECTION_MISMATCH
         else Inr slot))"

definition faultline_worker_heartbeat ::
  "faultline_worker_registry \<Rightarrow> u32 \<Rightarrow> int \<Rightarrow> int \<Rightarrow> registry_error + faultline_worker_registry" where
  "faultline_worker_heartbeat registry worker_id fd now_ms =
     (if now_ms < 0 then Inl REGISTRY_INVALID_ARGUMENT
      else
        (case find_live_connection registry worker_id fd of
           Inl e \<Rightarrow> Inl e
         | Inr slot \<Rightarrow>
             (let worker = r_workers registry ! slot in
              if now_ms < w_last_heartbeat_ms worker then Inl REGISTRY_INVALID_ARGUMENT
              else Inr (registry\<lparr> r_workers := (r_workers registry)[slot :=
                                   worker\<lparr> w_last_heartbeat_ms := now_ms \<rparr>] \<rparr>))))"

definition faultline_worker_mark_dead ::
  "faultline_worker_registry \<Rightarrow> u32 \<Rightarrow> int \<Rightarrow> registry_error + faultline_worker_registry" where
  "faultline_worker_mark_dead registry worker_id fd =
     (case find_live_connection registry worker_id fd of
        Inl e \<Rightarrow> Inl e
      | Inr slot \<Rightarrow>
          Inr (registry\<lparr> r_workers := (r_workers registry)[slot :=
                 (r_workers registry ! slot)\<lparr> w_state := WORKER_DEAD, w_fd := - 1 \<rparr>] \<rparr>))"

section \<open>The invariant\<close>

definition worker_used :: "faultline_worker \<Rightarrow> bool" where
  "worker_used w \<longleftrightarrow> w_state w \<noteq> WORKER_UNUSED"

definition worker_alive :: "faultline_worker \<Rightarrow> bool" where
  "worker_alive w \<longleftrightarrow> w_state w = WORKER_ALIVE"

definition worker_wf :: "u32 \<Rightarrow> faultline_worker \<Rightarrow> bool" where
  "worker_wf nxt w \<longleftrightarrow>
     (case w_state w of
        WORKER_UNUSED \<Rightarrow> w = unused_worker
      | WORKER_ALIVE \<Rightarrow> id_before (w_id w) nxt \<and> 0 \<le> w_fd w \<and> 0 \<le> w_last_heartbeat_ms w
      | WORKER_DEAD \<Rightarrow> id_before (w_id w) nxt \<and> w_fd w = - 1 \<and> 0 \<le> w_last_heartbeat_ms w)"

definition registry_wf :: "faultline_worker_registry \<Rightarrow> bool" where
  "registry_wf r \<longleftrightarrow>
     length (r_workers r) = FAULTLINE_MAX_WORKERS \<and>
     (\<forall>w \<in> set (r_workers r). worker_wf (r_next_worker_id r) w) \<and>
     slots_distinct worker_used w_id (r_workers r) \<and>
     slots_distinct worker_alive w_fd (r_workers r)"

lemma max_workers_pos [simp]: "0 < FAULTLINE_MAX_WORKERS"
  by (simp add: FAULTLINE_MAX_WORKERS_def)

lemma registry_wf_length [simp]: "registry_wf r \<Longrightarrow> length (r_workers r) = FAULTLINE_MAX_WORKERS"
  by (simp add: registry_wf_def)

lemma worker_wf_next: "nxt \<noteq> 0 \<Longrightarrow> worker_wf nxt w \<Longrightarrow> worker_wf (next_id nxt) w"
  by (auto simp: worker_wf_def id_before_next_id split: faultline_worker_state.splits)

lemma worker_wf_id: "worker_wf nxt w \<Longrightarrow> worker_used w \<Longrightarrow> id_before (w_id w) nxt"
  by (auto simp: worker_wf_def worker_used_def split: faultline_worker_state.splits)

lemma registry_init_wf: "registry_wf faultline_worker_registry_init"
  by (auto simp: registry_wf_def faultline_worker_registry_init_def worker_wf_def slots_distinct_def
      unused_worker_def worker_used_def worker_alive_def)

lemma find_slot_used: "find_slot r i = first_index (\<lambda>w. worker_used w \<and> w_id w = i) (r_workers r)"
  by (simp add: find_slot_def worker_used_def)

lemma find_slot_less:
  assumes "registry_wf r" "find_slot r i \<noteq> FAULTLINE_MAX_WORKERS"
  shows "find_slot r i < length (r_workers r) \<and> worker_used (r_workers r ! find_slot r i) \<and>
    w_id (r_workers r ! find_slot r i) = i"
proof -
  have "find_slot r i < length (r_workers r)"
    using assms first_index_le [of "\<lambda>w. w_state w \<noteq> WORKER_UNUSED \<and> w_id w = i" "r_workers r"]
    by (simp add: find_slot_def less_le)
  then show ?thesis
    using first_index_holds [of "\<lambda>w. worker_used w \<and> w_id w = i" "r_workers r"]
    by (simp add: find_slot_used)
qed

lemma find_slot_nth:
  "registry_wf r \<Longrightarrow> i < FAULTLINE_MAX_WORKERS \<Longrightarrow> worker_used (r_workers r ! i) \<Longrightarrow>
     find_slot r (w_id (r_workers r ! i)) = i"
  unfolding find_slot_used by (rule first_index_slot) (auto simp: registry_wf_def)

lemma worker_find_Some_iff [outcome_simps]:
  assumes "registry_wf r"
  shows "faultline_worker_find r i = Some w \<longleftrightarrow> w \<in> set (r_workers r) \<and> worker_used w \<and> w_id w = i"
proof
  assume "faultline_worker_find r i = Some w"
  then show "w \<in> set (r_workers r) \<and> worker_used w \<and> w_id w = i"
    using find_slot_less [OF assms, of i]
    by (auto simp: faultline_worker_find_def Let_def split: if_splits)
next
  assume w: "w \<in> set (r_workers r) \<and> worker_used w \<and> w_id w = i"
  then obtain k where k: "k < FAULTLINE_MAX_WORKERS" "w = r_workers r ! k"
    using assms by (metis in_set_conv_nth registry_wf_length)
  have "i \<noteq> 0" using w assms worker_wf_id by (auto simp: registry_wf_def id_before_def)
  then show "faultline_worker_find r i = Some w"
    using find_slot_nth [OF assms k(1)] w k by (simp add: faultline_worker_find_def Let_def)
qed

section \<open>What each operation does\<close>

lemma register_Inr:
  assumes "registry_wf r" "faultline_worker_register r fd now = Inr (i, r')"
  obtains slot where "slot < FAULTLINE_MAX_WORKERS" "\<not> worker_alive (r_workers r ! slot)"
    "0 \<le> fd" "0 \<le> now" "i = r_next_worker_id r" "i \<noteq> 0"
    "\<And>w. w \<in> set (r_workers r) \<Longrightarrow> worker_alive w \<Longrightarrow> w_fd w \<noteq> fd"
    "r' = r\<lparr> r_workers := (r_workers r)[slot := \<lparr> w_id = i, w_fd = fd, w_state = WORKER_ALIVE,
       w_last_heartbeat_ms = now \<rparr>], r_next_worker_id := next_id i \<rparr>"
proof -
  let ?slot = "first_index (\<lambda>w. w_state w \<noteq> WORKER_ALIVE) (r_workers r)"
  from assms(2) have slot: "?slot \<noteq> FAULTLINE_MAX_WORKERS"
    by (auto simp: faultline_worker_register_def Let_def split: if_splits)
  then have "?slot < FAULTLINE_MAX_WORKERS"
    using assms(1) first_index_le [of "\<lambda>w. w_state w \<noteq> WORKER_ALIVE" "r_workers r"] by (simp add: less_le)
  moreover from this have "\<not> worker_alive (r_workers r ! ?slot)"
    using assms(1) first_index_holds [of "\<lambda>w. w_state w \<noteq> WORKER_ALIVE" "r_workers r"]
    by (simp add: worker_alive_def)
  ultimately show thesis
    using that [of ?slot] assms(2)
    by (auto simp: faultline_worker_register_def Let_def worker_alive_def list_ex_iff
        split: if_splits)
qed

lemma live_connection_Inr:
  assumes "registry_wf r" "find_live_connection r i fd = Inr slot"
  shows "slot < FAULTLINE_MAX_WORKERS \<and> 0 \<le> fd \<and> worker_alive (r_workers r ! slot) \<and>
    w_id (r_workers r ! slot) = i \<and> w_fd (r_workers r ! slot) = fd \<and> r_workers r ! slot \<in> set (r_workers r)"
  using assms(2) find_slot_less [OF assms(1), of i] assms(1)
  by (auto simp: find_live_connection_def Let_def worker_alive_def split: if_splits)

lemma heartbeat_Inr:
  assumes "registry_wf r" "faultline_worker_heartbeat r i fd now = Inr r'"
  obtains slot where "find_live_connection r i fd = Inr slot" "slot < FAULTLINE_MAX_WORKERS"
    "0 \<le> now" "w_last_heartbeat_ms (r_workers r ! slot) \<le> now"
    "r' = r\<lparr> r_workers := (r_workers r)[slot := (r_workers r ! slot)\<lparr> w_last_heartbeat_ms := now \<rparr>] \<rparr>"
  using assms(2) live_connection_Inr [OF assms(1)]
  by (auto simp: faultline_worker_heartbeat_def Let_def split: if_splits sum.splits)

lemma mark_dead_Inr:
  assumes "registry_wf r" "faultline_worker_mark_dead r i fd = Inr r'"
  obtains slot where "find_live_connection r i fd = Inr slot" "slot < FAULTLINE_MAX_WORKERS"
    "r' = r\<lparr> r_workers := (r_workers r)[slot := (r_workers r ! slot)\<lparr> w_state := WORKER_DEAD, w_fd := - 1 \<rparr>] \<rparr>"
  using assms(2) live_connection_Inr [OF assms(1)]
  by (auto simp: faultline_worker_mark_dead_def split: sum.splits)

text \<open>A slot may be overwritten by a record that fits it and clashes with no other slot.\<close>

lemma registry_update_wf:
  assumes "registry_wf r" "worker_wf nxt w" "nxt = r_next_worker_id r \<or> nxt = next_id (r_next_worker_id r) \<and> r_next_worker_id r \<noteq> 0"
    and "\<And>j. worker_used w \<Longrightarrow> j < FAULTLINE_MAX_WORKERS \<Longrightarrow> j \<noteq> slot \<Longrightarrow> worker_used (r_workers r ! j) \<Longrightarrow>
      w_id (r_workers r ! j) \<noteq> w_id w"
    and "\<And>j. worker_alive w \<Longrightarrow> j < FAULTLINE_MAX_WORKERS \<Longrightarrow> j \<noteq> slot \<Longrightarrow> worker_alive (r_workers r ! j) \<Longrightarrow>
      w_fd (r_workers r ! j) \<noteq> w_fd w"
  shows "registry_wf (r\<lparr> r_workers := (r_workers r)[slot := w], r_next_worker_id := nxt \<rparr>)"
proof -
  have "worker_wf nxt v" if "v \<in> set ((r_workers r)[slot := w])" for v
    using set_list_update_cases [OF that] assms(1-3) worker_wf_next by (auto simp: registry_wf_def)
  moreover have "slots_distinct worker_used w_id ((r_workers r)[slot := w])"
    by (rule slots_distinct_update) (use assms in \<open>auto simp: registry_wf_def\<close>)
  moreover have "slots_distinct worker_alive w_fd ((r_workers r)[slot := w])"
    by (rule slots_distinct_update) (use assms in \<open>auto simp: registry_wf_def\<close>)
  ultimately show ?thesis using assms(1) by (auto simp: registry_wf_def)
qed

lemma register_wf:
  assumes "registry_wf r" "faultline_worker_register r fd now = Inr (i, r')"
  shows "registry_wf r'"
proof (rule register_Inr [OF assms])
  fix slot
  assume slot: "slot < FAULTLINE_MAX_WORKERS" "\<not> worker_alive (r_workers r ! slot)" "0 \<le> fd" "0 \<le> now"
    and i: "i = r_next_worker_id r" "i \<noteq> 0"
    and fd: "\<And>w. w \<in> set (r_workers r) \<Longrightarrow> worker_alive w \<Longrightarrow> w_fd w \<noteq> fd"
    and r': "r' = r\<lparr> r_workers := (r_workers r)[slot := \<lparr> w_id = i, w_fd = fd, w_state = WORKER_ALIVE,
       w_last_heartbeat_ms = now \<rparr>], r_next_worker_id := next_id i \<rparr>"
  have "id_before i (next_id i)" using i by (simp add: id_before_next_id)
  moreover have "w_id w \<noteq> i" if "w \<in> set (r_workers r)" "worker_used w" for w
    using that assms(1) i worker_wf_id [of "r_next_worker_id r" w] by (auto simp: registry_wf_def)
  ultimately show ?thesis unfolding r'
    using assms(1) slot i fd by (intro registry_update_wf) (auto simp: worker_wf_def)
qed

lemma heartbeat_wf:
  assumes "registry_wf r" "faultline_worker_heartbeat r i fd now = Inr r'"
  shows "registry_wf r'"
proof (rule heartbeat_Inr [OF assms])
  fix slot
  assume slot: "find_live_connection r i fd = Inr slot" "slot < FAULTLINE_MAX_WORKERS" "0 \<le> now"
    and r': "r' = r\<lparr> r_workers := (r_workers r)[slot := (r_workers r ! slot)\<lparr> w_last_heartbeat_ms := now \<rparr>] \<rparr>"
  let ?w = "(r_workers r ! slot)\<lparr> w_last_heartbeat_ms := now \<rparr>"
  note live = live_connection_Inr [OF assms(1) slot(1)]
  have "registry_wf (r\<lparr> r_workers := (r_workers r)[slot := ?w], r_next_worker_id := r_next_worker_id r \<rparr>)"
    using assms(1) slot live
    by (intro registry_update_wf)
      (auto simp: registry_wf_def worker_wf_def worker_alive_def worker_used_def
         dest: slots_distinctD [of worker_used w_id "r_workers r" _ slot]
           slots_distinctD [of worker_alive w_fd "r_workers r" _ slot])
  then show ?thesis by (simp add: r')
qed

lemma mark_dead_wf:
  assumes "registry_wf r" "faultline_worker_mark_dead r i fd = Inr r'"
  shows "registry_wf r'"
proof (rule mark_dead_Inr [OF assms])
  fix slot
  assume slot: "find_live_connection r i fd = Inr slot" "slot < FAULTLINE_MAX_WORKERS"
    and r': "r' = r\<lparr> r_workers := (r_workers r)[slot := (r_workers r ! slot)\<lparr> w_state := WORKER_DEAD, w_fd := - 1 \<rparr>] \<rparr>"
  let ?w = "(r_workers r ! slot)\<lparr> w_state := WORKER_DEAD, w_fd := - 1 \<rparr>"
  note live = live_connection_Inr [OF assms(1) slot(1)]
  have "registry_wf (r\<lparr> r_workers := (r_workers r)[slot := ?w], r_next_worker_id := r_next_worker_id r \<rparr>)"
    using assms(1) slot live
    by (intro registry_update_wf)
      (auto simp: registry_wf_def worker_wf_def worker_alive_def worker_used_def
         dest: slots_distinctD [of worker_used w_id "r_workers r" _ slot])
  then show ?thesis by (simp add: r')
qed

section \<open>Runs of the registry\<close>

inductive registry_issue ::
  "faultline_worker_registry \<Rightarrow> u32 \<Rightarrow> faultline_worker_registry \<Rightarrow> bool" where
  registered: "faultline_worker_register r fd now = Inr (i, r') \<Longrightarrow> registry_issue r i r'"

inductive registry_keep :: "faultline_worker_registry \<Rightarrow> faultline_worker_registry \<Rightarrow> bool" where
  heartbeat: "faultline_worker_heartbeat r i fd now = Inr r' \<Longrightarrow> registry_keep r r'"
| dead: "faultline_worker_mark_dead r i fd = Inr r' \<Longrightarrow> registry_keep r r'"

inductive registry_step :: "faultline_worker_registry \<Rightarrow> faultline_worker_registry \<Rightarrow> bool" where
  step_issue: "registry_issue r i r' \<Longrightarrow> registry_step r r'"
| step_keep: "registry_keep r r' \<Longrightarrow> registry_step r r'"

inductive_cases registry_issueE: "registry_issue r i r'"
inductive_cases registry_keepE: "registry_keep r r'"
inductive_cases registry_stepE: "registry_step r r'"

interpretation registry: invariant_system "\<lambda>r. r = faultline_worker_registry_init" registry_step registry_wf
proof unfold_locales
  fix r r' assume "registry_wf r" "registry_step r r'"
  then show "registry_wf r'"
    by (auto elim!: registry_stepE registry_issueE registry_keepE
        intro: register_wf heartbeat_wf mark_dead_wf)
qed (simp add: registry_init_wf)

interpretation worker_ids: id_source r_next_worker_id registry_issue registry_keep
proof unfold_locales
  fix r i r' assume "registry_issue r i r'"
  then show "i = r_next_worker_id r \<and> i \<noteq> 0" "r_next_worker_id r' = next_id i"
    by (auto elim!: registry_issueE simp: faultline_worker_register_def Let_def split: if_splits)
next
  fix r r' assume "registry_keep r r'"
  then show "r_next_worker_id r' = r_next_worker_id r"
    by (auto elim!: registry_keepE simp: faultline_worker_heartbeat_def faultline_worker_mark_dead_def Let_def
        split: if_splits sum.splits)
qed

lemma nth_find_slot:
  assumes "registry_wf r" "k < FAULTLINE_MAX_WORKERS" "r_workers r ! k = w" "worker_used w"
  shows "find_slot r (w_id w) = k" "faultline_worker_find r (w_id w) = Some w"
    "0 \<le> fd \<Longrightarrow> find_live_connection r (w_id w) fd =
      (if \<not> worker_alive w then Inl REGISTRY_NOT_ALIVE
       else if w_fd w \<noteq> fd then Inl REGISTRY_CONNECTION_MISMATCH else Inr k)"
proof -
  show slot: "find_slot r (w_id w) = k" using find_slot_nth assms by blast
  have "w \<in> set (r_workers r)" using assms by (metis nth_mem registry_wf_length)
  then show "faultline_worker_find r (w_id w) = Some w"
    using assms by (simp add: worker_find_Some_iff)
  show "0 \<le> fd \<Longrightarrow> find_live_connection r (w_id w) fd =
      (if \<not> worker_alive w then Inl REGISTRY_NOT_ALIVE
       else if w_fd w \<noteq> fd then Inl REGISTRY_CONNECTION_MISMATCH else Inr k)"
    using slot assms(2,3) by (simp add: find_live_connection_def Let_def worker_alive_def)
qed

section \<open>Properties\<close>

text \<open>Claim C5. Whatever registrations, heartbeats and deaths have happened, the registry has
  its 64 slots, every record is consistent with its state (a live one has a connection and a
  non-zero identifier that was issued, a dead one has no connection), no identifier is carried by
  two records, and no connection is held by two live workers.\<close>

theorem registry_reachable_wf:
  "reachable (\<lambda>r. r = faultline_worker_registry_init) registry_step r \<Longrightarrow> registry_wf r"
  by (rule registry.reachable_inv)

definition sample_registry :: faultline_worker_registry where
  "sample_registry = faultline_worker_registry_init
     \<lparr> r_workers := (replicate FAULTLINE_MAX_WORKERS unused_worker)
         [0 := \<lparr> w_id = 1, w_fd = 5, w_state = WORKER_ALIVE, w_last_heartbeat_ms = 100 \<rparr>],
       r_next_worker_id := 2 \<rparr>"

lemma first_unused_slot: "first_index (\<lambda>w. w_state w \<noteq> WORKER_ALIVE) (replicate FAULTLINE_MAX_WORKERS unused_worker) = 0"
  by (simp add: FAULTLINE_MAX_WORKERS_def unused_worker_def numeral_eq_Suc)

lemma sample_register:
  "faultline_worker_register faultline_worker_registry_init 5 100 = Inr (1, sample_registry)"
proof -
  have "next_id (1 :: u32) = 2" by (simp add: next_id_def)
  then show ?thesis
    using first_unused_slot
    by (simp add: faultline_worker_register_def faultline_worker_registry_init_def Let_def
        sample_registry_def list_ex_iff) (simp add: unused_worker_def)
qed

lemma sample_registry_reachable:
  "reachable (\<lambda>r. r = faultline_worker_registry_init) registry_step sample_registry"
  using sample_register by (blast intro: reachable.intros registered step_issue)

theorem registry_reachable_wf_witness:
  "reachable (\<lambda>r. r = faultline_worker_registry_init) registry_step sample_registry \<and>
   registry_wf sample_registry"
  using sample_registry_reachable registry_reachable_wf by blast

text \<open>Claim C6. Worker identifiers are never issued twice: over any run from an initialised
  registry the issued identifiers are non-zero and strictly increasing, so an exhausted allocator
  fails instead of wrapping.\<close>

theorem worker_ids_never_repeat:
  assumes "issued registry_issue registry_keep faultline_worker_registry_init is r"
  shows "distinct is \<and> 0 \<notin> set is \<and> sorted_wrt (<) is"
  using worker_ids.issued_distinct_nonzero [OF assms] worker_ids.issued_strictly_increasing [OF assms] by simp

theorem worker_ids_never_repeat_witness:
  "issued registry_issue registry_keep faultline_worker_registry_init [1] sample_registry \<and>
   distinct [1 :: u32]"
proof -
  have "issued registry_issue registry_keep faultline_worker_registry_init [1] sample_registry"
    using sample_register by (blast intro: issued.intros registered)
  then show ?thesis using worker_ids_never_repeat by blast
qed

text \<open>Claim C7. A registration is visible and a death is final for its identifier. Right after
  registering on a connection, looking the identifier up finds the live record of that connection;
  marking it dead keeps the record under the identifier without a connection, and from then on
  every heartbeat and every second death of that identifier is refused as not alive.\<close>

theorem registered_then_dead:
  assumes "registry_wf r" "faultline_worker_register r fd now = Inr (i, r')"
  shows "faultline_worker_find r' i =
      Some \<lparr> w_id = i, w_fd = fd, w_state = WORKER_ALIVE, w_last_heartbeat_ms = now \<rparr> \<and>
    (\<exists>r''. faultline_worker_mark_dead r' i fd = Inr r'' \<and>
      faultline_worker_find r'' i =
        Some \<lparr> w_id = i, w_fd = - 1, w_state = WORKER_DEAD, w_last_heartbeat_ms = now \<rparr> \<and>
      (\<forall>fd' now'. 0 \<le> fd' \<and> 0 \<le> now' \<longrightarrow>
         faultline_worker_heartbeat r'' i fd' now' = Inl REGISTRY_NOT_ALIVE \<and>
         faultline_worker_mark_dead r'' i fd' = Inl REGISTRY_NOT_ALIVE))"
proof (rule register_Inr [OF assms])
  fix slot
  let ?live = "\<lparr> w_id = i, w_fd = fd, w_state = WORKER_ALIVE, w_last_heartbeat_ms = now \<rparr>"
  let ?dead = "\<lparr> w_id = i, w_fd = - 1, w_state = WORKER_DEAD, w_last_heartbeat_ms = now \<rparr>"
  assume slot: "slot < FAULTLINE_MAX_WORKERS" "0 \<le> fd"
    and r': "r' = r\<lparr> r_workers := (r_workers r)[slot := ?live], r_next_worker_id := next_id i \<rparr>"
  have at_slot: "r_workers r' ! slot = ?live" using slot assms(1) by (simp add: r')
  have wf': "registry_wf r'" using assms by (rule register_wf)
  note live = nth_find_slot [OF wf' slot(1) at_slot]
  let ?r'' = "r'\<lparr> r_workers := (r_workers r')[slot := ?dead] \<rparr>"
  have dead: "faultline_worker_mark_dead r' i fd = Inr ?r''"
    using live(3) [of fd] slot at_slot
    by (simp add: faultline_worker_mark_dead_def worker_used_def worker_alive_def)
  have wf'': "registry_wf ?r''" using wf' dead by (rule mark_dead_wf)
  have "r_workers ?r'' ! slot = ?dead" using slot(1) wf' by simp
  note gone = nth_find_slot [OF wf'' slot(1) this]
  show ?thesis
    using live(2) dead gone(2,3)
    by (auto simp: worker_used_def worker_alive_def faultline_worker_heartbeat_def
        faultline_worker_mark_dead_def)
qed

theorem registered_then_dead_witness:
  "registry_wf faultline_worker_registry_init \<and>
   faultline_worker_register faultline_worker_registry_init 5 100 = Inr (1, sample_registry) \<and>
   faultline_worker_find sample_registry 1 =
     Some \<lparr> w_id = 1, w_fd = 5, w_state = WORKER_ALIVE, w_last_heartbeat_ms = 100 \<rparr>"
  using registered_then_dead [OF registry_init_wf sample_register] sample_register registry_init_wf by blast

text \<open>Claim C8. A heartbeat moves the deadline: once a heartbeat at time \<open>t\<close> is accepted, the
  worker has expired at a later time exactly when the timeout has fully elapsed since \<open>t\<close>.\<close>

theorem heartbeat_deadline:
  assumes "registry_wf r" "faultline_worker_heartbeat r i fd t = Inr r'" "0 < timeout_ms" "t \<le> now"
  shows "faultline_worker_timed_out (faultline_worker_find r' i) now timeout_ms \<longleftrightarrow> t + timeout_ms \<le> now"
proof (rule heartbeat_Inr [OF assms(1,2)])
  fix slot
  assume slot: "find_live_connection r i fd = Inr slot" "slot < FAULTLINE_MAX_WORKERS" "0 \<le> t"
    and r': "r' = r\<lparr> r_workers := (r_workers r)[slot := (r_workers r ! slot)\<lparr> w_last_heartbeat_ms := t \<rparr>] \<rparr>"
  let ?w = "(r_workers r ! slot)\<lparr> w_last_heartbeat_ms := t \<rparr>"
  note live = live_connection_Inr [OF assms(1) slot(1)]
  have "registry_wf r'" using assms(1,2) by (rule heartbeat_wf)
  moreover have "r_workers r' ! slot = ?w" using slot(2) assms(1) by (simp add: r')
  moreover have "worker_used ?w" using live by (simp add: worker_used_def worker_alive_def)
  ultimately have "faultline_worker_find r' (w_id ?w) = Some ?w" using slot(2) by (blast intro: nth_find_slot)
  then show ?thesis using live assms(3,4) slot(3)
    by (auto simp: faultline_worker_timed_out_def worker_alive_def)
qed

theorem heartbeat_deadline_witness:
  "\<exists>r'. faultline_worker_heartbeat sample_registry 1 5 200 = Inr r' \<and>
     \<not> faultline_worker_timed_out (faultline_worker_find r' 1) 299 100 \<and>
     faultline_worker_timed_out (faultline_worker_find r' 1) 300 100"
proof -
  have wf: "registry_wf sample_registry" using registry_init_wf sample_register by (rule register_wf)
  have "r_workers sample_registry ! 0 =
    \<lparr> w_id = 1, w_fd = 5, w_state = WORKER_ALIVE, w_last_heartbeat_ms = 100 \<rparr>"
    by (simp add: sample_registry_def)
  from nth_find_slot(3) [OF wf max_workers_pos this, of 5] this
  have "\<exists>r'. faultline_worker_heartbeat sample_registry 1 5 200 = Inr r'"
    by (simp add: faultline_worker_heartbeat_def worker_used_def worker_alive_def)
  then obtain r' where r': "faultline_worker_heartbeat sample_registry 1 5 200 = Inr r'" ..
  from heartbeat_deadline [OF wf r', of 100 299] heartbeat_deadline [OF wf r', of 100 300] r'
  show ?thesis by simp
qed

end
