(* ===== verification/Wal_Replay.thy ===== *)
theory Wal_Replay
  imports Wal_Writer Scheduler Worker_Registry
begin

text \<open>
  Recovery of the coordinator's state from its log (\<^verbatim>\<open>include/wal_replay.h\<close>,
  \<^verbatim>\<open>src/coordinator/wal_replay.c\<close>): the index of allocated worker identifiers, the check and
  application of one record, the loop that reads the file, and the opening of an existing log, which
  cuts an unfinished tail off and makes the writer ready. Memory comes from a parameter that says
  whether an allocation succeeds.
\<close>

section \<open>Data\<close>

record faultline_wal_replay_state =
  rs_scheduler :: faultline_scheduler
  rs_workers :: faultline_worker_registry
  rs_last_sequence :: u64
  rs_highest_job_id :: u64
  rs_highest_worker_id :: u32
  rs_job_time_base_ms :: int

datatype wal_history_error =
    HISTORY_ALLOCATION
  | HISTORY_UNKNOWN_JOB
  | HISTORY_UNKNOWN_WORKER
  | HISTORY_BUSY_WORKER
  | HISTORY_FIFO
  | HISTORY_TIME
  | HISTORY_TRANSITION
  | HISTORY_SNAPSHOT

text \<open>
  The results other than OK. The two that \<^verbatim>\<open>format_error\<close> and \<^verbatim>\<open>history_error\<close> return carry the value
  these store in the report.
\<close>

datatype wal_replay_error =
    REPLAY_INVALID_ARGUMENT
  | REPLAY_INVALID_STATE
  | REPLAY_IO_ERROR
  | REPLAY_BAD_FORMAT wal_error
  | REPLAY_BAD_HISTORY wal_history_error
  | REPLAY_CAPACITY
  | REPLAY_NO_MEMORY

record faultline_wal_replay_report =
  rp_valid_bytes :: nat
  rp_tail_bytes :: nat
  rp_error_offset :: nat
  rp_last_sequence :: u64

definition empty_report :: faultline_wal_replay_report where
  "empty_report = \<lparr> rp_valid_bytes = 0, rp_tail_bytes = 0, rp_error_offset = 0, rp_last_sequence = 0 \<rparr>"

text \<open>Ranges \<open>(first, last)\<close>; the count is the length of the list.\<close>

record worker_index =
  ix_ranges :: "(u32 \<times> u32) list"
  ix_capacity :: nat

definition empty_index :: worker_index where
  "empty_index = \<lparr> ix_ranges = [], ix_capacity = 0 \<rparr>"

definition replay_init :: faultline_wal_replay_state where
  "replay_init =
     \<lparr> rs_scheduler = faultline_scheduler_init, rs_workers = faultline_worker_registry_init,
       rs_last_sequence = 0, rs_highest_job_id = 0, rs_highest_worker_id = 0, rs_job_time_base_ms = 0 \<rparr>"

section \<open>Allocated workers\<close>

definition SIZE_MAX :: nat where
  "SIZE_MAX = 2 ^ 64 - 1"

definition sizeof_worker_range :: nat where
  "sizeof_worker_range = 8"

definition allocate_worker ::
  "('w \<Rightarrow> bool \<times> 'w) \<Rightarrow> faultline_wal_replay_state \<Rightarrow> worker_index \<Rightarrow> u32 \<Rightarrow> 'w \<Rightarrow>
     (wal_replay_error + faultline_wal_replay_state \<times> worker_index) \<times> 'w" where
  "allocate_worker realloc state index worker_id w =
     (if worker_id \<le> rs_highest_worker_id state then (Inl (REPLAY_BAD_HISTORY HISTORY_ALLOCATION), w)
      else
        (let ranges = ix_ranges index;
             state' = state\<lparr> rs_highest_worker_id := worker_id,
                             rs_workers := (rs_workers state)\<lparr> r_next_worker_id := next_id worker_id \<rparr> \<rparr> in
         if ranges \<noteq> [] \<and> (ucast (snd (last ranges)) :: u64) + 1 = ucast worker_id
         then (Inr (state', index\<lparr> ix_ranges := butlast ranges @ [(fst (last ranges), worker_id)] \<rparr>), w)
         else if length ranges = ix_capacity index
         then
           (if ix_capacity index > SIZE_MAX div 2 div sizeof_worker_range then (Inl REPLAY_NO_MEMORY, w)
            else
              (case realloc w of (grown, w') \<Rightarrow>
                 if \<not> grown then (Inl REPLAY_NO_MEMORY, w')
                 else (Inr (state', \<lparr> ix_ranges = ranges @ [(worker_id, worker_id)],
                                      ix_capacity = (if ix_capacity index = 0 then 16 else ix_capacity index * 2) \<rparr>), w')))
         else (Inr (state', index\<lparr> ix_ranges := ranges @ [(worker_id, worker_id)] \<rparr>), w)))"

text \<open>The binary search over the ranges, on the half-open interval from \<open>low\<close> to \<open>high\<close>.\<close>

function search_ranges :: "(u32 \<times> u32) list \<Rightarrow> u32 \<Rightarrow> nat \<Rightarrow> nat \<Rightarrow> bool" where
  "search_ranges ranges worker_id low high =
     (if low < high
      then
        (let middle = low + (high - low) div 2; range = ranges ! middle in
         if worker_id < fst range then search_ranges ranges worker_id low middle
         else if worker_id > snd range then search_ranges ranges worker_id (middle + 1) high
         else True)
      else False)"
  by pat_completeness auto
termination by (relation "measure (\<lambda>(ranges, worker_id, low, high). high - low)") auto

declare search_ranges.simps [simp del]

definition worker_was_allocated :: "worker_index \<Rightarrow> u32 \<Rightarrow> bool" where
  "worker_was_allocated index worker_id = search_ranges (ix_ranges index) worker_id 0 (length (ix_ranges index))"

section \<open>Applying a record\<close>

definition matches_snapshot ::
  "faultline_job \<Rightarrow> u64 \<Rightarrow> wal_job_event \<Rightarrow> bytes \<Rightarrow> bool" where
  "matches_snapshot candidate sequence type wire \<longleftrightarrow>
     faultline_wal_record_encode FAULTLINE_WAL_MAX_RECORD_SIZE
       \<lparr> wr_sequence = sequence, wr_payload = JOB_SNAPSHOT type candidate \<rparr> = Inr wire"

text \<open>The transition the record's type stands for, made by the operations of the job itself.\<close>

definition replay_candidate ::
  "faultline_wal_replay_state \<Rightarrow> worker_index \<Rightarrow> wal_job_event \<Rightarrow> faultline_job \<Rightarrow> nat \<Rightarrow>
     wal_replay_error + job_error + faultline_job" where
  "replay_candidate state index type saved slot =
     (let scheduler = rs_scheduler state in
      if type = WAL_JOB_CREATED
      then
        (if j_id saved \<le> rs_highest_job_id state then Inl (REPLAY_BAD_HISTORY HISTORY_ALLOCATION)
         else if length (s_jobs scheduler) = FAULTLINE_JOB_STORE_CAPACITY then Inl REPLAY_CAPACITY
         else Inr (faultline_job_init (j_id saved) (Some (j_task_type saved)) (Some (j_arguments saved))
                     (length (j_arguments saved)) (j_max_retries saved) (j_created_at_ms saved)))
      else if slot = length (s_jobs scheduler) then Inl (REPLAY_BAD_HISTORY HISTORY_UNKNOWN_JOB)
      else
        (let candidate = s_jobs scheduler ! slot in
         case type of
           WAL_JOB_ASSIGNED \<Rightarrow>
             if \<not> worker_was_allocated index (j_worker_id saved)
             then Inl (REPLAY_BAD_HISTORY HISTORY_UNKNOWN_WORKER)
             else if faultline_scheduler_active scheduler (j_worker_id saved) \<noteq> None
             then Inl (REPLAY_BAD_HISTORY HISTORY_BUSY_WORKER)
             else if faultline_job_queue_peek (s_pending scheduler) \<noteq> Inr (j_id saved)
             then Inl (REPLAY_BAD_HISTORY HISTORY_FIFO)
             else Inr (faultline_job_assign candidate (j_worker_id saved) (j_updated_at_ms saved))
         | WAL_JOB_STARTED \<Rightarrow>
             Inr (faultline_job_start candidate (j_worker_id saved) (j_attempt saved) (j_updated_at_ms saved))
         | WAL_JOB_COMPLETED \<Rightarrow>
             Inr (faultline_job_complete candidate (j_worker_id saved) (j_attempt saved)
                    (Some (j_result saved)) (length (j_result saved)) (j_updated_at_ms saved))
         | _ \<Rightarrow>
             Inr (faultline_job_fail candidate (j_worker_id candidate) (j_attempt saved)
                    (j_failure saved) (j_updated_at_ms saved))))"

text \<open>The pending queue after the record.\<close>

definition replay_pending ::
  "faultline_job_queue \<Rightarrow> wal_job_event \<Rightarrow> faultline_job \<Rightarrow> u64 \<Rightarrow> faultline_job_queue option" where
  "replay_pending pending type candidate saved_id =
     (if type = WAL_JOB_ASSIGNED
      then
        (case faultline_job_queue_pop pending of
           Inl _ \<Rightarrow> None
         | Inr (removed, pending') \<Rightarrow> if removed \<noteq> saved_id then None else Some pending')
      else if j_state candidate = JOB_QUEUED
      then (case faultline_job_queue_push pending candidate of Inl _ \<Rightarrow> None | Inr pending' \<Rightarrow> Some pending')
      else Some pending)"

text \<open>
  A job that is created takes the slot the scan stopped at, which is the first free one: its
  identifier is greater than all earlier ones.
\<close>

definition apply_job_record ::
  "faultline_wal_replay_state \<Rightarrow> worker_index \<Rightarrow> u64 \<Rightarrow> wal_job_event \<Rightarrow> faultline_job \<Rightarrow> bytes \<Rightarrow>
     wal_replay_error + faultline_wal_replay_state" where
  "apply_job_record state index sequence type saved wire =
     (let scheduler = rs_scheduler state in
      if j_updated_at_ms saved < rs_job_time_base_ms state then Inl (REPLAY_BAD_HISTORY HISTORY_TIME)
      else
        (let slot = first_index (\<lambda>job. j_id job = j_id saved) (s_jobs scheduler) in
         case replay_candidate state index type saved slot of
           Inl e \<Rightarrow> Inl e
         | Inr (Inl _) \<Rightarrow> Inl (REPLAY_BAD_HISTORY HISTORY_TRANSITION)
         | Inr (Inr candidate) \<Rightarrow>
             if \<not> matches_snapshot candidate sequence type wire
             then Inl (REPLAY_BAD_HISTORY HISTORY_SNAPSHOT)
             else
               (case replay_pending (s_pending scheduler) type candidate (j_id saved) of
                  None \<Rightarrow> Inl (REPLAY_BAD_HISTORY HISTORY_FIFO)
                | Some pending \<Rightarrow>
                    if type = WAL_JOB_CREATED
                    then Inr (state\<lparr>
                      rs_scheduler := \<lparr> s_jobs = (s_jobs scheduler @ [candidate])[slot := candidate],
                                        s_next_job_id = next_id (j_id saved), s_pending = pending \<rparr>,
                      rs_highest_job_id := j_id saved, rs_job_time_base_ms := j_updated_at_ms saved \<rparr>)
                    else Inr (state\<lparr>
                      rs_scheduler := scheduler\<lparr> s_pending := pending, s_jobs := (s_jobs scheduler)[slot := candidate] \<rparr>,
                      rs_job_time_base_ms := j_updated_at_ms saved \<rparr>))))"

definition apply_record ::
  "('w \<Rightarrow> bool \<times> 'w) \<Rightarrow> faultline_wal_replay_state \<Rightarrow> worker_index \<Rightarrow> faultline_wal_record \<Rightarrow> bytes \<Rightarrow> 'w \<Rightarrow>
     (wal_replay_error + faultline_wal_replay_state \<times> worker_index) \<times> 'w" where
  "apply_record realloc state index record wire w =
     (case wr_payload record of
        WORKER_ID worker_id \<Rightarrow> allocate_worker realloc state index worker_id w
      | JOB_SNAPSHOT type saved \<Rightarrow>
          (map_sum id (\<lambda>state'. (state', index)) (apply_job_record state index (wr_sequence record) type saved wire), w))"

section \<open>Reading the file\<close>

partial_function (option) read_loop ::
  "(nat \<Rightarrow> 'w \<Rightarrow> (errno + bytes) \<times> 'w) \<Rightarrow> nat \<Rightarrow> bytes \<Rightarrow> 'w \<Rightarrow> ((errno + bytes) \<times> 'w) option" where
  "read_loop call wanted received w =
     (if length received < wanted
      then
        (case call (wanted - length received) w of
           (Inl e, w') \<Rightarrow> if e = EINTR then read_loop call wanted received w' else Some (Inl e, w')
         | (Inr b, w') \<Rightarrow>
             if b = [] then Some (Inr received, w')
             else if length b > wanted - length received then Some (Inl EIO, w')
             else read_loop call wanted (received @ b) w')
      else Some (Inr received, w))"

definition read_exact ::
  "'w faultline_wal_writer_io \<Rightarrow> faultline_wal_writer \<Rightarrow> nat \<Rightarrow> 'w \<Rightarrow>
     ((faultline_wal_writer + bytes) \<times> 'w) option" where
  "read_exact io writer wanted w =
     do {
       (result, w') \<leftarrow> read_loop (io_read io (wal_fd writer)) wanted [] w;
       Some (map_sum (faultline_wal_writer_fail writer IO_READ_FILE) id result, w')
     }"

text \<open>
  One round of the loop in \<^verbatim>\<open>read_history\<close>: either the final result, with the writer and the report,
  or the state, index and report of the next round. The first function is the part after all bytes of
  the record have been read.
\<close>

type_synonym history = "faultline_wal_replay_state \<times> worker_index \<times> faultline_wal_replay_report"

type_synonym history_result =
  "(wal_replay_error + faultline_wal_replay_state) \<times> faultline_wal_writer \<times> faultline_wal_replay_report"

fun replay_wire ::
  "('w \<Rightarrow> bool \<times> 'w) \<Rightarrow> faultline_wal_writer \<Rightarrow> history \<Rightarrow> u64 \<Rightarrow> bytes \<Rightarrow> 'w \<Rightarrow> (history_result + history) \<times> 'w" where
  "replay_wire realloc writer (state, index, report) sequence wire w =
     (case faultline_wal_record_decode wire sequence of
        Inl e \<Rightarrow> (Inl (Inl (REPLAY_BAD_FORMAT e), writer, report), w)
      | Inr (record, consumed) \<Rightarrow>
          if int (rp_valid_bytes report) > INT64_MAX - int (length wire)
          then (Inl (Inl REPLAY_IO_ERROR, faultline_wal_writer_fail writer IO_READ_FILE EOVERFLOW, report), w)
          else
            (case apply_record realloc state index record wire w of
               (Inl e, w') \<Rightarrow> (Inl (Inl e, writer, report), w')
             | (Inr (state', index'), w') \<Rightarrow>
                 (Inr (state'\<lparr> rs_last_sequence := sequence \<rparr>, index',
                    report\<lparr> rp_last_sequence := sequence, rp_valid_bytes := rp_valid_bytes report + length wire \<rparr>), w')))"

fun read_history_step ::
  "'w faultline_wal_writer_io \<Rightarrow> faultline_wal_writer \<Rightarrow> history \<Rightarrow> 'w \<Rightarrow>
     ((history_result + history) \<times> 'w) option" where
  "read_history_step io writer (state, index, report0) w =
     (let report = report0\<lparr> rp_error_offset := rp_valid_bytes report0 \<rparr> in
      do {
        (header_bytes, w1) \<leftarrow> read_exact io writer FAULTLINE_WAL_RECORD_HEADER_SIZE w;
        (case header_bytes of
           Inl failed \<Rightarrow> Some (Inl (Inl REPLAY_IO_ERROR, failed, report), w1)
         | Inr received \<Rightarrow>
             if received = [] then Some (Inl (Inr state, writer, report), w1)
             else if rs_last_sequence state = - 1
             then Some (Inl (Inl (REPLAY_BAD_FORMAT WAL_INVALID_SEQUENCE), writer, report), w1)
             else if length received < FAULTLINE_WAL_RECORD_HEADER_SIZE
             then Some (Inl (Inr state, writer, report\<lparr> rp_tail_bytes := length received \<rparr>), w1)
             else
               (case faultline_wal_record_header_decode received (rs_last_sequence state + 1) of
                  Inl e \<Rightarrow> Some (Inl (Inl (REPLAY_BAD_FORMAT e), writer, report), w1)
                | Inr header \<Rightarrow>
                    do {
                      (payload_bytes, w2) \<leftarrow> read_exact io writer (unat (wh_payload_length header)) w1;
                      Some (case payload_bytes of
                          Inl failed \<Rightarrow> (Inl (Inl REPLAY_IO_ERROR, failed, report), w2)
                        | Inr payload \<Rightarrow>
                            if length payload < unat (wh_payload_length header)
                            then (Inl (Inr state, writer,
                                    report\<lparr> rp_tail_bytes := FAULTLINE_WAL_RECORD_HEADER_SIZE + length payload \<rparr>), w2)
                            else replay_wire (os_allocate io) writer (state, index, report)
                                   (rs_last_sequence state + 1) (received @ payload) w2)
                    }))
      })"

partial_function (option) read_history_loop ::
  "(history \<Rightarrow> 'w \<Rightarrow> ((history_result + history) \<times> 'w) option) \<Rightarrow> history \<Rightarrow> 'w \<Rightarrow> (history_result \<times> 'w) option" where
  "read_history_loop step history w =
     do {
       (outcome, w') \<leftarrow> step history w;
       (case outcome of Inl result \<Rightarrow> Some (result, w') | Inr history' \<Rightarrow> read_history_loop step history' w')
     }"

definition read_history ::
  "'w faultline_wal_writer_io \<Rightarrow> faultline_wal_writer \<Rightarrow> faultline_wal_replay_state \<Rightarrow> worker_index \<Rightarrow>
     faultline_wal_replay_report \<Rightarrow> 'w \<Rightarrow> (history_result \<times> 'w) option" where
  "read_history io writer state index report w =
     do {
       (header_bytes, w) \<leftarrow> read_exact io writer FAULTLINE_WAL_FILE_HEADER_SIZE w;
       (case header_bytes of
          Inl writer \<Rightarrow> Some ((Inl REPLAY_IO_ERROR, writer, report), w)
        | Inr received \<Rightarrow>
            (case faultline_wal_file_header_decode received of
               Some e \<Rightarrow> Some ((Inl (REPLAY_BAD_FORMAT e), writer, report), w)
             | None \<Rightarrow>
                 read_history_loop (read_history_step io writer)
                   (state, index, report\<lparr> rp_valid_bytes := FAULTLINE_WAL_FILE_HEADER_SIZE \<rparr>) w))
     }"

section \<open>Opening an existing log\<close>

text \<open>Cutting the unfinished record off, where there is one.\<close>

definition truncate_tail ::
  "'w faultline_wal_writer_io \<Rightarrow> history_result \<Rightarrow> 'w \<Rightarrow> (history_result \<times> 'w) option" where
  "truncate_tail io = (\<lambda>(result, writer, report) w.
     if \<not> isl result \<and> rp_tail_bytes report \<noteq> 0
     then
       do {
         (truncated, w) \<leftarrow> retry_eintr (io_truncate io (wal_fd writer) (rp_valid_bytes report)) w;
         Some (case truncated of
                 Inl e \<Rightarrow> ((Inl REPLAY_IO_ERROR, faultline_wal_writer_fail writer IO_TRUNCATE_TAIL e, report), w)
               | Inr _ \<Rightarrow> ((result, writer, report), w))
       }
     else Some ((result, writer, report), w))"

definition sync_recovery ::
  "'w faultline_wal_writer_io \<Rightarrow> history_result \<Rightarrow> 'w \<Rightarrow> (history_result \<times> 'w) option" where
  "sync_recovery io = (\<lambda>(result, writer, report) w.
     (case result of
        Inl e \<Rightarrow> Some ((Inl e, writer, report), w)
      | Inr state \<Rightarrow>
          do {
            (synced, writer, w) \<leftarrow> faultline_wal_writer_sync io writer (wal_fd writer) IO_SYNC_RECOVERY w;
            if synced \<noteq> WRITE_OK then Some ((Inl REPLAY_IO_ERROR, writer, report), w)
            else
              do {
                (synced, writer, w) \<leftarrow> faultline_wal_writer_sync io writer (wal_directory_fd writer) IO_SYNC_DIRECTORY w;
                if synced \<noteq> WRITE_OK then Some ((Inl REPLAY_IO_ERROR, writer, report), w)
                else Some ((Inr state, writer, report), w)
              }
          }))"

text \<open>Publishing the recovered state, or disabling the writer.\<close>

definition publish_recovery :: "history_result \<Rightarrow> history_result" where
  "publish_recovery = (\<lambda>(result, writer, report).
     (result,
      (case result of
         Inr state \<Rightarrow>
           writer\<lparr> wal_synced_sequence := rs_last_sequence state,
                   wal_next_sequence := next_id (rs_last_sequence state), wal_state := WRITER_READY \<rparr>
       | Inl e \<Rightarrow>
           if wal_state writer \<noteq> WRITER_FAILED
           then faultline_wal_writer_fail writer
                  (if e = REPLAY_NO_MEMORY then IO_ALLOCATE_REPLAY else IO_VALIDATE_REPLAY)
                  (if e = REPLAY_NO_MEMORY then ENOMEM else if e = REPLAY_CAPACITY then EOVERFLOW else EILSEQ)
           else writer),
      report))"

definition faultline_wal_replay_open_with_io ::
  "'w faultline_wal_writer_io \<Rightarrow> faultline_wal_writer \<Rightarrow> string \<Rightarrow> faultline_wal_replay_report \<Rightarrow> 'w \<Rightarrow>
     (history_result \<times> 'w) option" where
  "faultline_wal_replay_open_with_io io writer path report w =
     (if invalid_path path then Some ((Inl REPLAY_INVALID_ARGUMENT, writer, report), w)
      else
        do {
          (opened, writer, w) \<leftarrow> faultline_wal_writer_open_file io writer path False w;
          if opened \<noteq> WRITE_OK
          then Some ((Inl (if opened = WRITE_INVALID_STATE then REPLAY_INVALID_STATE else REPLAY_IO_ERROR),
                      writer, empty_report), w)
          else
            (case os_allocate io w of
               (allocated, w) \<Rightarrow>
                 do {
                   (outcome, w) \<leftarrow>
                     (if \<not> allocated then Some ((Inl REPLAY_NO_MEMORY, writer, empty_report), w)
                      else read_history io writer replay_init empty_index empty_report w);
                   (outcome, w) \<leftarrow> truncate_tail io outcome w;
                   (outcome, w) \<leftarrow> sync_recovery io outcome w;
                   Some (publish_recovery outcome, w)
                 })
        })"

section \<open>The worker index\<close>

text \<open>The identifiers an index records, and the shape \<^verbatim>\<open>allocate_worker\<close> keeps it in.\<close>

definition allocated_ids :: "worker_index \<Rightarrow> u32 set" where
  "allocated_ids index = {i. \<exists>range \<in> set (ix_ranges index). fst range \<le> i \<and> i \<le> snd range}"

definition index_wf :: "worker_index \<Rightarrow> u32 \<Rightarrow> bool" where
  "index_wf index highest \<longleftrightarrow>
     (\<forall>range \<in> set (ix_ranges index). 0 < fst range \<and> fst range \<le> snd range) \<and>
     sorted_wrt (\<lambda>a b. snd a < fst b) (ix_ranges index) \<and>
     highest = (if ix_ranges index = [] then 0 else snd (last (ix_ranges index))) \<and>
     length (ix_ranges index) \<le> ix_capacity index \<and>
     (ix_capacity index = 0 \<or> ix_capacity index = 16 \<or> ix_capacity index < 2 * length (ix_ranges index))"

lemma empty_index_wf: "index_wf empty_index 0"
  by (simp add: index_wf_def empty_index_def)

lemma sorted_ranges_less:
  "sorted_wrt (\<lambda>a b. snd a < fst b) rs \<Longrightarrow> i < j \<Longrightarrow> j < length rs \<Longrightarrow> snd (rs ! i) < fst (rs ! j)"
  by (rule sorted_wrt_nth_less)

text \<open>The binary search finds a range exactly when there is one.\<close>

lemma search_ranges_iff:
  assumes "sorted_wrt (\<lambda>a b. snd a < fst b) rs" "\<forall>r \<in> set rs. fst r \<le> snd r" "high \<le> length rs"
  shows "search_ranges rs i low high \<longleftrightarrow> (\<exists>k. low \<le> k \<and> k < high \<and> fst (rs ! k) \<le> i \<and> i \<le> snd (rs ! k))"
  using assms
proof (induction rs i low high rule: search_ranges.induct)
  case (1 rs i low high)
  show ?case
  proof (cases "low < high")
    case False
    then show ?thesis by (auto simp: search_ranges.simps [of rs i low high])
  next
    case True
    define m where "m = low + (high - low) div 2"
    have m: "low \<le> m" "m < high" using True by (auto simp: m_def)
    have before: "snd (rs ! k) < fst (rs ! m)" if "k < m" for k
      using that m(2) 1(5) by (intro sorted_ranges_less [OF 1(3)]) auto
    have after: "snd (rs ! m) < fst (rs ! k)" if "m < k" "k < high" for k
      using that 1(5) by (intro sorted_ranges_less [OF 1(3)]) auto
    have ordered: "fst (rs ! k) \<le> snd (rs ! k)" if "k < high" for k
      using that 1(4,5) by simp
    show ?thesis
    proof (cases "i < fst (rs ! m)")
      case lower: True
      have bound: "k < m" if "k < high" "fst (rs ! k) \<le> i" for k
        using that lower after [of k] ordered [OF m(2)] by (cases m k rule: linorder_cases) auto
      have "search_ranges rs i low high = search_ranges rs i low m"
        using True lower by (simp add: search_ranges.simps [of rs i low high] Let_def m_def)
      also have "\<dots> \<longleftrightarrow> (\<exists>k\<ge>low. k < m \<and> fst (rs ! k) \<le> i \<and> i \<le> snd (rs ! k))"
        using 1(5) m(2) by (intro 1(1) [OF True m_def refl lower 1(3,4)]) simp
      also have "\<dots> \<longleftrightarrow> (\<exists>k\<ge>low. k < high \<and> fst (rs ! k) \<le> i \<and> i \<le> snd (rs ! k))"
        using bound m(2) less_trans by blast
      finally show ?thesis .
    next
      case not_lower: False
      show ?thesis
      proof (cases "snd (rs ! m) < i")
        case upper: True
        have bound: "m < k" if "k < high" "i \<le> snd (rs ! k)" for k
          using that upper before [of k] ordered [of k] not_lower by (cases m k rule: linorder_cases) auto
        have "search_ranges rs i low high = search_ranges rs i (m + 1) high"
          using True not_lower upper by (simp add: search_ranges.simps [of rs i low high] Let_def m_def)
        also have "\<dots> \<longleftrightarrow> (\<exists>k\<ge>m + 1. k < high \<and> fst (rs ! k) \<le> i \<and> i \<le> snd (rs ! k))"
          by (rule 1(2) [OF True m_def refl not_lower upper 1(3-5)])
        also have "\<dots> \<longleftrightarrow> (\<exists>k\<ge>low. k < high \<and> fst (rs ! k) \<le> i \<and> i \<le> snd (rs ! k))"
        proof (intro iffI; elim exE conjE)
          fix k assume "m + 1 \<le> k" "k < high" "fst (rs ! k) \<le> i" "i \<le> snd (rs ! k)"
          then show "\<exists>k\<ge>low. k < high \<and> fst (rs ! k) \<le> i \<and> i \<le> snd (rs ! k)" using m(1) by (intro exI [of _ k]) simp
        next
          fix k assume "k < high" "fst (rs ! k) \<le> i" "i \<le> snd (rs ! k)"
          then show "\<exists>k\<ge>m + 1. k < high \<and> fst (rs ! k) \<le> i \<and> i \<le> snd (rs ! k)"
            using bound [of k] by (intro exI [of _ k]) simp
        qed
        finally show ?thesis .
      next
        case False
        then have "search_ranges rs i low high"
          using True not_lower by (simp add: search_ranges.simps [of rs i low high] Let_def m_def)
        moreover have "fst (rs ! m) \<le> i" "i \<le> snd (rs ! m)" using not_lower False by simp_all
        ultimately show ?thesis using m by blast
      qed
    qed
  qed
qed

lemma allocated_ids_nth:
  "i \<in> allocated_ids index \<longleftrightarrow>
     (\<exists>k < length (ix_ranges index). fst (ix_ranges index ! k) \<le> i \<and> i \<le> snd (ix_ranges index ! k))"
  by (simp add: allocated_ids_def list_ex_iff [symmetric] list_ex_length)

lemma index_wfD:
  "index_wf index highest \<Longrightarrow> sorted_wrt (\<lambda>a b. snd a < fst b) (ix_ranges index) \<and>
     (\<forall>range \<in> set (ix_ranges index). fst range \<le> snd range)"
  by (simp add: index_wf_def)

lemma worker_was_allocated_iff:
  "index_wf index highest \<Longrightarrow> worker_was_allocated index i \<longleftrightarrow> i \<in> allocated_ids index"
  using index_wfD [of index highest] search_ranges_iff [of "ix_ranges index" "length (ix_ranges index)" i 0]
  by (simp add: worker_was_allocated_def allocated_ids_nth)

lemma sorted_ranges_last:
  fixes rs :: "(u32 \<times> u32) list"
  assumes "sorted_wrt (\<lambda>a b. snd a < fst b) rs" "\<forall>r \<in> set rs. fst r \<le> snd r" "r \<in> set rs"
  shows "snd r \<le> snd (last rs)"
proof -
  obtain k where k: "k < length rs" "r = rs ! k" using assms(3) by (metis in_set_conv_nth)
  have ne: "rs \<noteq> []" using assms(3) by auto
  then have last: "last rs = rs ! (length rs - 1)" by (rule last_conv_nth)
  show ?thesis
  proof (cases "k = length rs - 1")
    case False
    then have "snd r < fst (last rs)" using k last assms(1) by (simp add: sorted_ranges_less)
    moreover have "fst (last rs) \<le> snd (last rs)" using assms(2) ne by simp
    ultimately show ?thesis by simp
  qed (use k last in simp)
qed

lemma allocated_le_highest:
  assumes "index_wf index highest" "i \<in> allocated_ids index"
  shows "0 < i \<and> i \<le> highest"
proof -
  obtain r where r: "r \<in> set (ix_ranges index)" "fst r \<le> i" "i \<le> snd r"
    using assms(2) by (auto simp: allocated_ids_def)
  have "0 < fst r" using assms(1) r(1) by (simp add: index_wf_def)
  moreover have "snd r \<le> highest"
    using sorted_ranges_last [of "ix_ranges index" r] assms(1) r(1) by (auto simp: index_wf_def)
  ultimately show ?thesis using r(2,3) by auto
qed

text \<open>There are fewer ranges than identifiers, so the capacity check never stops a replay.\<close>

lemma index_wf_length: "index_wf index highest \<Longrightarrow> length (ix_ranges index) \<le> 2 ^ 32"
proof -
  assume wf: "index_wf index highest"
  have "distinct (map fst (ix_ranges index))"
    unfolding distinct_conv_nth
  proof (intro allI impI)
    fix i j assume ij: "i < length (map fst (ix_ranges index))" "j < length (map fst (ix_ranges index))" "i \<noteq> j"
    have less: "fst (ix_ranges index ! a) < fst (ix_ranges index ! b)" if "a < b" "b < length (ix_ranges index)" for a b
    proof -
      have "fst (ix_ranges index ! a) \<le> snd (ix_ranges index ! a)" using wf that by (simp add: index_wf_def)
      also have "\<dots> < fst (ix_ranges index ! b)" using wf that by (simp add: index_wf_def sorted_ranges_less)
      finally show ?thesis .
    qed
    show "map fst (ix_ranges index) ! i \<noteq> map fst (ix_ranges index) ! j"
      using ij less [of i j] less [of j i] by (cases i j rule: linorder_cases) force+
  qed
  then have "length (ix_ranges index) = card (set (map fst (ix_ranges index)))"
    by (metis distinct_card length_map)
  also have "\<dots> \<le> card (UNIV :: u32 set)" by (rule card_mono) auto
  finally show ?thesis by (simp add: card_word)
qed

text \<open>With memory available, an identifier above all earlier ones is always recorded.\<close>

definition memory_available :: "('w \<Rightarrow> bool \<times> 'w) \<Rightarrow> bool" where
  "memory_available alloc \<longleftrightarrow> (\<forall>w. fst (alloc w))"

lemma index_wf_extend:
  assumes "index_wf index highest" "ix_ranges index \<noteq> []" "highest < i"
  shows "index_wf (index\<lparr> ix_ranges := butlast (ix_ranges index) @ [(fst (last (ix_ranges index)), i)] \<rparr>) i"
proof -
  obtain rs a b where rs: "ix_ranges index = rs @ [(a, b)]"
    using assms(2) by (metis append_butlast_last_id surj_pair)
  have "b < i" "a \<le> b" using assms rs by (auto simp: index_wf_def)
  then have "a \<le> i" by simp
  then show ?thesis using assms(1) rs by (auto simp: index_wf_def sorted_wrt_append)
qed

lemma allocated_extend:
  assumes "index_wf index highest" "ix_ranges index \<noteq> []" "(ucast highest :: u64) + 1 = ucast i"
  shows "allocated_ids (index\<lparr> ix_ranges := butlast (ix_ranges index) @ [(fst (last (ix_ranges index)), i)] \<rparr>) =
    insert i (allocated_ids index)"
proof -
  obtain rs a b where rs: "ix_ranges index = rs @ [(a, b)]"
    using assms(2) by (metis append_butlast_last_id surj_pair)
  have b: "b = highest" "a \<le> b" using assms rs by (auto simp: index_wf_def)
  have "unat i = unat b + 1"
  proof -
    have "unat ((ucast highest :: u64) + 1) = unat (ucast i :: u64)" using assms(3) by simp
    then show ?thesis using unat_u32_less [of highest] b(1) by (simp add: unat_word_ariths)
  qed
  then have "x \<le> i \<longleftrightarrow> x \<le> b \<or> x = i" for x
    by (auto simp: word_le_nat_alt word_unat_eq_iff)
  moreover have "a \<le> i" using \<open>unat i = unat b + 1\<close> b(2) by (simp add: word_le_nat_alt)
  ultimately show ?thesis using rs by (auto simp: allocated_ids_def)
qed

lemma index_wf_append:
  assumes "index_wf index highest" "highest < i" "length (ix_ranges index) < capacity"
    and "capacity = 16 \<or> capacity < 2 * length (ix_ranges index) + 2"
  shows "index_wf \<lparr> ix_ranges = ix_ranges index @ [(i, i)], ix_capacity = capacity \<rparr> i"
proof -
  have "snd r < i" if "r \<in> set (ix_ranges index)" for r
    using sorted_ranges_last [of "ix_ranges index" r] assms(1,2) that by (auto simp: index_wf_def split: if_splits)
  moreover have "0 < i" using assms(2) by (metis word_gt_0 word_not_simps(1))
  ultimately show ?thesis using assms by (auto simp: index_wf_def sorted_wrt_append)
qed

lemma allocated_append:
  "allocated_ids \<lparr> ix_ranges = ix_ranges index @ [(i, i)], ix_capacity = capacity \<rparr> = insert i (allocated_ids index)"
  by (auto simp: allocated_ids_def)

definition record_worker :: "faultline_wal_replay_state \<Rightarrow> u32 \<Rightarrow> faultline_wal_replay_state" where
  "record_worker state i =
     state\<lparr> rs_highest_worker_id := i, rs_workers := (rs_workers state)\<lparr> r_next_worker_id := next_id i \<rparr> \<rparr>"

lemma allocate_worker_Inr:
  assumes "index_wf index (rs_highest_worker_id state)" "allocate_worker alloc state index i w = (Inr (state', index'), w')"
  shows "rs_highest_worker_id state < i \<and> state' = record_worker state i \<and> index_wf index' i \<and>
    allocated_ids index' = insert i (allocated_ids index)"
proof -
  let ?ranges = "ix_ranges index"
  have i: "rs_highest_worker_id state < i" and state': "state' = record_worker state i"
    using assms(2)
    by (auto simp: allocate_worker_def record_worker_def Let_def not_le split: if_splits prod.splits)
  then have ni: "\<not> i \<le> rs_highest_worker_id state" by simp
  show ?thesis
  proof (cases "?ranges \<noteq> [] \<and> (ucast (snd (last ?ranges)) :: u64) + 1 = ucast i")
    case True
    then have "index' = index\<lparr> ix_ranges := butlast ?ranges @ [(fst (last ?ranges), i)] \<rparr>"
      using assms(2) ni by (simp add: allocate_worker_def Let_def)
    moreover have "snd (last ?ranges) = rs_highest_worker_id state" using assms(1) True by (simp add: index_wf_def)
    ultimately show ?thesis
      using True i state' index_wf_extend [OF assms(1) _ i] allocated_extend [OF assms(1), of i] by metis
  next
    case False
    let ?capacity = "if length ?ranges = ix_capacity index then if ix_capacity index = 0 then 16 else ix_capacity index * 2
      else ix_capacity index"
    have index': "index' = \<lparr> ix_ranges = ?ranges @ [(i, i)], ix_capacity = ?capacity \<rparr>"
      using assms(2) ni False
      by (cases index) (auto simp: allocate_worker_def Let_def split: if_splits prod.splits)
    have "length ?ranges < ?capacity" "?capacity = 16 \<or> ?capacity < 2 * length ?ranges + 2"
      using assms(1) by (auto simp: index_wf_def)
    from index_wf_append [OF assms(1) i this] allocated_append [of index i ?capacity]
    show ?thesis using i state' index' by simp
  qed
qed

lemma allocate_worker_accepts:
  assumes "index_wf index (rs_highest_worker_id state)" "rs_highest_worker_id state < i" "memory_available alloc"
  shows "\<exists>index' w'. allocate_worker alloc state index i w = (Inr (record_worker state i, index'), w')"
proof -
  have "ix_capacity index \<le> 2 ^ 33"
    using index_wf_length [OF assms(1)] assms(1) by (auto simp: index_wf_def)
  also have "\<dots> \<le> SIZE_MAX div 2 div sizeof_worker_range"
    by (simp add: SIZE_MAX_def sizeof_worker_range_def)
  finally have "\<not> ix_capacity index > SIZE_MAX div 2 div sizeof_worker_range" by simp
  moreover obtain w' where "alloc w = (True, w')" using assms(3) by (metis memory_available_def prod.collapse)
  moreover have "\<not> i \<le> rs_highest_worker_id state" using assms(2) by simp
  ultimately show ?thesis by (simp add: allocate_worker_def Let_def record_worker_def)
qed

section \<open>Snapshots\<close>

text \<open>
  Comparing the encoding of the candidate with the record's bytes is comparing the jobs: the codec
  is injective on valid records.
\<close>

lemma record_bytes_inj:
  "loggable r \<Longrightarrow> loggable r' \<Longrightarrow> wr_sequence r = wr_sequence r' \<Longrightarrow> record_bytes r = record_bytes r' \<Longrightarrow> r = r'"
  using decode_record_bytes [of r "[]"] decode_record_bytes [of r' "[]"] by simp

lemma matches_snapshot_iff:
  assumes "job_wf candidate" "loggable \<lparr> wr_sequence = seq, wr_payload = JOB_SNAPSHOT type saved \<rparr>"
  shows "matches_snapshot candidate seq type (record_bytes \<lparr> wr_sequence = seq, wr_payload = JOB_SNAPSHOT type saved \<rparr>) \<longleftrightarrow>
    candidate = saved"
proof
  let ?r = "\<lambda>j. \<lparr> wr_sequence = seq, wr_payload = JOB_SNAPSHOT type j \<rparr>"
  assume m: "matches_snapshot candidate seq type (record_bytes (?r saved))"
  then have "valid_job type candidate" by (simp add: matches_snapshot_def record_encode_Inr_iff)
  then have "loggable (?r candidate)"
    using assms job_wf_int64 by (simp add: loggable_def)
  moreover have "record_bytes (?r candidate) = record_bytes (?r saved)"
    using m record_encode_bytes by (metis matches_snapshot_def)
  ultimately show "candidate = saved" using record_bytes_inj [of "?r candidate" "?r saved"] assms(2) by simp
next
  assume "candidate = saved"
  then show "matches_snapshot candidate seq type (record_bytes \<lparr> wr_sequence = seq, wr_payload = JOB_SNAPSHOT type saved \<rparr>)"
    using loggable_encode [OF assms(2)] by (simp add: matches_snapshot_def)
qed

section \<open>The recovered state\<close>

text \<open>
  What holds of the state and the index between records: a well-formed scheduler, allocators just
  above the greatest identifiers seen, no live worker, and a time base no job is newer than.
\<close>

definition replay_wf :: "faultline_wal_replay_state \<Rightarrow> worker_index \<Rightarrow> bool" where
  "replay_wf state index \<longleftrightarrow>
     sched_wf (rs_scheduler state) \<and>
     s_next_job_id (rs_scheduler state) = next_id (rs_highest_job_id state) \<and>
     (\<forall>j \<in> set (s_jobs (rs_scheduler state)). j_updated_at_ms j \<le> rs_job_time_base_ms state) \<and>
     0 \<le> rs_job_time_base_ms state \<and> rs_job_time_base_ms state \<le> INT64_MAX \<and>
     rs_workers state = faultline_worker_registry_init\<lparr> r_next_worker_id := next_id (rs_highest_worker_id state) \<rparr> \<and>
     index_wf index (rs_highest_worker_id state)"

lemma next_id_zero [simp]: "next_id 0 = 1"
  by (simp add: next_id_def)

lemma replay_init_wf: "replay_wf replay_init empty_index"
  by (simp add: replay_wf_def replay_init_def sched_init_wf empty_index_wf)
    (simp add: faultline_scheduler_init_def faultline_worker_registry_init_def)

lemma replay_wf_record_worker:
  "replay_wf state index \<Longrightarrow> index_wf index' i \<Longrightarrow> replay_wf (record_worker state i) index'"
  by (simp add: replay_wf_def record_worker_def)

lemma replay_wf_sequence [simp]: "replay_wf (state\<lparr> rs_last_sequence := n \<rparr>) index \<longleftrightarrow> replay_wf state index"
  by (simp add: replay_wf_def)

lemma replay_wf_ids:
  assumes "replay_wf state index" "j \<in> set (s_jobs (rs_scheduler state))"
  shows "j_id j \<le> rs_highest_job_id state \<and> rs_highest_job_id state \<noteq> 0"
proof -
  have before: "id_before (j_id j) (next_id (rs_highest_job_id state))"
    using assms by (auto simp: replay_wf_def sched_wf_def)
  show ?thesis
  proof (cases "next_id (rs_highest_job_id state) = 0")
    case True
    then show ?thesis by (simp add: next_id_eq_zero_iff)
  next
    case False
    then have "j_id j \<le> rs_highest_job_id state" "j_id j \<noteq> 0"
      using before by (auto simp: id_before_def less_next_id_iff)
    then show ?thesis by auto
  qed
qed

lemma replay_wf_publish:
  assumes "replay_wf state index" "sched_wf s'" "s_next_job_id s' = s_next_job_id (rs_scheduler state)"
    and "s_jobs s' = (s_jobs (rs_scheduler state))[i := c]" "j_updated_at_ms c = now"
    and "rs_job_time_base_ms state \<le> now" "now \<le> INT64_MAX"
  shows "replay_wf (state\<lparr> rs_scheduler := s', rs_job_time_base_ms := now \<rparr>) index"
  using assms set_list_update_cases by (fastforce simp: replay_wf_def)

text \<open>A new job takes the first free slot.\<close>

lemma created_slot_is_count:
  assumes "replay_wf state index" "rs_highest_job_id state < i"
  shows "first_index (\<lambda>job. j_id job = i) (s_jobs (rs_scheduler state)) = length (s_jobs (rs_scheduler state))"
  using assms replay_wf_ids by (fastforce simp: first_index_eq_length_iff)

section \<open>Records and scheduler operations\<close>

text \<open>
  Replaying an outcome record publishes the job the way the scheduler does; this is the equation
  both directions use, from live operation to record and from record to operation.
\<close>

lemma replay_pending_publish:
  assumes "type \<noteq> WAL_JOB_ASSIGNED"
  shows "(case replay_pending (s_pending s) type c i of
      None \<Rightarrow> None
    | Some pending \<Rightarrow> Some (s\<lparr> s_pending := pending, s_jobs := (s_jobs s)[slot := c] \<rparr>)) =
    (case publish_outcome s slot c of Inl _ \<Rightarrow> None | Inr s' \<Rightarrow> Some s')"
  using assms by (cases s) (auto simp: replay_pending_def publish_outcome_def split: sum.splits)

text \<open>The record of a job after a step from an active state is replayed by the same step.\<close>

lemma job_step_requeued: "job_step j c \<Longrightarrow> j_state c = JOB_QUEUED \<Longrightarrow> j_retry_count c \<noteq> 0"
  using inc_below [of "j_retry_count j" "j_max_retries j"]
  by (auto elim!: job_stepE simp: outcome_simps failed_job_def split: if_splits)

lemma step_record_loggable:
  assumes "job_wf c" "job_step j c" "seq \<noteq> 0"
  shows "loggable \<lparr> wr_sequence = seq, wr_payload = JOB_SNAPSHOT (state_event (j_state c)) c \<rparr>"
  using assms job_wf_valid [OF assms(1)] job_step_requeued [OF assms(2)] job_wf_int64 by (simp add: loggable_def)

lemma replay_candidate_step:
  assumes "job_step (s_jobs (rs_scheduler state) ! i) c" "job_active (s_jobs (rs_scheduler state) ! i)"
    and "i < length (s_jobs (rs_scheduler state))"
  shows "replay_candidate state index (state_event (j_state c)) c i = Inr (Inr c)"
  using assms(1)
proof cases
  case (assign w now)
  then show ?thesis using assms(2) by (simp add: job_assign_Inr_iff job_active_def)
next
  case (begin_run w a now)
  then have "j_state c = JOB_RUNNING" "j_worker_id c = w" "j_attempt c = a" "j_updated_at_ms c = now"
    by (auto simp: job_start_Inr_iff)
  then show ?thesis using assms(3) begin_run by (simp add: replay_candidate_def Let_def)
next
  case (complete w a data n now)
  then have "j_state c = JOB_DONE" "j_worker_id c = w" "j_attempt c = a" "j_updated_at_ms c = now"
    by (auto simp: job_complete_Inr_iff)
  moreover have "faultline_job_complete (s_jobs (rs_scheduler state) ! i) w a (Some (j_result c)) (length (j_result c)) now = Inr c"
    using complete(1) length_copied_bytes [of data n] by (auto simp: job_complete_Inr_iff copied_bytes_def)
  ultimately show ?thesis using assms(3) by (simp add: replay_candidate_def Let_def)
next
  case (fail w a f now)
  then have "w = j_worker_id (s_jobs (rs_scheduler state) ! i)" "j_attempt c = a" "j_failure c = f" "j_updated_at_ms c = now"
    "j_state c = JOB_QUEUED \<or> j_state c = JOB_FAILED"
    by (auto simp: job_fail_Inr_iff)
  then show ?thesis using assms(3) fail(1) by (auto simp: replay_candidate_def Let_def)
qed

lemma apply_outcome:
  assumes wf: "replay_wf state index" "seq \<noteq> 0"
    and i: "i < length (s_jobs (rs_scheduler state))" "job_active (s_jobs (rs_scheduler state) ! i)"
    and c: "job_step (s_jobs (rs_scheduler state) ! i) c" "rs_job_time_base_ms state \<le> j_updated_at_ms c"
    and s': "publish_outcome (rs_scheduler state) i c = Inr s'"
  shows "apply_job_record state index seq (state_event (j_state c)) c
      (record_bytes \<lparr> wr_sequence = seq, wr_payload = JOB_SNAPSHOT (state_event (j_state c)) c \<rparr>) =
    Inr (state\<lparr> rs_scheduler := s', rs_job_time_base_ms := j_updated_at_ms c \<rparr>)"
proof -
  let ?s = "rs_scheduler state"
  have swf: "sched_wf ?s" using wf(1) by (simp add: replay_wf_def)
  have cwf: "job_wf c" using jobs.step_inv [OF _ c(1)] sched_wf_job [OF swf nth_mem [OF i(1)]] by blast
  have slot: "first_index (\<lambda>job. j_id job = j_id c) (s_jobs ?s) = i"
    using sched_find_slot [OF swf i(1)] job_step_id [OF c(1)] by (simp add: Scheduler.find_slot_def)
  have active: "state_event (j_state c) \<noteq> WAL_JOB_ASSIGNED" "state_event (j_state c) \<noteq> WAL_JOB_CREATED"
    using job_step_transition [OF c(1)] i(2) by (cases "j_state c"; auto simp: can_transition_iff job_active_def)+
  have "matches_snapshot c seq (state_event (j_state c))
      (record_bytes \<lparr> wr_sequence = seq, wr_payload = JOB_SNAPSHOT (state_event (j_state c)) c \<rparr>)"
    using matches_snapshot_iff [OF cwf step_record_loggable [OF cwf c(1) wf(2)]] by simp
  moreover from replay_pending_publish [OF active(1), where s = ?s and slot = i and c = c and i = "j_id c"] s'
  obtain p where "replay_pending (s_pending ?s) (state_event (j_state c)) c (j_id c) = Some p"
    "s' = ?s\<lparr> s_pending := p, s_jobs := (s_jobs ?s)[i := c] \<rparr>"
    by (auto split: option.splits)
  ultimately show ?thesis
    using c(2) slot active(2) replay_candidate_step [OF c(1) i(2,1), of index]
    by (simp add: apply_job_record_def Let_def)
qed

lemma apply_created:
  assumes wf: "replay_wf state index" "seq \<noteq> 0"
    and s': "faultline_scheduler_submit (rs_scheduler state) p now = Inr (i, s')"
    and now: "rs_job_time_base_ms state \<le> now" "now \<le> INT64_MAX"
  shows "\<exists>job. faultline_scheduler_find s' i = Some job \<and> j_updated_at_ms job = now \<and>
    loggable \<lparr> wr_sequence = seq, wr_payload = JOB_SNAPSHOT WAL_JOB_CREATED job \<rparr> \<and>
    apply_job_record state index seq WAL_JOB_CREATED job
      (record_bytes \<lparr> wr_sequence = seq, wr_payload = JOB_SNAPSHOT WAL_JOB_CREATED job \<rparr>) =
    Inr (state\<lparr> rs_scheduler := s', rs_highest_job_id := i, rs_job_time_base_ms := now \<rparr>)"
proof -
  let ?s = "rs_scheduler state"
  have swf: "sched_wf ?s" and nxt: "s_next_job_id ?s = next_id (rs_highest_job_id state)"
    using wf(1) by (auto simp: replay_wf_def)
  from submit_Inr [OF swf s' now(2)] obtain job where
    job: "i = s_next_job_id ?s" "i \<noteq> 0" "sched_wf s'" "s_jobs s' = s_jobs ?s @ [job]" "j_id job = i"
    and init: "faultline_job_init i (task_of_code (sub_task_type p)) (Some (sub_arguments p)) (sub_argument_size p)
       (sub_max_retries p) now = Inr job"
    by metis
  from s' job(1,2) obtain pending where push: "faultline_job_queue_push (s_pending ?s) job = Inr pending"
    and s'_eq: "s' = \<lparr> s_jobs = s_jobs ?s @ [job], s_next_job_id = next_id i, s_pending = pending \<rparr>"
    and room: "length (s_jobs ?s) \<noteq> FAULTLINE_JOB_STORE_CAPACITY"
    using init job(5) by (auto simp: faultline_scheduler_submit_def split: if_splits sum.splits)
  have above: "rs_highest_job_id state < i" using nxt job(1,2) less_next_id by metis
  have jwf: "job_wf job" using init now(2) by (rule job_init_wf)
  have log: "loggable \<lparr> wr_sequence = seq, wr_payload = JOB_SNAPSHOT WAL_JOB_CREATED job \<rparr>"
    using wf(2) job_wf_valid_created [OF jwf] job_wf_int64 [OF jwf] init by (auto simp: loggable_def job_init_Inr_iff)
  have "faultline_scheduler_find s' i = Some job" using job by (simp add: find_Some_iff)
  moreover have "replay_candidate state index WAL_JOB_CREATED job (length (s_jobs ?s)) = Inr (Inr job)"
    using above room init by (auto simp: replay_candidate_def Let_def job_init_Inr_iff copied_bytes_def not_le)
  moreover have "matches_snapshot job seq WAL_JOB_CREATED
      (record_bytes \<lparr> wr_sequence = seq, wr_payload = JOB_SNAPSHOT WAL_JOB_CREATED job \<rparr>)"
    using matches_snapshot_iff [OF jwf log] by simp
  moreover have "replay_pending (s_pending ?s) WAL_JOB_CREATED job i = Some pending"
    using push init by (auto simp: replay_pending_def job_init_Inr_iff)
  moreover have "j_updated_at_ms job = now" using init by (auto simp: job_init_Inr_iff)
  ultimately show ?thesis
    using log now(1) job(5) s'_eq created_slot_is_count [OF wf(1) above]
    by (intro exI [of _ job]) (simp add: apply_job_record_def Let_def)
qed

lemma apply_assigned:
  assumes wf: "replay_wf state index" "seq \<noteq> 0"
    and s': "faultline_scheduler_assign (rs_scheduler state) worker now = Inr (m, s')"
    and now: "rs_job_time_base_ms state \<le> now" "now \<le> INT64_MAX"
    and worker: "worker \<in> allocated_ids index"
  shows "\<exists>job. faultline_scheduler_find s' (j_id job) = Some job \<and> j_updated_at_ms job = now \<and> m = assignment_message job worker \<and>
    loggable \<lparr> wr_sequence = seq, wr_payload = JOB_SNAPSHOT WAL_JOB_ASSIGNED job \<rparr> \<and>
    apply_job_record state index seq WAL_JOB_ASSIGNED job
      (record_bytes \<lparr> wr_sequence = seq, wr_payload = JOB_SNAPSHOT WAL_JOB_ASSIGNED job \<rparr>) =
    Inr (state\<lparr> rs_scheduler := s', rs_job_time_base_ms := now \<rparr>)"
proof -
  let ?s = "rs_scheduler state"
  have swf: "sched_wf ?s" and iwf: "index_wf index (rs_highest_worker_id state)" using wf(1) by (auto simp: replay_wf_def)
  from assign_Inr [OF swf s' now(2)] obtain k c where
    k: "worker \<noteq> 0" "0 \<le> now" "faultline_scheduler_active ?s worker = None"
      "queue_contents (s_pending ?s) = k # queue_contents (s_pending s')"
      "Scheduler.find_slot ?s k < length (s_jobs ?s)" "j_id (s_jobs ?s ! Scheduler.find_slot ?s k) = k"
    and c: "faultline_job_assign (s_jobs ?s ! Scheduler.find_slot ?s k) worker now = Inr c" "m = assignment_message c worker"
    and jobs: "s_jobs s' = (s_jobs ?s)[Scheduler.find_slot ?s k := c]" "sched_wf s'"
    by metis
  have inv: "queue_inv (s_pending ?s)" using swf by (simp add: sched_wf_def)
  obtain q where q: "faultline_job_queue_peek (s_pending ?s) = Inr k" "faultline_job_queue_pop (s_pending ?s) = Inr (k, q)"
    using queue_pop_inv [OF inv k(4)] by (auto simp: faultline_job_queue_pop_def split: sum.splits)
  have s'_eq: "s' = ?s\<lparr> s_pending := q, s_jobs := (s_jobs ?s)[Scheduler.find_slot ?s k := c] \<rparr>"
    using s' k c q by (simp add: faultline_scheduler_assign_def Let_def)
  have step: "job_step (s_jobs ?s ! Scheduler.find_slot ?s k) c" using c(1) now(2) by (rule job_step.assign)
  have id: "j_id c = k" using job_step_id [OF step] k(6) by simp
  have cwf: "job_wf c" using job_assign_wf [OF c(1) _ now(2)] sched_wf_job [OF swf nth_mem [OF k(5)]] by blast
  have fields: "j_state c = JOB_ASSIGNED" "j_worker_id c = worker" "j_updated_at_ms c = now"
    using c(1) by (auto simp: job_assign_Inr_iff)
  have log: "loggable \<lparr> wr_sequence = seq, wr_payload = JOB_SNAPSHOT WAL_JOB_ASSIGNED c \<rparr>"
    using step_record_loggable [OF cwf step wf(2)] fields by simp
  have "faultline_scheduler_find s' (j_id c) = Some c"
    using jobs k(5) by (auto simp: find_Some_iff set_update_memI)
  moreover have "replay_candidate state index WAL_JOB_ASSIGNED c (Scheduler.find_slot ?s k) = Inr (Inr c)"
    using k c q id fields worker worker_was_allocated_iff [OF iwf] by (simp add: replay_candidate_def Let_def)
  moreover have "matches_snapshot c seq WAL_JOB_ASSIGNED
      (record_bytes \<lparr> wr_sequence = seq, wr_payload = JOB_SNAPSHOT WAL_JOB_ASSIGNED c \<rparr>)"
    using matches_snapshot_iff [OF cwf log] by simp
  moreover have "replay_pending (s_pending ?s) WAL_JOB_ASSIGNED c k = Some q"
    using q by (simp add: replay_pending_def)
  ultimately show ?thesis
    using log now(1) c(2) id fields s'_eq
    by (intro exI [of _ c]) (simp add: apply_job_record_def Let_def Scheduler.find_slot_def [symmetric])
qed

text \<open>Conversely, an accepted record is a step of the scheduler, so the state stays well formed.\<close>

lemma replay_candidate_cases:
  assumes "replay_candidate state index type saved slot = Inr (Inr c)" "int64_times saved"
  obtains (created) "type = WAL_JOB_CREATED" "rs_highest_job_id state < j_id saved"
      "length (s_jobs (rs_scheduler state)) \<noteq> FAULTLINE_JOB_STORE_CAPACITY"
      "faultline_job_init (j_id saved) (Some (j_task_type saved)) (Some (j_arguments saved))
         (length (j_arguments saved)) (j_max_retries saved) (j_created_at_ms saved) = Inr c"
    | (assigned) "type = WAL_JOB_ASSIGNED" "slot \<noteq> length (s_jobs (rs_scheduler state))"
      "worker_was_allocated index (j_worker_id saved)"
      "faultline_scheduler_active (rs_scheduler state) (j_worker_id saved) = None"
      "faultline_job_queue_peek (s_pending (rs_scheduler state)) = Inr (j_id saved)"
      "faultline_job_assign (s_jobs (rs_scheduler state) ! slot) (j_worker_id saved) (j_updated_at_ms saved) = Inr c"
    | (stepped) "type \<noteq> WAL_JOB_CREATED" "type \<noteq> WAL_JOB_ASSIGNED" "slot \<noteq> length (s_jobs (rs_scheduler state))"
      "job_active (s_jobs (rs_scheduler state) ! slot)" "job_step (s_jobs (rs_scheduler state) ! slot) c"
proof (cases "type = WAL_JOB_CREATED")
  case True
  then show ?thesis using assms(1) by (intro created) (auto simp: replay_candidate_def Let_def split: if_splits)
next
  case False
  then have slot: "slot \<noteq> length (s_jobs (rs_scheduler state))"
    using assms(1) by (auto simp: replay_candidate_def Let_def)
  have now: "j_updated_at_ms saved \<le> INT64_MAX" using assms(2) by (simp add: int64_times_def)
  note cand = assms(1) [unfolded replay_candidate_def Let_def] False slot
  show ?thesis
  proof (cases type)
    case WAL_JOB_ASSIGNED
    then show ?thesis using cand by (intro assigned) (auto split: if_splits)
  next
    case WAL_JOB_STARTED
    then have "faultline_job_start (s_jobs (rs_scheduler state) ! slot) (j_worker_id saved) (j_attempt saved) (j_updated_at_ms saved) = Inr c"
      using cand by simp
    then show ?thesis using WAL_JOB_STARTED slot job_step.begin_run [OF _ now]
      by (intro stepped) (auto simp: job_start_Inr_iff job_active_def)
  next
    case WAL_JOB_COMPLETED
    then have "faultline_job_complete (s_jobs (rs_scheduler state) ! slot) (j_worker_id saved) (j_attempt saved)
        (Some (j_result saved)) (length (j_result saved)) (j_updated_at_ms saved) = Inr c"
      using cand by simp
    then show ?thesis using WAL_JOB_COMPLETED slot job_step.complete [OF _ now]
      by (intro stepped) (auto simp: job_complete_Inr_iff job_active_def)
  next
    case WAL_JOB_CREATED
    with False show ?thesis by simp
  next
    case WAL_JOB_REQUEUED
    then have "faultline_job_fail (s_jobs (rs_scheduler state) ! slot) (j_worker_id (s_jobs (rs_scheduler state) ! slot))
        (j_attempt saved) (j_failure saved) (j_updated_at_ms saved) = Inr c"
      using cand by simp
    then show ?thesis using WAL_JOB_REQUEUED slot job_step.fail [OF _ now]
      by (intro stepped) (auto simp: job_fail_Inr_iff job_active_def)
  next
    case WAL_JOB_FAILED
    then have "faultline_job_fail (s_jobs (rs_scheduler state) ! slot) (j_worker_id (s_jobs (rs_scheduler state) ! slot))
        (j_attempt saved) (j_failure saved) (j_updated_at_ms saved) = Inr c"
      using cand by simp
    then show ?thesis using WAL_JOB_FAILED slot job_step.fail [OF _ now]
      by (intro stepped) (auto simp: job_fail_Inr_iff job_active_def)
  qed
qed

lemma sched_wf_raise_next:
  assumes "sched_wf s" "\<forall>j \<in> set (s_jobs s). j_id j < n"
  shows "sched_wf (s\<lparr> s_next_job_id := n \<rparr>)"
  using assms by (auto simp: sched_wf_def id_before_def)

lemma apply_job_record_wf:
  assumes wf: "replay_wf state index"
    and log: "loggable \<lparr> wr_sequence = seq, wr_payload = JOB_SNAPSHOT type saved \<rparr>"
    and run: "apply_job_record state index seq type saved
      (record_bytes \<lparr> wr_sequence = seq, wr_payload = JOB_SNAPSHOT type saved \<rparr>) = Inr state'"
  shows "replay_wf state' index"
proof -
  let ?s = "rs_scheduler state"
  let ?slot = "first_index (\<lambda>job. j_id job = j_id saved) (s_jobs ?s)"
  let ?wire = "record_bytes \<lparr> wr_sequence = seq, wr_payload = JOB_SNAPSHOT type saved \<rparr>"
  have swf: "sched_wf ?s" using wf by (simp add: replay_wf_def)
  have times: "int64_times saved" "j_updated_at_ms saved \<le> INT64_MAX" "j_created_at_ms saved \<le> INT64_MAX"
    using log by (auto simp: loggable_def int64_times_def)
  from run obtain c pending where base: "rs_job_time_base_ms state \<le> j_updated_at_ms saved"
    and cand: "replay_candidate state index type saved ?slot = Inr (Inr c)"
    and snap: "matches_snapshot c seq type ?wire"
    and pending: "replay_pending (s_pending ?s) type c (j_id saved) = Some pending"
    and state': "state' = (if type = WAL_JOB_CREATED
      then state\<lparr> rs_scheduler := \<lparr> s_jobs = (s_jobs ?s @ [c])[?slot := c], s_next_job_id = next_id (j_id saved),
             s_pending = pending \<rparr>, rs_highest_job_id := j_id saved, rs_job_time_base_ms := j_updated_at_ms saved \<rparr>
      else state\<lparr> rs_scheduler := ?s\<lparr> s_pending := pending, s_jobs := (s_jobs ?s)[?slot := c] \<rparr>,
             rs_job_time_base_ms := j_updated_at_ms saved \<rparr>)"
    by (auto simp: apply_job_record_def Let_def not_less split: if_splits sum.splits option.splits)
  have slot: "?slot < length (s_jobs ?s)" "s_jobs ?s ! ?slot \<in> set (s_jobs ?s)" if "?slot \<noteq> length (s_jobs ?s)"
  proof -
    show "?slot < length (s_jobs ?s)" using that first_index_le le_neq_implies_less by blast
    then show "s_jobs ?s ! ?slot \<in> set (s_jobs ?s)" by simp
  qed
  from cand times(1) show ?thesis
  proof (cases rule: replay_candidate_cases)
    case created
    have "job_wf c" using created(4) times(3) by (rule job_init_wf)
    then have "c = saved" using snap matches_snapshot_iff [OF _ log] by simp
    let ?p = "\<lparr> sub_task_type = task_code (j_task_type saved), sub_max_retries = j_max_retries saved,
      sub_argument_size = length (j_arguments saved), sub_arguments = j_arguments saved \<rparr>"
    let ?t = "?s\<lparr> s_next_job_id := j_id saved \<rparr>"
    let ?s' = "\<lparr> s_jobs = s_jobs ?s @ [c], s_next_job_id = next_id (j_id saved), s_pending = pending \<rparr>"
    have init: "j_id saved \<noteq> 0" "0 \<le> j_created_at_ms saved" "j_state c = JOB_QUEUED" "j_id c = j_id saved"
      "j_updated_at_ms c = j_created_at_ms saved"
      using created(4) by (auto simp: job_init_Inr_iff)
    have "faultline_job_queue_push (s_pending ?s) c = Inr pending"
      using pending created(1) init(3) by (auto simp: replay_pending_def split: sum.splits)
    then have "faultline_scheduler_submit ?t ?p (j_created_at_ms saved) = Inr (j_id saved, ?s')"
      using created init by (simp add: faultline_scheduler_submit_def)
    moreover have "sched_wf ?t"
      using created(2) replay_wf_ids [OF wf] by (intro sched_wf_raise_next [OF swf]) fastforce
    ultimately have "sched_wf ?s'" using submit_Inr [of ?t ?p "j_created_at_ms saved" "j_id saved" ?s'] times(3) by metis
    then show ?thesis
      using wf base times state' created(1) created_slot_is_count [OF wf created(2)] \<open>c = saved\<close> init
      by (auto simp: replay_wf_def list_update_append)
  next
    case assigned
    note slot = slot [OF assigned(2)]
    have cwf: "job_wf c" using job_assign_wf [OF assigned(6) _ times(2)] sched_wf_job [OF swf slot(2)] by blast
    have saved: "j_updated_at_ms c = j_updated_at_ms saved" using assigned(6) by (auto simp: job_assign_Inr_iff)
    let ?s' = "?s\<lparr> s_pending := pending, s_jobs := (s_jobs ?s)[?slot := c] \<rparr>"
    have "faultline_job_queue_pop (s_pending ?s) = Inr (j_id saved, pending)"
      using pending assigned(1) by (auto simp: replay_pending_def split: sum.splits if_splits)
    then have "faultline_scheduler_assign ?s (j_worker_id saved) (j_updated_at_ms saved) =
        Inr (assignment_message c (j_worker_id saved), ?s')"
      using assigned job_assign_Inr_iff [THEN iffD1, OF assigned(6)]
      by (simp add: faultline_scheduler_assign_def Let_def Scheduler.find_slot_def)
    from assign_Inr [OF swf this times(2)] have "sched_wf ?s'" by metis
    then show ?thesis
      using replay_wf_publish [OF wf _ _ _ saved base times(2), of ?s' ?slot] state' assigned(1) by simp
  next
    case stepped
    note slot = slot [OF stepped(3)]
    have cwf: "job_wf c" using jobs.step_inv [OF sched_wf_job [OF swf slot(2)] stepped(5)] .
    then have "c = saved" using snap matches_snapshot_iff [OF _ log] by simp
    let ?s' = "?s\<lparr> s_pending := pending, s_jobs := (s_jobs ?s)[?slot := c] \<rparr>"
    have "publish_outcome ?s ?slot c = Inr ?s'"
      using replay_pending_publish [OF stepped(2), where s = ?s and slot = ?slot and c = c and i = "j_id saved"] pending
      by (auto split: sum.splits)
    then have "sched_wf ?s'"
      using publish_outcome_active [OF swf slot(1) stepped(4) cwf job_step_id [OF stepped(5)] active_step_worker [OF stepped(5,4)]]
      by auto
    then show ?thesis
      using replay_wf_publish [OF wf _ _ _ refl _ times(2), of ?s' ?slot] base state' stepped(1) \<open>c = saved\<close> by simp
  qed
qed

lemma apply_record_wf:
  assumes "replay_wf state index" "loggable r"
    and "apply_record alloc state index r (record_bytes r) w = (Inr (state', index'), w')"
  shows "replay_wf state' index'"
proof (cases "wr_payload r")
  case (WORKER_ID i)
  then show ?thesis
    using assms allocate_worker_Inr [of index state alloc i w state' index' w'] replay_wf_record_worker
    by (auto simp: apply_record_def replay_wf_def)
next
  case (JOB_SNAPSHOT type saved)
  then have r: "r = \<lparr> wr_sequence = wr_sequence r, wr_payload = JOB_SNAPSHOT type saved \<rparr>" by simp
  from assms(3) JOB_SNAPSHOT have run: "apply_job_record state index (wr_sequence r) type saved (record_bytes r) = Inr state'"
    "index' = index"
    by (auto simp: apply_record_def map_sum_def split: sum.splits)
  show ?thesis using apply_job_record_wf [OF assms(1), of "wr_sequence r" type saved state'] run assms(2) r by metis
qed

section \<open>What reading promises\<close>

text \<open>
  The documented behaviour of the calls recovery makes on the log's descriptor \<open>fd\<close> and its
  directory's descriptor \<open>dfd\<close>, next to that of appends: a read returns the bytes at the position, and
  none only at the end of the file; a truncation leaves a prefix of the requested length, and may have
  done so even when it reports an error; the other calls leave the file alone.
\<close>

definition reading_file ::
  "'w faultline_wal_writer_io \<Rightarrow> int \<Rightarrow> ('w \<Rightarrow> bytes) \<Rightarrow> ('w \<Rightarrow> bytes) \<Rightarrow> ('w \<Rightarrow> nat) \<Rightarrow> bool" where
  "reading_file io fd file durable pos \<longleftrightarrow>
     (\<forall>n w r w'. io_read io fd n w = (r, w') \<longrightarrow> file w' = file w \<and> durable w' = durable w \<and>
        (case r of
           Inl _ \<Rightarrow> pos w' = pos w
         | Inr b \<Rightarrow> length b \<le> n \<and> b = take (length b) (drop (pos w) (file w)) \<and> pos w' = pos w + length b \<and>
             (b = [] \<and> 0 < n \<longrightarrow> length (file w) \<le> pos w))) \<and>
     (\<forall>w b w'. os_allocate io w = (b, w') \<longrightarrow> file w' = file w \<and> durable w' = durable w \<and> pos w' = pos w)"

definition recovering_file ::
  "'w faultline_wal_writer_io \<Rightarrow> int \<Rightarrow> int \<Rightarrow> ('w \<Rightarrow> bytes) \<Rightarrow> ('w \<Rightarrow> bytes) \<Rightarrow> ('w \<Rightarrow> nat) \<Rightarrow> bool" where
  "recovering_file io fd dfd file durable pos \<longleftrightarrow>
     appending_file io fd file durable \<and> reading_file io fd file durable pos \<and>
     (\<forall>n w r w'. io_truncate io fd n w = (r, w') \<longrightarrow>
        (case r of
           Inl _ \<Rightarrow> file w' = file w \<or> file w' = take n (file w)
         | Inr _ \<Rightarrow> file w' = take n (file w)) \<and>
        (prefix (durable w) (take n (file w)) \<longrightarrow> durable w' = durable w)) \<and>
     (\<forall>w r w'. io_sync io dfd w = (r, w') \<longrightarrow> file w' = file w \<and> durable w' = durable w)"

text \<open>Opening: the calls give these descriptors, at the start of the file; creating starts it empty.\<close>

definition opening_file ::
  "'w faultline_wal_writer_io \<Rightarrow> int \<Rightarrow> int \<Rightarrow> ('w \<Rightarrow> bytes) \<Rightarrow> ('w \<Rightarrow> bytes) \<Rightarrow> ('w \<Rightarrow> nat) \<Rightarrow> bool" where
  "opening_file io fd dfd file durable pos \<longleftrightarrow>
     (\<forall>w b w'. os_allocate io w = (b, w') \<longrightarrow> file w' = file w \<and> durable w' = durable w) \<and>
     (\<forall>path w r w'. os_open_directory io path w = (r, w') \<longrightarrow>
        file w' = file w \<and> durable w' = durable w \<and> (\<forall>d. r = Inr d \<longrightarrow> d = dfd)) \<and>
     (\<forall>name create w r w'. os_openat io dfd name create w = (r, w') \<longrightarrow>
        (case r of
           Inl _ \<Rightarrow> file w' = file w \<and> durable w' = durable w
         | Inr d \<Rightarrow> d = fd \<and> pos w' = 0 \<and>
             (if create then file w' = [] \<and> durable w' = [] else file w' = file w \<and> durable w' = durable w))) \<and>
     (\<forall>w r w'. os_fstat_regular io fd w = (r, w') \<longrightarrow> file w' = file w \<and> durable w' = durable w \<and> pos w' = pos w) \<and>
     (\<forall>w r w'. io_lock io fd w = (r, w') \<longrightarrow> file w' = file w \<and> durable w' = durable w \<and> pos w' = pos w)"

lemma reading_readD:
  "reading_file io fd file durable pos \<Longrightarrow> io_read io fd n w = (r, w') \<Longrightarrow> file w' = file w \<and> durable w' = durable w \<and>
     (case r of
        Inl _ \<Rightarrow> pos w' = pos w
      | Inr b \<Rightarrow> length b \<le> n \<and> b = take (length b) (drop (pos w) (file w)) \<and> pos w' = pos w + length b \<and>
          (b = [] \<and> 0 < n \<longrightarrow> length (file w) \<le> pos w))"
  unfolding reading_file_def by blast

lemma reading_allocateD:
  "reading_file io fd file durable pos \<Longrightarrow> os_allocate io w = (b, w') \<Longrightarrow>
     file w' = file w \<and> durable w' = durable w \<and> pos w' = pos w"
  unfolding reading_file_def by blast

lemma recoveringD:
  "recovering_file io fd dfd file durable pos \<Longrightarrow> appending_file io fd file durable \<and> reading_file io fd file durable pos"
  by (simp add: recovering_file_def)

section \<open>Reading exactly\<close>

lemma read_loop_induct [consumes 1, case_names finished interrupted failed at_end oversized progress]:
  assumes "read_loop call wanted received w = Some y"
    and "\<And>received w. \<not> length received < wanted \<Longrightarrow> P received w (Inr received, w)"
    and "\<And>received w v y. length received < wanted \<Longrightarrow> call (wanted - length received) w = (Inl EINTR, v) \<Longrightarrow>
      P received v y \<Longrightarrow> P received w y"
    and "\<And>received w e v. length received < wanted \<Longrightarrow> call (wanted - length received) w = (Inl e, v) \<Longrightarrow> e \<noteq> EINTR \<Longrightarrow>
      P received w (Inl e, v)"
    and "\<And>received w v. length received < wanted \<Longrightarrow> call (wanted - length received) w = (Inr [], v) \<Longrightarrow>
      P received w (Inr received, v)"
    and "\<And>received w b v. length received < wanted \<Longrightarrow> call (wanted - length received) w = (Inr b, v) \<Longrightarrow>
      length b > wanted - length received \<Longrightarrow> P received w (Inl EIO, v)"
    and "\<And>received w b v y. length received < wanted \<Longrightarrow> call (wanted - length received) w = (Inr b, v) \<Longrightarrow> b \<noteq> [] \<Longrightarrow>
      length b \<le> wanted - length received \<Longrightarrow> P (received @ b) v y \<Longrightarrow> P received w y"
  shows "P received w y"
proof -
  have "call' = call \<longrightarrow> n = wanted \<longrightarrow> P received w y" if "read_loop call' n received w = Some y" for call' n
    using that
  proof (rule read_loop.raw_induct [rotated], goal_cases)
    case (1 loop call' n received w y)
    obtain r v where call: "call' (n - length received) w = (r, v)" by fastforce
    show ?case
    proof (cases "length received < n")
      case False
      then show ?thesis using 1(2) assms(2) by auto
    next
      case True
      show ?thesis
      proof (cases r)
        case (Inl e)
        then show ?thesis
          using True 1(1) [of call' n received v y] 1(2) call assms(3) [of received w v y] assms(4) [of received w e v]
          by (cases "e = EINTR") auto
      next
        case (Inr b)
        then show ?thesis
          using True 1(1) [of call' n "received @ b" v y] 1(2) call assms(5) [of received w v]
            assms(6) [of received w b v] assms(7) [of received w b v y]
          by (cases "b = []"; cases "length b > n - length received") auto
      qed
    qed
  qed
  then show ?thesis using assms(1) by blast
qed

lemma read_loop_file:
  assumes "reading_file io fd file durable pos" "read_loop (io_read io fd) wanted received w = Some (r, w')"
    "length received \<le> wanted"
  shows "file w' = file w \<and> durable w' = durable w \<and>
    (\<forall>b. r = Inr b \<longrightarrow> b = received @ take (wanted - length received) (drop (pos w) (file w)) \<and>
       pos w' = pos w + (length b - length received))"
  using assms(2,3)
proof (induction received w "(r, w')" rule: read_loop_induct)
  case (interrupted received w v)
  then show ?case using reading_readD [OF assms(1) interrupted(2)] by auto
next
  case (failed received w e)
  then show ?case using reading_readD [OF assms(1) failed(2)] by auto
next
  case (at_end received w)
  then show ?case using reading_readD [OF assms(1) at_end(2)] by auto
next
  case (oversized received w b)
  then show ?case using reading_readD [OF assms(1) oversized(2)] by auto
next
  case (progress received w b v)
  have rd: "file v = file w" "durable v = durable w" "b = take (length b) (drop (pos w) (file w))" "pos v = pos w + length b"
    using reading_readD [OF assms(1) progress(2)] by auto
  have split: "wanted - length received = length b + (wanted - length (received @ b))" using progress(4) by simp
  have "take (wanted - length received) (drop (pos w) (file w)) = b @ take (wanted - length (received @ b)) (drop (pos v) (file v))"
    unfolding split take_add using rd by (simp add: add.commute)
  moreover have "length (received @ b) \<le> wanted" using progress(1,4) by simp
  ultimately show ?case using progress(5) rd by auto
qed auto

lemma read_exact_file:
  assumes "reading_file io (wal_fd writer) file durable pos" "read_exact io writer n w = Some (r, w')"
  shows "file w' = file w \<and> durable w' = durable w \<and>
    (case r of
       Inl writer' \<Rightarrow> \<exists>e. writer' = faultline_wal_writer_fail writer IO_READ_FILE e
     | Inr b \<Rightarrow> b = take n (drop (pos w) (file w)) \<and> pos w' = pos w + length b)"
proof -
  obtain q where "read_loop (io_read io (wal_fd writer)) n [] w = Some (q, w')"
    "r = map_sum (faultline_wal_writer_fail writer IO_READ_FILE) id q"
    using assms(2) by (auto simp: read_exact_def bind_eq_Some_conv)
  with read_loop_file [OF assms(1) this(1)] show ?thesis by (cases q) auto
qed

section \<open>Rounds of the loop\<close>

text \<open>
  One round as a function of the bytes that are left, for reads that do not fail and memory that
  does not run out.
\<close>

fun replay_step :: "faultline_wal_writer \<Rightarrow> history \<Rightarrow> bytes \<Rightarrow> history_result + history" where
  "replay_step writer (state, index, report0) rest =
     (let report = report0\<lparr> rp_error_offset := rp_valid_bytes report0 \<rparr> in
      if rest = [] then Inl (Inr state, writer, report)
      else if rs_last_sequence state = - 1 then Inl (Inl (REPLAY_BAD_FORMAT WAL_INVALID_SEQUENCE), writer, report)
      else if length rest < FAULTLINE_WAL_RECORD_HEADER_SIZE
      then Inl (Inr state, writer, report\<lparr> rp_tail_bytes := length rest \<rparr>)
      else
        (case faultline_wal_record_header_decode rest (rs_last_sequence state + 1) of
           Inl e \<Rightarrow> Inl (Inl (REPLAY_BAD_FORMAT e), writer, report)
         | Inr header \<Rightarrow>
             if length rest < FAULTLINE_WAL_RECORD_HEADER_SIZE + unat (wh_payload_length header)
             then Inl (Inr state, writer, report\<lparr> rp_tail_bytes := length rest \<rparr>)
             else fst (replay_wire (Pair True) writer (state, index, report) (rs_last_sequence state + 1)
                    (take (FAULTLINE_WAL_RECORD_HEADER_SIZE + unat (wh_payload_length header)) rest) ())))"

lemma allocate_worker_memory:
  assumes "memory_available alloc"
  shows "fst (allocate_worker alloc state index i w) = fst (allocate_worker (Pair True) state index i ())"
proof -
  obtain v where "alloc w = (True, v)" using assms by (metis memory_available_def prod.collapse)
  then show ?thesis by (simp add: allocate_worker_def Let_def)
qed

lemma apply_record_memory:
  "memory_available alloc \<Longrightarrow>
     fst (apply_record alloc state index r wire w) = fst (apply_record (Pair True) state index r wire ())"
  by (simp add: apply_record_def allocate_worker_memory split: wal_payload.splits)

lemma apply_record_world:
  assumes "\<And>w b w'. alloc w = (b, w') \<Longrightarrow> Q w' = Q w"
  shows "Q (snd (apply_record alloc state index r wire w)) = Q w"
  using assms [of w]
  by (auto simp: apply_record_def allocate_worker_def Let_def split: wal_payload.splits prod.splits if_splits)

lemma replay_wire_memory:
  assumes "memory_available alloc"
  shows "fst (replay_wire alloc writer h sequence wire w) = fst (replay_wire (Pair True) writer h sequence wire ())"
proof (cases h)
  case (fields state index report)
  have "fst (apply_record alloc state index r wire w) = fst (apply_record (Pair True) state index r wire ())" for r
    using apply_record_memory [OF assms] .
  then show ?thesis unfolding fields
    by (simp split: sum.splits prod.splits) (metis fst_conv sum.inject prod.inject sum.distinct)
qed

lemma replay_wire_world:
  assumes "\<And>w b w'. alloc w = (b, w') \<Longrightarrow> Q w' = Q w"
  shows "Q (snd (replay_wire alloc writer h sequence wire w)) = Q w"
proof (cases h)
  case (fields state index report)
  have "Q (snd (apply_record alloc state index r wire w)) = Q w" for r
    using assms by (rule apply_record_world)
  then show ?thesis unfolding fields by (auto split: sum.splits prod.splits) (metis snd_conv)+
qed

lemma replay_wire_valid_bytes:
  "fst (replay_wire alloc writer (state, index, report) sequence wire w) = Inr (state', index', report') \<Longrightarrow>
     rp_valid_bytes report' = rp_valid_bytes report + length wire"
  by (auto split: sum.splits prod.splits if_splits)

text \<open>A round either meets a read error or does what the function says.\<close>

lemma read_history_step_eq:
  assumes dev: "reading_file io (wal_fd writer) file durable pos" "memory_available (os_allocate io)"
    and run: "read_history_step io writer (state, index, report) w = Some (out, w')"
  shows "file w' = file w \<and> durable w' = durable w \<and>
    ((\<exists>writer' report'. out = Inl (Inl REPLAY_IO_ERROR, writer', report') \<and> wal_state writer' = WRITER_FAILED) \<or>
     out = replay_step writer (state, index, report) (drop (pos w) (file w)) \<and>
     (\<forall>state' index' report'. out = Inr (state', index', report') \<longrightarrow>
        pos w' = pos w + (rp_valid_bytes report' - rp_valid_bytes report)))"
proof -
  let ?rest = "drop (pos w) (file w)"
  let ?sequence = "rs_last_sequence state + 1"
  let ?report = "report\<lparr> rp_error_offset := rp_valid_bytes report \<rparr>"
  have H: "0 < FAULTLINE_WAL_RECORD_HEADER_SIZE" by (simp add: FAULTLINE_WAL_RECORD_HEADER_SIZE_def)
  obtain rh w1 where rd: "read_exact io writer FAULTLINE_WAL_RECORD_HEADER_SIZE w = Some (rh, w1)"
    using run by (cases "read_exact io writer FAULTLINE_WAL_RECORD_HEADER_SIZE w") auto
  note r1 = read_exact_file [OF dev(1) rd]
  show ?thesis
  proof (cases rh)
    case (Inl writer')
    then show ?thesis using r1 run rd by auto
  next
    case (Inr received)
    then have rec: "received = take FAULTLINE_WAL_RECORD_HEADER_SIZE ?rest" "pos w1 = pos w + length received"
      "file w1 = file w" "durable w1 = durable w"
      using r1 by auto
    show ?thesis
    proof (cases "?rest = [] \<or> rs_last_sequence state = - 1 \<or> length ?rest < FAULTLINE_WAL_RECORD_HEADER_SIZE")
      case True
      then show ?thesis using run rd Inr rec H by (auto simp: Let_def split: if_splits)
    next
      case False
      then have full: "length received = FAULTLINE_WAL_RECORD_HEADER_SIZE" "received \<noteq> []"
        "rs_last_sequence state \<noteq> - 1" "?rest \<noteq> []" "\<not> length ?rest < FAULTLINE_WAL_RECORD_HEADER_SIZE"
        using rec(1) H by auto
      have header: "faultline_wal_record_header_decode received ?sequence = faultline_wal_record_header_decode ?rest ?sequence"
        using record_header_decode_take [of FAULTLINE_WAL_RECORD_HEADER_SIZE ?rest] rec(1) by simp
      show ?thesis
      proof (cases "faultline_wal_record_header_decode ?rest ?sequence")
        case e: (Inl e)
        then show ?thesis using run rd Inr rec(3,4) full header by (auto simp: Let_def)
      next
        case h: (Inr h)
        let ?n = "unat (wh_payload_length h)"
        obtain rp w2 where rd2: "read_exact io writer ?n w1 = Some (rp, w2)"
          using run rd Inr full header h by (cases "read_exact io writer ?n w1") (auto simp: Let_def)
        note r2 = read_exact_file [OF dev(1) rd2]
        show ?thesis
        proof (cases rp)
          case (Inl writer')
          then show ?thesis using r2 rec run rd Inr full header h rd2 by (auto simp: Let_def)
        next
          case p: (Inr payload)
          have "payload = take ?n (drop FAULTLINE_WAL_RECORD_HEADER_SIZE ?rest)"
            using r2 p rec full(1) by (simp add: add.commute)
          then have wire: "received @ payload = take (FAULTLINE_WAL_RECORD_HEADER_SIZE + ?n) ?rest"
            and len: "length payload = min ?n (length ?rest - FAULTLINE_WAL_RECORD_HEADER_SIZE)"
            using rec(1) by (simp_all add: take_add)
          have w2: "file w2 = file w" "durable w2 = durable w" "pos w2 = pos w + length (received @ payload)"
            using r2 p rec by auto
          show ?thesis
          proof (cases "length ?rest < FAULTLINE_WAL_RECORD_HEADER_SIZE + ?n")
            case True
            then have "length payload < ?n" "FAULTLINE_WAL_RECORD_HEADER_SIZE + length payload = length ?rest"
              using len full(5) by auto
            then show ?thesis using True run rd Inr rd2 p w2 full header h by (auto simp: Let_def)
          next
            case complete: False
            let ?call = "replay_wire (os_allocate io) writer (state, index, ?report) ?sequence (received @ payload) w2"
            have "\<not> length payload < ?n" using len complete by auto
            then have out: "(out, w') = ?call"
              using run rd Inr rd2 p full header h by (simp add: Let_def del: replay_wire.simps)
            have "replay_step writer (state, index, report) ?rest =
                fst (replay_wire (Pair True) writer (state, index, ?report) ?sequence (received @ payload) ())"
              using complete full(3-5) h wire by (simp add: Let_def del: replay_wire.simps)
            also have "\<dots> = fst ?call" by (rule replay_wire_memory [OF dev(2), symmetric])
            also have "\<dots> = out" using out [symmetric] by (simp del: replay_wire.simps)
            finally have pure: "replay_step writer (state, index, report) ?rest = out" .
            have call: "fst ?call = out" "snd ?call = w'" using out [symmetric] by (simp_all del: replay_wire.simps)
            have kept: "file (snd ?call) = file w2" "durable (snd ?call) = durable w2" "pos (snd ?call) = pos w2"
              by (rule replay_wire_world; use reading_allocateD [OF dev(1)] in blast)+
            have bytes: "rp_valid_bytes report' = rp_valid_bytes report + length (received @ payload)"
              if "out = Inr (state', index', report')" for state' index' report'
              using replay_wire_valid_bytes [of "os_allocate io" writer state index ?report ?sequence "received @ payload" w2
                  state' index' report'] that call(1)
              by (simp del: replay_wire.simps)
            have end_state: "file w' = file w" "durable w' = durable w" "pos w' = pos w + length (received @ payload)"
              using kept w2 unfolding call(2) by simp_all
            have "pos w' = pos w + (rp_valid_bytes report' - rp_valid_bytes report)"
              if "out = Inr (state', index', report')" for state' index' report'
              using bytes [OF that] end_state(3) by simp
            then show ?thesis unfolding pure using end_state(1,2) by blast
          qed
        qed
      qed
    qed
  qed
qed

section \<open>Histories\<close>

text \<open>A history: valid records with consecutive sequence numbers after \<open>n\<close>, and its replay.\<close>

fun sequenced :: "u64 \<Rightarrow> faultline_wal_record list \<Rightarrow> bool" where
  "sequenced n [] \<longleftrightarrow> True"
| "sequenced n (r # rs) \<longleftrightarrow> n \<noteq> - 1 \<and> wr_sequence r = n + 1 \<and> loggable r \<and> sequenced (wr_sequence r) rs"

fun replay_records ::
  "faultline_wal_replay_state \<times> worker_index \<Rightarrow> faultline_wal_record list \<Rightarrow>
     wal_replay_error + faultline_wal_replay_state \<times> worker_index" where
  "replay_records h [] = Inr h"
| "replay_records (state, index) (r # rs) =
     (case fst (apply_record (Pair True) state index r (record_bytes r) ()) of
        Inl e \<Rightarrow> Inl e
      | Inr (state', index') \<Rightarrow> replay_records (state'\<lparr> rs_last_sequence := wr_sequence r \<rparr>, index') rs)"

definition last_sequence :: "u64 \<Rightarrow> faultline_wal_record list \<Rightarrow> u64" where
  "last_sequence n rs = (if rs = [] then n else wr_sequence (last rs))"

lemma last_sequence_simps [simp]:
  "last_sequence n [] = n" "last_sequence n (r # rs) = last_sequence (wr_sequence r) rs"
  by (simp_all add: last_sequence_def)

lemma sequenced_append:
  "sequenced n (rs @ qs) \<longleftrightarrow> sequenced n rs \<and> sequenced (last_sequence n rs) qs"
  by (induction n rs rule: sequenced.induct) auto

lemma replay_records_append:
  "replay_records h (rs @ qs) = (case replay_records h rs of Inl e \<Rightarrow> Inl e | Inr h' \<Rightarrow> replay_records h' qs)"
  by (induction h rs rule: replay_records.induct) (auto split: sum.splits prod.splits)

lemma replay_records_sequence:
  "replay_records (state, index) rs = Inr (state', index') \<Longrightarrow> rs_last_sequence state' = last_sequence (rs_last_sequence state) rs"
proof (induction rs arbitrary: state index)
  case (Cons r rs)
  then obtain state1 index1 where
    "replay_records (state1\<lparr> rs_last_sequence := wr_sequence r \<rparr>, index1) rs = Inr (state', index')"
    by (auto split: sum.splits prod.splits)
  from Cons.IH [OF this] show ?case by simp
qed simp

lemma apply_record_fst_wf:
  assumes "replay_wf state index" "loggable r"
    and "fst (apply_record alloc state index r (record_bytes r) w) = Inr (state', index')"
  shows "replay_wf state' index'"
  using apply_record_wf [OF assms(1,2)] assms(3) by (metis prod.collapse)

lemma replay_records_wf:
  "replay_records (state, index) rs = Inr (state', index') \<Longrightarrow> sequenced n rs \<Longrightarrow> replay_wf state index \<Longrightarrow> replay_wf state' index'"
proof (induction rs arbitrary: state index n)
  case (Cons r rs)
  then obtain state1 index1 where
    step: "fst (apply_record (Pair True) state index r (record_bytes r) ()) = Inr (state1, index1)"
    and rest: "replay_records (state1\<lparr> rs_last_sequence := wr_sequence r \<rparr>, index1) rs = Inr (state', index')"
    by (auto split: sum.splits prod.splits)
  have "replay_wf state1 index1" using apply_record_fst_wf [OF Cons.prems(3) _ step] Cons.prems(2) by simp
  then show ?case using Cons.IH [OF rest, of "wr_sequence r"] Cons.prems(2) by auto
qed simp

text \<open>The bytes of a history, and a last record of which only a part was written.\<close>

definition log_bytes :: "faultline_wal_record list \<Rightarrow> bytes" where
  "log_bytes rs = concat (map record_bytes rs)"

lemma log_bytes_simps [simp]:
  "log_bytes [] = []" "log_bytes (r # rs) = record_bytes r @ log_bytes rs"
  "log_bytes (rs @ qs) = log_bytes rs @ log_bytes qs"
  by (simp_all add: log_bytes_def)

definition torn_after :: "u64 \<Rightarrow> bytes \<Rightarrow> bool" where
  "torn_after n tail \<longleftrightarrow> tail = [] \<or>
     (n \<noteq> - 1 \<and> (\<exists>r. sequenced n [r] \<and> strict_prefix tail (record_bytes r)))"

lemma header_of_record_bytes:
  "loggable r \<Longrightarrow> faultline_wal_record_header_decode (record_bytes r @ rest) (wr_sequence r) = Inr (record_header r)"
  using header_decode_encode [of r "encode_payload_bytes (wr_payload r) @ rest"]
  by (simp add: loggable_def record_bytes_def)

lemma record_header_length:
  "loggable r \<Longrightarrow> FAULTLINE_WAL_RECORD_HEADER_SIZE + unat (wh_payload_length (record_header r)) = length (record_bytes r)"
  using record_size_small [of "wr_payload r"]
  by (simp add: loggable_def record_header_def length_record_bytes unat_word_of_nat_u32)

lemma replay_step_record:
  assumes "loggable r" "wr_sequence r = rs_last_sequence state + 1" "rs_last_sequence state \<noteq> - 1"
    and "int (rp_valid_bytes report) + int (length (record_bytes r)) \<le> INT64_MAX"
  shows "replay_step writer (state, index, report) (record_bytes r @ rest) =
    (case fst (apply_record (Pair True) state index r (record_bytes r) ()) of
       Inl e \<Rightarrow> Inl (Inl e, writer, report\<lparr> rp_error_offset := rp_valid_bytes report \<rparr>)
     | Inr (state', index') \<Rightarrow> Inr (state'\<lparr> rs_last_sequence := wr_sequence r \<rparr>, index',
         report\<lparr> rp_error_offset := rp_valid_bytes report, rp_last_sequence := wr_sequence r,
           rp_valid_bytes := rp_valid_bytes report + length (record_bytes r) \<rparr>))"
proof -
  have len: "FAULTLINE_WAL_RECORD_HEADER_SIZE \<le> length (record_bytes r)" "record_bytes r \<noteq> []"
    using length_record_bytes [of r] by (auto simp: FAULTLINE_WAL_RECORD_HEADER_SIZE_def)
  have decode: "faultline_wal_record_decode (record_bytes r) (wr_sequence r) = Inr (r, length (record_bytes r))"
    using decode_record_bytes [OF assms(1), of "[]"] by simp
  have fits: "\<not> int (rp_valid_bytes report) > INT64_MAX - int (length (record_bytes r))" using assms(4) by simp
  let ?report = "report\<lparr> rp_error_offset := rp_valid_bytes report \<rparr>"
  have "replay_step writer (state, index, report) (record_bytes r @ rest) =
      fst (replay_wire (Pair True) writer (state, index, ?report) (wr_sequence r) (record_bytes r) ())"
    using len header_of_record_bytes [OF assms(1), of rest] record_header_length [OF assms(1)] assms(2,3)
    by (simp add: Let_def del: replay_wire.simps)
  also have "\<dots> = (case fst (apply_record (Pair True) state index r (record_bytes r) ()) of
       Inl e \<Rightarrow> Inl (Inl e, writer, ?report)
     | Inr (state', index') \<Rightarrow> Inr (state'\<lparr> rs_last_sequence := wr_sequence r \<rparr>, index',
         ?report\<lparr> rp_last_sequence := wr_sequence r, rp_valid_bytes := rp_valid_bytes report + length (record_bytes r) \<rparr>))"
    using decode fits by (cases "apply_record (Pair True) state index r (record_bytes r) ()") (simp split: sum.split)
  finally show ?thesis by simp
qed

lemma replay_step_torn:
  assumes "torn_after (rs_last_sequence state) tail"
  shows "replay_step writer (state, index, report) tail =
    Inl (Inr state, writer, report\<lparr> rp_error_offset := rp_valid_bytes report,
      rp_tail_bytes := (if tail = [] then rp_tail_bytes report else length tail) \<rparr>)"
proof (cases "tail = []")
  case False
  then obtain r where r: "rs_last_sequence state \<noteq> - 1" "loggable r" "wr_sequence r = rs_last_sequence state + 1"
    "strict_prefix tail (record_bytes r)"
    using assms by (auto simp: torn_after_def)
  then obtain rest where rest: "record_bytes r = tail @ rest" "length tail < length (record_bytes r)"
    by (auto simp: strict_prefix_def prefix_def)
  show ?thesis
  proof (cases "length tail < FAULTLINE_WAL_RECORD_HEADER_SIZE")
    case True
    then show ?thesis using False r(1) by (simp add: Let_def)
  next
    case long: False
    have "faultline_wal_record_header_decode tail (wr_sequence r) = Inr (record_header r)"
      using record_header_decode_take [of "length tail" "record_bytes r" "wr_sequence r"] header_of_record_bytes [OF r(2), of "[]"]
        rest(1) long by simp
    then show ?thesis
      using False r long rest(2) record_header_length [OF r(2)] by (simp add: Let_def)
  qed
qed simp

text \<open>What a round that goes on, or that ends the history, has seen.\<close>

lemma replay_step_next:
  assumes "replay_step writer (state, index, report) rest = Inr (state', index', report')"
  obtains r state1 where "sequenced (rs_last_sequence state) [r]" "prefix (record_bytes r) rest"
    "fst (apply_record (Pair True) state index r (record_bytes r) ()) = Inr (state1, index')"
    "state' = state1\<lparr> rs_last_sequence := wr_sequence r \<rparr>"
    "rp_valid_bytes report' = rp_valid_bytes report + length (record_bytes r)" "rp_tail_bytes report' = rp_tail_bytes report"
proof -
  let ?report = "report\<lparr> rp_error_offset := rp_valid_bytes report \<rparr>"
  let ?seq = "rs_last_sequence state + 1"
  from assms obtain h where last: "rs_last_sequence state \<noteq> - 1"
    and len: "\<not> length rest < FAULTLINE_WAL_RECORD_HEADER_SIZE + unat (wh_payload_length h)"
    and head: "faultline_wal_record_header_decode rest ?seq = Inr h"
    and out: "fst (replay_wire (Pair True) writer (state, index, ?report) ?seq
      (take (FAULTLINE_WAL_RECORD_HEADER_SIZE + unat (wh_payload_length h)) rest) ()) = Inr (state', index', report')"
    by (auto simp: Let_def simp del: replay_wire.simps split: if_splits sum.splits)
  define wire where "wire = take (FAULTLINE_WAL_RECORD_HEADER_SIZE + unat (wh_payload_length h)) rest"
  from out [folded wire_def] obtain r n state1 where dec: "faultline_wal_record_decode wire ?seq = Inr (r, n)"
    and app: "fst (apply_record (Pair True) state index r wire ()) = Inr (state1, index')"
    and state': "state' = state1\<lparr> rs_last_sequence := ?seq \<rparr>"
    and report': "rp_valid_bytes report' = rp_valid_bytes report + length wire" "rp_tail_bytes report' = rp_tail_bytes report"
    by (cases "faultline_wal_record_decode wire ?seq")
      (auto split: sum.splits prod.splits if_splits)
  have "faultline_wal_record_header_decode wire ?seq = Inr h"
    using head by (simp add: wire_def record_header_decode_take)
  then have "n = length wire"
    using dec len by (auto simp: faultline_wal_record_decode_def Let_def wire_def split: sum.splits if_splits)
  with record_decode_Inr [OF dec] have r: "wr_sequence r = ?seq" "loggable r" "record_bytes r = wire"
    using record_encode_bytes by (auto simp: loggable_def record_encode_Inr_iff)
  then have "prefix (record_bytes r) rest" by (simp add: wire_def take_is_prefix)
  with r last app state' report' show thesis by (intro that [of r state1]) auto
qed

lemma replay_step_done:
  assumes "replay_step writer (state, index, report) rest = Inl (Inr state', writer', report')"
  shows "state' = state \<and> writer' = writer \<and> rp_valid_bytes report' = rp_valid_bytes report \<and>
    rp_last_sequence report' = rp_last_sequence report \<and>
    (if rest = [] then rp_tail_bytes report' = rp_tail_bytes report
     else rp_tail_bytes report' = length rest \<and> faultline_wal_record_decode rest (rs_last_sequence state + 1) = Inl WAL_INCOMPLETE)"
proof -
  have "fst (replay_wire (Pair True) writer h seq wire ()) \<noteq> Inl (Inr state', writer', report')" for h seq wire
    by (cases h) (auto split: sum.splits prod.splits)
  moreover have "rs_last_sequence state + 1 \<noteq> 0" if "rs_last_sequence state \<noteq> - 1"
    using that by (simp add: eq_neg_iff_add_eq_0)
  ultimately show ?thesis
    using assms
    by (auto simp: Let_def faultline_wal_record_decode_def faultline_wal_record_header_decode_def simp del: replay_wire.simps
        split: if_splits sum.splits)
qed

section \<open>The whole file\<close>

lemma read_history_loop_induct [consumes 1, case_names finished continued]:
  assumes "read_history_loop step h w = Some y"
    and "\<And>h w r v. step h w = Some (Inl r, v) \<Longrightarrow> P h w (r, v)"
    and "\<And>h w h' v y. step h w = Some (Inr h', v) \<Longrightarrow> P h' v y \<Longrightarrow> P h w y"
  shows "P h w y"
proof -
  have "step' = step \<longrightarrow> P h w y" if "read_history_loop step' h w = Some y" for step'
    using that
  proof (rule read_history_loop.raw_induct [rotated], goal_cases)
    case (1 loop step' h w y)
    then obtain out v where run: "step' h w = Some (out, v)" by (auto simp: bind_eq_Some_conv)
    show ?case
    proof (cases out)
      case (Inl r)
      then show ?thesis using 1(2) run assms(2) [of h w r v] by auto
    next
      case (Inr h')
      then show ?thesis using 1(1) [of step' h' v y] 1(2) run assms(3) [of h w h' v y] by auto
    qed
  qed
  then show ?thesis using assms(1) by blast
qed

text \<open>A file that holds a history and a torn tail is recovered to exactly that history.\<close>

lemma read_history_loop_complete:
  assumes dev: "reading_file io (wal_fd writer) file durable pos" "memory_available (os_allocate io)"
    and "sequenced (rs_last_sequence state) rs" "replay_records (state, index) rs = Inr (state', index')"
    and "drop (pos w) (file w) = log_bytes rs @ tail" "torn_after (last_sequence (rs_last_sequence state) rs) tail"
    and "int (rp_valid_bytes report) + int (length (log_bytes rs)) \<le> INT64_MAX" "rp_tail_bytes report = 0"
    and "read_history_loop (read_history_step io writer) (state, index, report) w = Some ((result, writer', report'), w')"
  shows "file w' = file w \<and> durable w' = durable w \<and>
    (result = Inl REPLAY_IO_ERROR \<and> wal_state writer' = WRITER_FAILED \<or>
     result = Inr state' \<and> writer' = writer \<and> rp_valid_bytes report' = rp_valid_bytes report + length (log_bytes rs) \<and>
       rp_tail_bytes report' = length tail)"
  using assms(3-)
proof (induction rs arbitrary: state index report w)
  case Nil
  obtain out w1 where run: "read_history_step io writer (state, index, report) w = Some (out, w1)"
    using Nil.prems(7) by (auto simp: read_history_loop.simps [of _ _ w] bind_eq_Some_conv)
  note eq = read_history_step_eq [OF dev run]
  have rest: "drop (pos w) (file w) = tail" using Nil.prems(3) by simp
  have "out = Inl (Inl REPLAY_IO_ERROR, writer', report') \<and> result = Inl REPLAY_IO_ERROR \<and> wal_state writer' = WRITER_FAILED \<and> w1 = w' \<or>
      out = replay_step writer (state, index, report) tail"
    using eq Nil.prems(7) run rest by (auto simp: read_history_loop.simps [of _ _ w] simp del: read_history_step.simps replay_step.simps)
  then show ?case
    using eq Nil.prems run replay_step_torn [of state tail writer index report]
    by (auto simp: read_history_loop.simps [of _ _ w] simp del: read_history_step.simps replay_step.simps)
next
  case (Cons r rs)
  from Cons.prems(2) obtain state1 index1 where
    app: "fst (apply_record (Pair True) state index r (record_bytes r) ()) = Inr (state1, index1)"
    and more: "replay_records (state1\<lparr> rs_last_sequence := wr_sequence r \<rparr>, index1) rs = Inr (state', index')"
    by (auto split: sum.splits prod.splits)
  let ?state1 = "state1\<lparr> rs_last_sequence := wr_sequence r \<rparr>"
  let ?report1 = "report\<lparr> rp_error_offset := rp_valid_bytes report, rp_last_sequence := wr_sequence r,
     rp_valid_bytes := rp_valid_bytes report + length (record_bytes r) \<rparr>"
  obtain out w1 where run: "read_history_step io writer (state, index, report) w = Some (out, w1)"
    using Cons.prems(7) by (auto simp: read_history_loop.simps [of _ _ w] bind_eq_Some_conv)
  note eq = read_history_step_eq [OF dev run]
  have "replay_step writer (state, index, report) (drop (pos w) (file w)) = Inr (?state1, index1, ?report1)"
    using replay_step_record [of r state report writer index "log_bytes rs @ tail"] Cons.prems(1,3,5) app
    by (simp del: replay_step.simps)
  with eq consider (failed) writer1 report1 where "out = Inl (Inl REPLAY_IO_ERROR, writer1, report1)" "wal_state writer1 = WRITER_FAILED"
    | (goes_on) "out = Inr (?state1, index1, ?report1)" "pos w1 = pos w + length (record_bytes r)"
    by fastforce
  then show ?case
  proof cases
    case failed
    then show ?thesis using eq Cons.prems(7) run
      by (auto simp: read_history_loop.simps [of _ _ w] simp del: read_history_step.simps)
  next
    case goes_on
    have "read_history_loop (read_history_step io writer) (?state1, index1, ?report1) w1 = Some ((result, writer', report'), w')"
      using Cons.prems(7) run goes_on(1)
      by (simp add: read_history_loop.simps [of _ _ w] del: read_history_step.simps)
    moreover have "drop (pos w1) (file w1) = log_bytes rs @ tail"
      using goes_on(2) eq Cons.prems(3) drop_drop [of "length (record_bytes r)" "pos w" "file w"] by (simp add: add.commute)
    moreover have "sequenced (wr_sequence r) rs" using Cons.prems(1) by auto
    moreover have "file w1 = file w" "durable w1 = durable w" using eq by simp_all
    ultimately show ?thesis
      using Cons.IH [of ?state1 index1 w1 ?report1] Cons.prems(4-6) more by (simp add: add.assoc)
  qed
qed

text \<open>Whatever the file holds, what is recovered is the replay of a history the file starts with.\<close>

lemma read_history_loop_sound:
  assumes dev: "reading_file io (wal_fd writer) file durable pos" "memory_available (os_allocate io)"
    and run: "read_history_loop (read_history_step io writer) (state, index, report) w = Some ((Inr state', writer', report'), w')"
    and tail: "rp_tail_bytes report = 0"
  shows "\<exists>rs index' tail. sequenced (rs_last_sequence state) rs \<and> replay_records (state, index) rs = Inr (state', index') \<and>
    drop (pos w) (file w) = log_bytes rs @ tail \<and> file w' = file w \<and> durable w' = durable w \<and> writer' = writer \<and>
    rp_valid_bytes report' = rp_valid_bytes report + length (log_bytes rs) \<and> rp_tail_bytes report' = length tail \<and>
    (tail \<noteq> [] \<longrightarrow> faultline_wal_record_decode tail (rs_last_sequence state' + 1) = Inl WAL_INCOMPLETE)"
  using run tail
proof (induction "(state, index, report)" w "((Inr state' :: wal_replay_error + faultline_wal_replay_state, writer', report'), w')"
    arbitrary: state index report rule: read_history_loop_induct)
  case (finished w)
  note eq = read_history_step_eq [OF dev finished(1)]
  then have "replay_step writer (state, index, report) (drop (pos w) (file w)) = Inl (Inr state', writer', report')"
    by (auto simp del: replay_step.simps)
  from replay_step_done [OF this] eq finished show ?case
    by (intro exI [of _ "[]"] exI [of _ index] exI [of _ "drop (pos w) (file w)"]) (auto split: if_splits)
next
  case (continued w h' v)
  obtain state1 index1 report1 where h': "h' = (state1, index1, report1)" by (cases h')
  note eq = read_history_step_eq [OF dev continued(1)]
  then have out: "replay_step writer (state, index, report) (drop (pos w) (file w)) = Inr (state1, index1, report1)"
    and v: "pos v = pos w + (rp_valid_bytes report1 - rp_valid_bytes report)" "file v = file w" "durable v = durable w"
    by (auto simp: h' simp del: replay_step.simps)
  from replay_step_next [OF out] obtain r state2 where r: "sequenced (rs_last_sequence state) [r]"
      "prefix (record_bytes r) (drop (pos w) (file w))"
      "fst (apply_record (Pair True) state index r (record_bytes r) ()) = Inr (state2, index1)"
      "state1 = state2\<lparr> rs_last_sequence := wr_sequence r \<rparr>"
      "rp_valid_bytes report1 = rp_valid_bytes report + length (record_bytes r)" "rp_tail_bytes report1 = rp_tail_bytes report"
    by metis
  obtain zs where zs: "drop (pos w) (file w) = record_bytes r @ zs" using r(2) by (auto simp: prefix_def)
  have "drop (pos v) (file v) = drop (length (record_bytes r)) (drop (pos w) (file w))"
    using r(5) v(1,2) by (simp add: add.commute)
  then have "drop (pos w) (file w) = record_bytes r @ drop (pos v) (file v)" using zs by simp
  moreover obtain rs index' tail where IH: "sequenced (rs_last_sequence state1) rs"
      "replay_records (state1, index1) rs = Inr (state', index')" "drop (pos v) (file v) = log_bytes rs @ tail"
      "file w' = file v" "durable w' = durable v" "writer' = writer"
      "rp_valid_bytes report' = rp_valid_bytes report1 + length (log_bytes rs)" "rp_tail_bytes report' = length tail"
      "tail \<noteq> [] \<longrightarrow> faultline_wal_record_decode tail (rs_last_sequence state' + 1) = Inl WAL_INCOMPLETE"
    using continued(2) [OF h'] continued(3) r(6) by metis
  ultimately show ?case
    using r v by (intro exI [of _ "r # rs"] exI [of _ index'] exI [of _ tail]) auto
qed

text \<open>The loops of recovery return if reads are interrupted only finitely often.\<close>

definition reads_end :: "'w faultline_wal_writer_io \<Rightarrow> int \<Rightarrow> ('w \<Rightarrow> nat) \<Rightarrow> bool" where
  "reads_end io fd budget \<longleftrightarrow>
     (\<forall>n w r w'. io_read io fd n w = (r, w') \<longrightarrow>
        (if r = Inl EINTR then budget w' < budget w else budget w' \<le> budget w)) \<and>
     (\<forall>w b w'. os_allocate io w = (b, w') \<longrightarrow> budget w' \<le> budget w)"

lemma read_loop_returns:
  assumes "reads_end io fd budget"
  shows "\<exists>r w'. read_loop (io_read io fd) wanted received w = Some (r, w') \<and> budget w' \<le> budget w"
proof (induction "budget w + (wanted - length received)" arbitrary: received w rule: less_induct)
  case less
  show ?case
  proof (cases "length received < wanted")
    case False
    then show ?thesis by (simp add: read_loop.simps)
  next
    case True
    obtain q v where call: "io_read io fd (wanted - length received) w = (q, v)" by fastforce
    then have b: "if q = Inl EINTR then budget v < budget w else budget v \<le> budget w"
      using assms by (auto simp: reads_end_def)
    show ?thesis
    proof (cases q)
      case (Inl e)
      show ?thesis
      proof (cases "e = EINTR")
        case interrupted: True
        then have less_v: "budget v < budget w" using b Inl by simp
        then obtain r w' where "read_loop (io_read io fd) wanted received v = Some (r, w')" "budget w' \<le> budget v"
          using less [of v received] by auto
        then show ?thesis using less_v call Inl interrupted True by (simp add: read_loop.simps [of _ _ received w])
      qed (use b call Inl True in \<open>auto simp: read_loop.simps [of _ _ received w]\<close>)
    next
      case (Inr d)
      then have le: "budget v \<le> budget w" using b by simp
      show ?thesis
      proof (cases "d = [] \<or> length d > wanted - length received")
        case True
        then show ?thesis using call Inr le \<open>length received < wanted\<close> by (auto simp: read_loop.simps [of _ _ received w])
      next
        case False
        then have "budget v + (wanted - length (received @ d)) < budget w + (wanted - length received)"
          using le True by (cases d) auto
        from less [OF this] show ?thesis
          using call Inr False True le by (auto simp: read_loop.simps [of _ _ received w] intro: order.trans)
      qed
    qed
  qed
qed

lemma read_exact_returns:
  "reads_end io (wal_fd writer) budget \<Longrightarrow> \<exists>r w'. read_exact io writer n w = Some (r, w') \<and> budget w' \<le> budget w"
  using read_loop_returns [of io "wal_fd writer" budget n "[]" w] by (fastforce simp: read_exact_def)

lemma read_history_step_returns:
  assumes "reads_end io (wal_fd writer) budget"
  shows "\<exists>out w'. read_history_step io writer h w = Some (out, w')"
proof (cases h)
  case (fields state index report)
  obtain rh w1 where rd: "read_exact io writer FAULTLINE_WAL_RECORD_HEADER_SIZE w = Some (rh, w1)"
    using read_exact_returns [OF assms] by blast
  obtain rp w2 where "\<And>n. read_exact io writer n w1 = Some (rp n, w2 n)"
    using read_exact_returns [OF assms, of _ w1] by metis
  with rd have "read_history_step io writer (state, index, report) w \<noteq> None"
    by (cases rh) (auto simp: Let_def bind_eq_None_conv simp del: replay_wire.simps split: sum.splits prod.splits)
  then show ?thesis unfolding fields by (simp del: read_history_step.simps)
qed

lemma read_history_loop_returns:
  assumes dev: "reading_file io (wal_fd writer) file durable pos" "memory_available (os_allocate io)" "reads_end io (wal_fd writer) budget"
  shows "\<exists>result w'. read_history_loop (read_history_step io writer) h w = Some (result, w')"
proof (induction "length (file w) - pos w" arbitrary: h w rule: less_induct)
  case less
  obtain state index report where h: "h = (state, index, report)" by (cases h)
  obtain out w1 where run: "read_history_step io writer (state, index, report) w = Some (out, w1)"
    using read_history_step_returns [OF dev(3)] by blast
  show ?case
  proof (cases out)
    case (Inl result)
    then show ?thesis
      using run by (cases result) (simp add: h read_history_loop.simps [of _ _ w] del: read_history_step.simps)
  next
    case (Inr h')
    obtain state1 index1 report1 where h': "h' = (state1, index1, report1)" by (cases h')
    note eq = read_history_step_eq [OF dev(1,2) run]
    from eq Inr h' have step: "replay_step writer (state, index, report) (drop (pos w) (file w)) = Inr (state1, index1, report1)"
      and pos: "pos w1 = pos w + (rp_valid_bytes report1 - rp_valid_bytes report)" "file w1 = file w"
      by (auto simp del: replay_step.simps)
    from replay_step_next [OF step] obtain r where r: "prefix (record_bytes r) (drop (pos w) (file w))"
      "rp_valid_bytes report1 = rp_valid_bytes report + length (record_bytes r)"
      by metis
    have "0 < length (record_bytes r)" by (simp add: length_record_bytes FAULTLINE_WAL_RECORD_HEADER_SIZE_def)
    moreover have "length (record_bytes r) \<le> length (file w) - pos w" using prefix_length_le [OF r(1)] by simp
    ultimately have "length (file w1) - pos w1 < length (file w) - pos w" using pos(1) r(2) unfolding pos(2) by linarith
    from less [OF this, of h'] show ?thesis
      using run Inr by (simp add: h read_history_loop.simps [of _ _ w] del: read_history_step.simps)
  qed
qed

section \<open>Opening the file\<close>

lemma retry_keeps:
  assumes "retry_eintr call w = Some (r, w')" "\<And>w v. call w = (Inl EINTR, v) \<Longrightarrow> Q v = Q w"
  shows "\<exists>v. call v = (r, w') \<and> Q v = Q w \<and> r \<noteq> Inl EINTR"
  using assms(1)
proof (induction w "(r, w')" rule: retry_eintr_induct)
  case (interrupted w v)
  then show ?case using assms(2) [of w v] by auto
qed blast

lemma opening_directoryD:
  assumes "opening_file io fd dfd file durable pos" "retry_eintr (os_open_directory io path) w = Some (r, w')"
  shows "file w' = file w \<and> durable w' = durable w \<and> (\<forall>d. r = Inr d \<longrightarrow> d = dfd)"
proof -
  have law: "file w' = file w \<and> durable w' = durable w \<and> (\<forall>d. r = Inr d \<longrightarrow> d = dfd)"
    if "os_open_directory io path w = (r, w')" for w r w'
    using assms(1) that unfolding opening_file_def by blast
  have "\<exists>v. os_open_directory io path v = (r, w') \<and> (file v, durable v) = (file w, durable w) \<and> r \<noteq> Inl EINTR"
    using assms(2) by (rule retry_keeps) (use law in auto)
  then show ?thesis using law by auto
qed

lemma opening_openatD:
  assumes "opening_file io fd dfd file durable pos" "retry_eintr (os_openat io dfd name create) w = Some (r, w')"
  shows "case r of
      Inl _ \<Rightarrow> file w' = file w \<and> durable w' = durable w
    | Inr d \<Rightarrow> d = fd \<and> pos w' = 0 \<and>
        (if create then file w' = [] \<and> durable w' = [] else file w' = file w \<and> durable w' = durable w)"
proof -
  have law: "case r of
      Inl _ \<Rightarrow> file w' = file w \<and> durable w' = durable w
    | Inr d \<Rightarrow> d = fd \<and> pos w' = 0 \<and>
        (if create then file w' = [] \<and> durable w' = [] else file w' = file w \<and> durable w' = durable w)"
    if "os_openat io dfd name create w = (r, w')" for w r w'
    using assms(1) that unfolding opening_file_def by blast
  have "\<exists>v. os_openat io dfd name create v = (r, w') \<and> (file v, durable v) = (file w, durable w) \<and> r \<noteq> Inl EINTR"
    using assms(2) by (rule retry_keeps) (drule law, simp)
  then show ?thesis using law by (cases r) fastforce+
qed

lemma opening_inspectD:
  assumes "opening_file io fd dfd file durable pos"
    and "retry_eintr (os_fstat_regular io fd) w = Some (r, w')"
  shows "file w' = file w \<and> durable w' = durable w \<and> pos w' = pos w"
proof -
  have law: "file w' = file w \<and> durable w' = durable w \<and> pos w' = pos w" if "os_fstat_regular io fd w = (r, w')" for w r w'
    using assms(1) that unfolding opening_file_def by blast
  have "\<exists>v. os_fstat_regular io fd v = (r, w') \<and> (file v, durable v, pos v) = (file w, durable w, pos w) \<and> r \<noteq> Inl EINTR"
    using assms(2) by (rule retry_keeps) (use law in auto)
  then show ?thesis using law by auto
qed

lemma opening_lockD:
  assumes "opening_file io fd dfd file durable pos" "retry_eintr (io_lock io fd) w = Some (r, w')"
  shows "file w' = file w \<and> durable w' = durable w \<and> pos w' = pos w"
proof -
  have law: "file w' = file w \<and> durable w' = durable w \<and> pos w' = pos w" if "io_lock io fd w = (r, w')" for w r w'
    using assms(1) that unfolding opening_file_def by blast
  have "\<exists>v. io_lock io fd v = (r, w') \<and> (file v, durable v, pos v) = (file w, durable w, pos w) \<and> r \<noteq> Inl EINTR"
    using assms(2) by (rule retry_keeps) (use law in auto)
  then show ?thesis using law by auto
qed

lemma opening_allocateD:
  "opening_file io fd dfd file durable pos \<Longrightarrow> os_allocate io w = (b, w') \<Longrightarrow> file w' = file w \<and> durable w' = durable w"
  unfolding opening_file_def by blast

definition opened_writer :: "faultline_wal_writer \<Rightarrow> int \<Rightarrow> int \<Rightarrow> faultline_wal_writer" where
  "opened_writer writer fd dfd =
     writer\<lparr> wal_has_io := True, wal_next_sequence := 0, wal_synced_sequence := 0,
       wal_directory_fd := dfd, wal_fd := fd, wal_state := WRITER_RECOVERING \<rparr>"

lemma opened_writer_fields [simp]:
  "wal_fd (opened_writer writer fd dfd) = fd" "wal_directory_fd (opened_writer writer fd dfd) = dfd"
  "wal_state (opened_writer writer fd dfd) = WRITER_RECOVERING" "wal_has_io (opened_writer writer fd dfd)"
  by (simp_all add: opened_writer_def)

lemma open_file_Some:
  assumes dev: "opening_file io fd dfd file durable pos"
    and run: "faultline_wal_writer_open_file io writer path create w = Some (result, writer', w')"
    and closed: "\<not> invalid_path path" "wal_state writer = WRITER_CLOSED" "wal_fd writer = - 1" "wal_directory_fd writer = - 1"
  obtains (opened) "result = WRITE_OK" "writer' = opened_writer writer fd dfd" "pos w' = 0"
    "file w' = (if create then [] else file w)" "durable w' = (if create then [] else durable w)"
  | (failed) "result = WRITE_IO_ERROR" "wal_state writer' = WRITER_FAILED"
    "file w' = file w \<and> durable w' = durable w \<or> create \<and> file w' = [] \<and> durable w' = []"
proof -
  let ?P = "\<lambda>result writer' w'. result = WRITE_OK \<and> writer' = opened_writer writer fd dfd \<and> pos w' = 0 \<and>
      file w' = (if create then [] else file w) \<and> durable w' = (if create then [] else durable w) \<or>
    result = WRITE_IO_ERROR \<and> wal_state writer' = WRITER_FAILED \<and>
      (file w' = file w \<and> durable w' = durable w \<or> create \<and> file w' = [] \<and> durable w' = [])"
  let ?writer1 = "writer\<lparr> wal_has_io := True, wal_next_sequence := 0, wal_synced_sequence := 0 \<rparr>"
  obtain copied w1 where w1: "os_allocate io w = (copied, w1)" by fastforce
  note k1 = opening_allocateD [OF dev w1]
  note eq = run [unfolded faultline_wal_writer_open_file_def Let_def, simplified closed w1, simplified]
  have "?P result writer' w'"
  proof (cases copied)
    case False
    then show ?thesis using eq k1 by auto
  next
    case True
    then obtain d w2 where w2: "retry_eintr (os_open_directory io (path_directory path)) w1 = Some (d, w2)"
      using eq by (auto simp: bind_eq_Some_conv)
    note k2 = opening_directoryD [OF dev w2]
    show ?thesis
    proof (cases d)
      case (Inl e)
      then show ?thesis using eq True w2 k1 k2 by auto
    next
      case (Inr d')
      then have d: "d = Inr dfd" using k2 by simp
      then obtain f w3 where w3: "retry_eintr (os_openat io dfd (path_name path) create) w2 = Some (f, w3)"
        using eq True w2 by (auto simp: bind_eq_Some_conv)
      note k3 = opening_openatD [OF dev w3]
      show ?thesis
      proof (cases f)
        case (Inl e)
        then have "file w3 = file w \<and> durable w3 = durable w" using k1 k2 k3 by simp
        with Inl show ?thesis using eq True w2 w3 d by auto
      next
        case (Inr f')
        then have f: "f = Inr fd" "pos w3 = 0"
          "file w3 = (if create then [] else file w)" "durable w3 = (if create then [] else durable w)"
          using k1 k2 k3 by auto
        then obtain i w4 where w4: "retry_eintr (os_fstat_regular io fd) w3 = Some (i, w4)"
          using eq True w2 w3 d by (auto simp: bind_eq_Some_conv)
        note k4 = opening_inspectD [OF dev w4]
        show ?thesis
        proof (cases "i = Inr True")
          case False
          then show ?thesis using eq True w2 w3 w4 f k4 d by (auto split: sum.splits)
        next
          case locked: True
          then obtain l w5 where w5: "retry_eintr (io_lock io fd) w4 = Some (l, w5)"
            using eq True w2 w3 w4 d f by (auto simp: bind_eq_Some_conv)
          note k5 = opening_lockD [OF dev w5]
          show ?thesis using eq True locked w2 w3 w4 w5 f k4 k5 d by (auto simp: opened_writer_def split: sum.splits)
        qed
      qed
    qed
  qed
  then show thesis
  proof (rule disjE)
    assume "result = WRITE_OK \<and> writer' = opened_writer writer fd dfd \<and> pos w' = 0 \<and>
      file w' = (if create then [] else file w) \<and> durable w' = (if create then [] else durable w)"
    then show thesis by (intro that(1)) auto
  qed (use that(2) in blast)
qed

section \<open>Reading a whole file\<close>

lemma accepted_file_header:
  assumes "faultline_wal_file_header_decode wire = None"
  shows "take FAULTLINE_WAL_FILE_HEADER_SIZE wire = file_header"
proof -
  have fields: "24 \<le> length wire" "get_u32 wire 20 = crc32 (take 20 wire)" "take 8 wire = file_magic"
    "get_u16 wire 8 = FAULTLINE_WAL_VERSION" "get_u16 wire 10 = word_of_nat FAULTLINE_WAL_FILE_HEADER_SIZE"
    "get_u32 wire 12 = 0" "get_u32 wire 16 = 0"
    using assms by (auto simp: faultline_wal_file_header_decode_def FAULTLINE_WAL_FILE_HEADER_SIZE_def split: if_splits)
  have "take 20 wire = take 8 wire @ put_u16 (get_u16 wire 8) @ put_u16 (get_u16 wire 10) @
      put_u32 (get_u32 wire 12) @ put_u32 (get_u32 wire 16)"
    using fields(1) by (simp add: put_get_u16 put_get_u32 merge_slices)
  then have "take 20 wire = file_header_prefix" unfolding fields(3-7) by (simp add: file_header_prefix_def)
  moreover have "take 24 wire = take 20 wire @ put_u32 (get_u32 wire 20)"
    using fields(1) by (simp add: put_get_u32 merge_slices)
  ultimately show ?thesis using fields(2) by (simp add: file_header_def FAULTLINE_WAL_FILE_HEADER_SIZE_def)
qed

lemma read_history_header:
  assumes dev: "reading_file io (wal_fd writer) file durable pos" and start: "pos w = 0"
    and run: "read_history io writer state index report w = Some ((result, writer', report'), w')"
  obtains (header) w1 where "take FAULTLINE_WAL_FILE_HEADER_SIZE (file w) = file_header"
    "file w1 = file w" "durable w1 = durable w" "pos w1 = FAULTLINE_WAL_FILE_HEADER_SIZE"
    "read_history_loop (read_history_step io writer) (state, index, report\<lparr> rp_valid_bytes := FAULTLINE_WAL_FILE_HEADER_SIZE \<rparr>) w1 =
       Some ((result, writer', report'), w')"
  | (refused) e where "result = Inl e" "file w' = file w" "durable w' = durable w"
    "e = REPLAY_IO_ERROR \<and> wal_state writer' = WRITER_FAILED \<or>
     faultline_wal_file_header_decode (take FAULTLINE_WAL_FILE_HEADER_SIZE (file w)) \<noteq> None \<and> writer' = writer"
proof -
  obtain h w1 where h: "read_exact io writer FAULTLINE_WAL_FILE_HEADER_SIZE w = Some (h, w1)"
    using run by (auto simp: read_history_def bind_eq_Some_conv)
  note k = read_exact_file [OF dev h]
  show thesis
  proof (cases h)
    case (Inl writer1)
    then show thesis using run h k by (intro that(2)) (auto simp: read_history_def)
  next
    case (Inr received)
    then have received: "received = take FAULTLINE_WAL_FILE_HEADER_SIZE (file w)" and pos: "pos w1 = length received"
      using k start by auto
    show thesis
    proof (cases "faultline_wal_file_header_decode received")
      case None
      then have "take FAULTLINE_WAL_FILE_HEADER_SIZE (file w) = file_header"
        using accepted_file_header [OF None] received by simp
      then show thesis using run h k Inr None received pos by (intro that(1)) (auto simp: read_history_def)
    next
      case (Some e)
      then show thesis using run h k Inr received by (intro that(2)) (auto simp: read_history_def)
    qed
  qed
qed

lemma read_history_complete:
  assumes dev: "reading_file io (wal_fd writer) file durable pos" "memory_available (os_allocate io)"
    and start: "pos w = 0" "file w = file_header @ log_bytes rs @ tail"
    and history: "sequenced 0 rs" "replay_records (replay_init, empty_index) rs = Inr (state', index')"
      "torn_after (last_sequence 0 rs) tail"
    and bound: "int (length (file_header @ log_bytes rs)) \<le> INT64_MAX"
    and run: "read_history io writer replay_init empty_index empty_report w = Some ((result, writer', report'), w')"
  shows "file w' = file w \<and> durable w' = durable w \<and>
    (result = Inl REPLAY_IO_ERROR \<and> wal_state writer' = WRITER_FAILED \<or>
     result = Inr state' \<and> writer' = writer \<and> rp_valid_bytes report' = length (file_header @ log_bytes rs) \<and>
       rp_tail_bytes report' = length tail)"
proof (rule read_history_header [OF dev(1) start(1) run], goal_cases header refused)
  case (header w1)
  have zero: "rs_last_sequence replay_init = 0" by (simp add: replay_init_def)
  have "drop (pos w1) (file w1) = log_bytes rs @ tail" using header(2,4) start(2) by simp
  then show ?thesis
    using read_history_loop_complete [OF dev _ history(2) _ _ _ _ header(5), of tail] header history bound zero
    by (auto simp: empty_report_def)
next
  case (refused e)
  then show ?thesis using start(2) file_header_decode [of "[]"] by auto
qed

lemma read_history_sound:
  assumes dev: "reading_file io (wal_fd writer) file durable pos" "memory_available (os_allocate io)"
    and start: "pos w = 0"
    and run: "read_history io writer replay_init empty_index empty_report w = Some ((Inr state', writer', report'), w')"
  shows "\<exists>rs index' tail. sequenced 0 rs \<and> replay_records (replay_init, empty_index) rs = Inr (state', index') \<and>
    file w = file_header @ log_bytes rs @ tail \<and> file w' = file w \<and> durable w' = durable w \<and> writer' = writer \<and>
    rp_valid_bytes report' = length (file_header @ log_bytes rs) \<and> rp_tail_bytes report' = length tail \<and>
    (tail \<noteq> [] \<longrightarrow> faultline_wal_record_decode tail (rs_last_sequence state' + 1) = Inl WAL_INCOMPLETE)"
proof (rule read_history_header [OF dev(1) start run], goal_cases header refused)
  case (header w1)
  have zero: "rs_last_sequence replay_init = 0" by (simp add: replay_init_def)
  have whole: "file w = file_header @ drop FAULTLINE_WAL_FILE_HEADER_SIZE (file w)"
    using header(1) by (metis append_take_drop_id)
  obtain rs index' tail where *: "sequenced 0 rs" "replay_records (replay_init, empty_index) rs = Inr (state', index')"
    "drop (pos w1) (file w1) = log_bytes rs @ tail" "file w' = file w1" "durable w' = durable w1" "writer' = writer"
    "rp_valid_bytes report' = FAULTLINE_WAL_FILE_HEADER_SIZE + length (log_bytes rs)" "rp_tail_bytes report' = length tail"
    "tail \<noteq> [] \<longrightarrow> faultline_wal_record_decode tail (rs_last_sequence state' + 1) = Inl WAL_INCOMPLETE"
    using read_history_loop_sound [OF dev header(5)] zero by (auto simp: empty_report_def)
  show ?thesis
    by (rule exI [of _ rs], rule exI [of _ index'], rule exI [of _ tail])
      (use * header whole in \<open>simp\<close>)
next
  case (refused e)
  then show ?thesis by simp
qed

section \<open>Settling the file\<close>

lemma truncate_loop_file:
  assumes dev: "recovering_file io fd dfd file durable pos"
    and run: "retry_eintr (io_truncate io fd (length base)) w = Some (r, w')"
    and start: "file w = base @ tail \<or> file w = base"
  shows "(prefix (durable w) base \<longrightarrow> durable w' = durable w) \<and> (file w' = file w \<or> file w' = base) \<and> (r = Inr () \<longrightarrow> file w' = base)"
proof -
  have law: "(case r of Inl _ \<Rightarrow> file w' = file w \<or> file w' = take n (file w) | Inr _ \<Rightarrow> file w' = take n (file w)) \<and>
      (prefix (durable w) (take n (file w)) \<longrightarrow> durable w' = durable w)"
    if "io_truncate io fd n w = (r, w')" for n w r w'
    using dev that unfolding recovering_file_def by blast
  show ?thesis
    using run start
  proof (induction w "(r, w')" rule: retry_eintr_induct)
    case (interrupted w v)
    have "(prefix (durable w) base \<longrightarrow> durable v = durable w) \<and> (file v = file w \<or> file v = base)"
      using law [OF interrupted(1)] interrupted(3) by auto
    then show ?case using interrupted by auto
  next
    case (finished w)
    then show ?case using law [OF finished(1)] by (auto split: sum.splits)
  qed
qed

lemma directory_sync_file:
  assumes dev: "recovering_file io fd dfd file durable pos"
    and run: "faultline_wal_writer_sync io writer dfd operation w = Some (result, writer', w')"
  shows "file w' = file w \<and> durable w' = durable w \<and>
    (result = WRITE_OK \<and> writer' = writer \<or> result = WRITE_IO_ERROR \<and> (\<exists>e. writer' = faultline_wal_writer_fail writer operation e))"
proof -
  have law: "file w' = file w \<and> durable w' = durable w" if "io_sync io dfd w = (r, w')" for w r w'
    using dev that unfolding recovering_file_def by blast
  obtain r where r: "retry_eintr (io_sync io dfd) w = Some (r, w')"
    and "(result, writer') = (case r of Inl e \<Rightarrow> (WRITE_IO_ERROR, faultline_wal_writer_fail writer operation e) | Inr _ \<Rightarrow> (WRITE_OK, writer))"
    using run by (fastforce simp: faultline_wal_writer_sync_def bind_eq_Some_conv split: sum.splits)
  moreover have "\<exists>v. io_sync io dfd v = (r, w') \<and> (file v, durable v) = (file w, durable w) \<and> r \<noteq> Inl EINTR"
    using r by (rule retry_keeps) (use law in auto)
  ultimately show ?thesis using law by (cases r) auto
qed

lemma truncate_tail_Some:
  assumes dev: "recovering_file io (wal_fd writer) dfd file durable pos"
    and start: "file w = base @ tail"
    and report: "rp_valid_bytes report = length base" "rp_tail_bytes report = length tail"
    and run: "truncate_tail io (Inr state, writer, report) w = Some (out, w')"
  shows "(prefix (durable w) base \<longrightarrow> durable w' = durable w) \<and>
    (out = (Inr state, writer, report) \<and> file w' = base \<or>
     (\<exists>e. out = (Inl REPLAY_IO_ERROR, faultline_wal_writer_fail writer IO_TRUNCATE_TAIL e, report)) \<and>
       (file w' = base @ tail \<or> file w' = base))"
proof (cases "tail = []")
  case True
  then show ?thesis using run start report by (simp add: truncate_tail_def)
next
  case False
  then obtain r where r: "retry_eintr (io_truncate io (wal_fd writer) (length base)) w = Some (r, w')"
    "out = (case r of Inl e \<Rightarrow> (Inl REPLAY_IO_ERROR, faultline_wal_writer_fail writer IO_TRUNCATE_TAIL e, report)
      | Inr _ \<Rightarrow> (Inr state, writer, report))"
    using run report by (fastforce simp: truncate_tail_def bind_eq_Some_conv split: sum.splits)
  show ?thesis using truncate_loop_file [OF dev r(1), of tail] start r(2) by (cases r) auto
qed

lemma writer_sync_recovery:
  assumes "appending_file io fd file durable" "faultline_wal_writer_sync io writer fd operation w = Some (result, writer', w')"
  shows "file w' = file w \<and> (prefix (durable w) (file w) \<longrightarrow> prefix (durable w) (durable w')) \<and>
    (result = WRITE_OK \<and> writer' = writer \<and> durable w' = file w' \<or>
     result = WRITE_IO_ERROR \<and> (\<exists>e. writer' = faultline_wal_writer_fail writer operation e))"
proof -
  obtain r where r: "retry_eintr (io_sync io fd) w = Some (r, w')"
    and "(result, writer') = (case r of Inl e \<Rightarrow> (WRITE_IO_ERROR, faultline_wal_writer_fail writer operation e) | Inr _ \<Rightarrow> (WRITE_OK, writer))"
    using assms(2) by (fastforce simp: faultline_wal_writer_sync_def bind_eq_Some_conv split: sum.splits)
  moreover have "\<exists>v. io_sync io fd v = (r, w') \<and> file v = file w \<and> r \<noteq> Inl EINTR"
    using r by (rule retry_keeps) (use appending_syncD [OF assms(1)] in auto)
  then obtain v where v: "io_sync io fd v = (r, w')" "file v = file w" by blast
  have "file w' = file w" "r = Inr () \<longrightarrow> durable w' = file w'" using appending_syncD [OF assms(1) v(1)] v(2) by auto
  ultimately show ?thesis using sync_loop_file [OF assms(1) r] by (cases r) auto
qed

lemma sync_recovery_Some:
  assumes dev: "recovering_file io (wal_fd writer) (wal_directory_fd writer) file durable pos"
    and run: "sync_recovery io (Inr state, writer, report) w = Some (out, w')"
  shows "file w' = file w \<and> (prefix (durable w) (file w) \<longrightarrow> prefix (durable w) (durable w')) \<and>
    (out = (Inr state, writer, report) \<and> durable w' = file w' \<or>
     (\<exists>operation e. out = (Inl REPLAY_IO_ERROR, faultline_wal_writer_fail writer operation e, report)))"
proof -
  have app: "appending_file io (wal_fd writer) file durable" using recoveringD [OF dev] by simp
  obtain s writer1 w1 where w1: "faultline_wal_writer_sync io writer (wal_fd writer) IO_SYNC_RECOVERY w = Some (s, writer1, w1)"
    using run by (auto simp: sync_recovery_def bind_eq_Some_conv)
  note k1 = writer_sync_recovery [OF app w1]
  show ?thesis
  proof (cases "s = WRITE_OK")
    case False
    then show ?thesis using run w1 k1 by (auto simp: sync_recovery_def)
  next
    case True
    then obtain s' writer2 where w2:
      "faultline_wal_writer_sync io writer (wal_directory_fd writer) IO_SYNC_DIRECTORY w1 = Some (s', writer2, w')"
      "out = (if s' \<noteq> WRITE_OK then (Inl REPLAY_IO_ERROR, writer2, report) else (Inr state, writer2, report))"
      using run w1 k1 by (auto simp: sync_recovery_def bind_eq_Some_conv split: if_splits)
    show ?thesis using directory_sync_file [OF dev w2(1)] w2(2) k1 True by auto
  qed
qed

lemma settle_recovery:
  assumes dev: "recovering_file io (wal_fd writer) (wal_directory_fd writer) file durable pos"
    and start: "file w = base @ tail"
    and report: "rp_valid_bytes report = length base" "rp_tail_bytes report = length tail"
    and run: "truncate_tail io (Inr state, writer, report) w = Some (out1, w1)" "sync_recovery io out1 w1 = Some (out2, w2)"
      "publish_recovery out2 = (result, writer', report')"
  shows "(prefix (durable w) base \<longrightarrow> prefix (durable w) (durable w2)) \<and> (file w2 = base \<or> file w2 = base @ tail) \<and>
    report' = report \<and>
    (result = Inr state \<and> file w2 = base \<and> durable w2 = base \<and>
      writer' = writer\<lparr> wal_synced_sequence := rs_last_sequence state, wal_next_sequence := next_id (rs_last_sequence state),
        wal_state := WRITER_READY \<rparr> \<or>
     result = Inl REPLAY_IO_ERROR \<and> wal_state writer' = WRITER_FAILED)"
  using truncate_tail_Some [OF dev start report run(1)]
proof (elim conjE disjE, goal_cases kept failed1 failed2)
  case kept
  then have "sync_recovery io (Inr state, writer, report) w1 = Some (out2, w2)" using run(2) by simp
  from sync_recovery_Some [OF dev this] show ?case using kept run(3) by (auto simp: publish_recovery_def)
next
  case failed1
  then show ?case using run by (auto simp: publish_recovery_def sync_recovery_def)
next
  case failed2
  then show ?case using run by (auto simp: publish_recovery_def sync_recovery_def)
qed

section \<open>Opening an existing log\<close>

lemma read_history_loop_keeps:
  assumes dev: "reading_file io (wal_fd writer) file durable pos" "memory_available (os_allocate io)"
    and run: "read_history_loop (read_history_step io writer) h w = Some y"
  shows "file (snd y) = file w \<and> durable (snd y) = durable w"
  using run
proof (induction h w y rule: read_history_loop_induct)
  case (finished h w r v)
  obtain state index report where "h = (state, index, report)" by (cases h)
  with finished show ?case using read_history_step_eq [OF dev, of state index report w "Inl r" v] by simp
next
  case (continued h w h' v y)
  obtain state index report where "h = (state, index, report)" by (cases h)
  with continued show ?case using read_history_step_eq [OF dev, of state index report w "Inr h'" v] by simp
qed

lemma read_history_keeps:
  assumes dev: "reading_file io (wal_fd writer) file durable pos" "memory_available (os_allocate io)" "pos w = 0"
    and run: "read_history io writer state index report w = Some ((result, writer', report'), w')"
  shows "file w' = file w \<and> durable w' = durable w"
proof (rule read_history_header [OF dev(1,3) run], goal_cases header refused)
  case (header w1)
  then show ?case using read_history_loop_keeps [OF dev(1,2) header(5)] by simp
qed simp

lemma replay_open_stages:
  assumes dev: "opening_file io fd dfd file durable pos" "reading_file io fd file durable pos" "memory_available (os_allocate io)"
    and closed: "\<not> invalid_path path" "wal_state writer = WRITER_CLOSED" "wal_fd writer = - 1" "wal_directory_fd writer = - 1"
    and run: "faultline_wal_replay_open_with_io io writer path report w = Some ((result, writer', report'), w')"
  obtains (failed) "result = Inl REPLAY_IO_ERROR" "wal_state writer' = WRITER_FAILED" "file w' = file w" "durable w' = durable w"
  | (opened) w1 out1 w2 out2 w3 out3 where "pos w1 = 0" "file w1 = file w" "durable w1 = durable w"
    "read_history io (opened_writer writer fd dfd) replay_init empty_index empty_report w1 = Some (out1, w2)"
    "truncate_tail io out1 w2 = Some (out2, w3)" "sync_recovery io out2 w3 = Some (out3, w')"
    "publish_recovery out3 = (result, writer', report')"
proof -
  obtain s writer1 w0 where w0: "faultline_wal_writer_open_file io writer path False w = Some (s, writer1, w0)"
    using run closed by (auto simp: faultline_wal_replay_open_with_io_def bind_eq_Some_conv)
  show thesis
  proof (rule open_file_Some [OF dev(1) w0 closed], goal_cases opened failed)
    case opened
    obtain b w1 where w1: "os_allocate io w0 = (b, w1)" by fastforce
    then have "b" using dev(3) by (auto simp: memory_available_def dest: spec [of _ w0])
    then obtain out1 w2 out2 w3 out3 where
      "read_history io (opened_writer writer fd dfd) replay_init empty_index empty_report w1 = Some (out1, w2)"
      "truncate_tail io out1 w2 = Some (out2, w3)" "sync_recovery io out2 w3 = Some (out3, w')"
      "publish_recovery out3 = (result, writer', report')"
      using run closed w0 opened(1,2) w1 by (auto simp: faultline_wal_replay_open_with_io_def bind_eq_Some_conv)
    then show thesis using that(2) [of w1] reading_allocateD [OF dev(2) w1] opened by auto
  next
    case failed
    then show thesis using run closed w0
      by (intro that(1)) (auto simp: faultline_wal_replay_open_with_io_def)
  qed
qed

lemma publish_refusal:
  assumes "truncate_tail io (Inl e, writer, report) w = Some (out1, w1)" "sync_recovery io out1 w1 = Some (out2, w2)"
    "publish_recovery out2 = (result, writer', report')"
  shows "result = Inl e \<and> wal_state writer' = WRITER_FAILED \<and> w2 = w"
  using assms by (auto simp: truncate_tail_def sync_recovery_def publish_recovery_def split: if_splits)

lemma replay_open_complete:
  assumes dev: "opening_file io fd dfd file durable pos" "recovering_file io fd dfd file durable pos" "memory_available (os_allocate io)"
    and closed: "\<not> invalid_path path" "wal_state writer = WRITER_CLOSED" "wal_fd writer = - 1" "wal_directory_fd writer = - 1"
    and start: "file w = file_header @ log_bytes rs @ tail"
    and history: "sequenced 0 rs" "replay_records (replay_init, empty_index) rs = Inr (state, index)"
      "torn_after (last_sequence 0 rs) tail" "int (length (file_header @ log_bytes rs)) \<le> INT64_MAX"
    and run: "faultline_wal_replay_open_with_io io writer path report w = Some ((result, writer', report'), w')"
  shows "(result = Inr state \<and> file w' = file_header @ log_bytes rs \<and> durable w' = file w' \<and>
      writer' = (opened_writer writer fd dfd)\<lparr> wal_synced_sequence := last_sequence 0 rs,
        wal_next_sequence := next_id (last_sequence 0 rs), wal_state := WRITER_READY \<rparr>) \<or>
    (result = Inl REPLAY_IO_ERROR \<and> wal_state writer' = WRITER_FAILED \<and>
      (file w' = file w \<or> file w' = file_header @ log_bytes rs))"
proof -
  have reading: "reading_file io fd file durable pos" using recoveringD [OF dev(2)] by simp
  show ?thesis
  proof (rule replay_open_stages [OF dev(1) reading dev(3) closed run], goal_cases failed opened)
    case (opened w1 out1 w2 out2 w3 out3)
    obtain result1 writer1 report1 where out1: "out1 = (result1, writer1, report1)" by (cases out1)
    let ?writer = "opened_writer writer fd dfd"
    have dev': "reading_file io (wal_fd ?writer) file durable pos"
      "recovering_file io (wal_fd ?writer) (wal_directory_fd ?writer) file durable pos" using reading dev(2) by simp_all
    have file1: "file w1 = file_header @ log_bytes rs @ tail" using start opened(2) by simp
    have k: "file w2 = file w1 \<and> durable w2 = durable w1 \<and>
      (result1 = Inl REPLAY_IO_ERROR \<and> wal_state writer1 = WRITER_FAILED \<or>
       result1 = Inr state \<and> writer1 = ?writer \<and> rp_valid_bytes report1 = length (file_header @ log_bytes rs) \<and>
         rp_tail_bytes report1 = length tail)"
      by (rule read_history_complete [OF dev'(1) dev(3) opened(1) file1 history opened(4) [unfolded out1]])
    show ?case
    proof (cases result1)
      case (Inl e)
      then show ?thesis using publish_refusal [OF opened(5) [unfolded out1 Inl] opened(6,7)] opened(2,3) k by auto
    next
      case (Inr state1)
      then have r1: "out1 = (Inr state, ?writer, report1)" "rp_valid_bytes report1 = length (file_header @ log_bytes rs)"
        "rp_tail_bytes report1 = length tail" using k out1 by auto
      have file2: "file w2 = (file_header @ log_bytes rs) @ tail" using k file1 by simp
      have "rs_last_sequence state = last_sequence 0 rs"
        using replay_records_sequence [OF history(2)] by (simp add: replay_init_def)
      with settle_recovery [OF dev'(2) file2 r1(2,3) opened(5) [unfolded r1] opened(6,7)]
      show ?thesis using opened(2) file1 by auto
    qed
  qed auto
qed

lemma replay_open_sound:
  assumes dev: "opening_file io fd dfd file durable pos" "recovering_file io fd dfd file durable pos" "memory_available (os_allocate io)"
    and closed: "\<not> invalid_path path" "wal_state writer = WRITER_CLOSED" "wal_fd writer = - 1" "wal_directory_fd writer = - 1"
    and run: "faultline_wal_replay_open_with_io io writer path report w = Some ((result, writer', report'), w')"
  shows "case result of
      Inl e \<Rightarrow> wal_state writer' = WRITER_FAILED \<and> (e \<noteq> REPLAY_IO_ERROR \<longrightarrow> file w' = file w \<and> durable w' = durable w)
    | Inr state \<Rightarrow> \<exists>rs index tail. sequenced 0 rs \<and> replay_records (replay_init, empty_index) rs = Inr (state, index) \<and>
        replay_wf state index \<and> file w = file_header @ log_bytes rs @ tail \<and>
        (tail \<noteq> [] \<longrightarrow> faultline_wal_record_decode tail (rs_last_sequence state + 1) = Inl WAL_INCOMPLETE) \<and>
        file w' = file_header @ log_bytes rs \<and> durable w' = file w' \<and>
        writer' = (opened_writer writer fd dfd)\<lparr> wal_synced_sequence := last_sequence 0 rs,
          wal_next_sequence := next_id (last_sequence 0 rs), wal_state := WRITER_READY \<rparr>"
proof -
  have reading: "reading_file io fd file durable pos" using recoveringD [OF dev(2)] by simp
  show ?thesis
  proof (rule replay_open_stages [OF dev(1) reading dev(3) closed run], goal_cases failed opened)
    case (opened w1 out1 w2 out2 w3 out3)
    obtain result1 writer1 report1 where out1: "out1 = (result1, writer1, report1)" by (cases out1)
    let ?writer = "opened_writer writer fd dfd"
    have dev': "reading_file io (wal_fd ?writer) file durable pos"
      "recovering_file io (wal_fd ?writer) (wal_directory_fd ?writer) file durable pos" using reading dev(2) by simp_all
    show ?case
    proof (cases result1)
      case (Inl e)
      then show ?thesis
        using publish_refusal [OF opened(5) [unfolded out1 Inl] opened(6,7)] opened(2,3)
          read_history_keeps [OF dev'(1) dev(3) opened(1) opened(4) [unfolded out1]] by auto
    next
      case (Inr state)
      obtain rs index tail where h: "sequenced 0 rs" "replay_records (replay_init, empty_index) rs = Inr (state, index)"
        "file w1 = file_header @ log_bytes rs @ tail" "file w2 = file w1" "writer1 = ?writer"
        "rp_valid_bytes report1 = length (file_header @ log_bytes rs)" "rp_tail_bytes report1 = length tail"
        "tail \<noteq> [] \<longrightarrow> faultline_wal_record_decode tail (rs_last_sequence state + 1) = Inl WAL_INCOMPLETE"
        using read_history_sound [OF dev'(1) dev(3) opened(1) opened(4) [unfolded out1 Inr]] by blast
      have file2: "file w2 = (file_header @ log_bytes rs) @ tail" using h by simp
      have last: "rs_last_sequence state = last_sequence 0 rs"
        using replay_records_sequence [OF h(2)] by (simp add: replay_init_def)
      have wf: "replay_wf state index" by (rule replay_records_wf [OF h(2,1) replay_init_wf])
      have out: "out1 = (Inr state, ?writer, report1)" using out1 Inr h by simp
      from settle_recovery [OF dev'(2) file2 h(6,7) opened(5) [unfolded out] opened(6,7)]
      consider (ok) "result = Inr state" "file w' = file_header @ log_bytes rs" "durable w' = file w'"
          "writer' = (opened_writer writer fd dfd)\<lparr> wal_synced_sequence := last_sequence 0 rs,
            wal_next_sequence := next_id (last_sequence 0 rs), wal_state := WRITER_READY \<rparr>"
        | (bad) "result = Inl REPLAY_IO_ERROR" "wal_state writer' = WRITER_FAILED"
        unfolding last by auto
      then show ?thesis
      proof cases
        case ok
        have "file w = file_header @ log_bytes rs @ tail" using h(3) opened(2) by simp
        with ok h wf show ?thesis by (auto intro!: exI [of _ rs] exI [of _ index] exI [of _ tail])
      qed auto
    qed
  qed auto
qed

text \<open>When no call is interrupted forever, opening a log returns.\<close>

definition call_ends :: "('w \<Rightarrow> nat) \<Rightarrow> ('w \<Rightarrow> (errno + 'a) \<times> 'w) \<Rightarrow> bool" where
  "call_ends budget call \<longleftrightarrow>
     (\<forall>w r w'. call w = (r, w') \<longrightarrow> (if r = Inl EINTR then budget w' < budget w else budget w' \<le> budget w))"

definition recovery_ends :: "'w faultline_wal_writer_io \<Rightarrow> int \<Rightarrow> int \<Rightarrow> ('w \<Rightarrow> nat) \<Rightarrow> bool" where
  "recovery_ends io fd dfd budget \<longleftrightarrow>
     reads_end io fd budget \<and> interruptions_end io fd budget \<and> call_ends budget (io_sync io dfd) \<and>
     (\<forall>n. call_ends budget (io_truncate io fd n)) \<and> (\<forall>path. call_ends budget (os_open_directory io path)) \<and>
     (\<forall>name create. call_ends budget (os_openat io dfd name create)) \<and> call_ends budget (os_fstat_regular io fd) \<and>
     call_ends budget (io_lock io fd)"

lemma retry_returns:
  assumes "call_ends budget call"
  shows "\<exists>r w'. retry_eintr call w = Some (r, w') \<and> budget w' \<le> budget w"
proof (induction "budget w" arbitrary: w rule: less_induct)
  case less
  obtain q v where q: "call w = (q, v)" by fastforce
  then have "if q = Inl EINTR then budget v < budget w else budget v \<le> budget w"
    using assms unfolding call_ends_def by blast
  then show ?case using q less [of v]
    by (cases q) (auto simp: retry_eintr.simps [of _ w] intro: order.trans [OF _ less_imp_le] split: if_splits)
qed

lemma open_file_returns:
  assumes dev: "opening_file io fd dfd file durable pos" "recovery_ends io fd dfd budget"
  shows "\<exists>result writer' w'. faultline_wal_writer_open_file io writer path create w = Some (result, writer', w')"
proof -
  obtain copied w1 where w1: "os_allocate io w = (copied, w1)" by fastforce
  have ends: "call_ends budget (os_open_directory io path')" "call_ends budget (os_openat io dfd name create)"
    "call_ends budget (os_fstat_regular io fd)" "call_ends budget (io_lock io fd)" for path' name
    using dev(2) by (auto simp: recovery_ends_def)
  obtain d w2 where w2: "retry_eintr (os_open_directory io (path_directory path)) w1 = Some (d, w2)"
    using retry_returns [OF ends(1)] by blast
  have d: "d = Inr d' \<Longrightarrow> d' = dfd" for d' using opening_directoryD [OF dev(1) w2] by blast
  obtain f w3 where w3: "retry_eintr (os_openat io dfd (path_name path) create) w2 = Some (f, w3)"
    using retry_returns [OF ends(2)] by blast
  have f: "f = Inr f' \<Longrightarrow> f' = fd" for f' using opening_openatD [OF dev(1) w3] by simp
  obtain i w4 where w4: "retry_eintr (os_fstat_regular io fd) w3 = Some (i, w4)"
    using retry_returns [OF ends(3)] by blast
  obtain l w5 where w5: "retry_eintr (io_lock io fd) w4 = Some (l, w5)" using retry_returns [OF ends(4)] by blast
  show ?thesis
    using w1 w2 w3 w4 w5 d f
    by (cases d; cases f; cases i; cases l) (simp_all add: faultline_wal_writer_open_file_def Let_def)
qed

lemma sync_returns:
  "call_ends budget (io_sync io fd) \<Longrightarrow> \<exists>result writer' w'. faultline_wal_writer_sync io writer fd operation w = Some (result, writer', w')"
  using retry_returns [of budget "io_sync io fd" w]
  by (auto simp: faultline_wal_writer_sync_def split: sum.splits)

lemma truncate_tail_returns:
  assumes "\<And>n. call_ends budget (io_truncate io (wal_fd writer) n)"
  shows "\<exists>out w'. truncate_tail io (result, writer, report) w = Some (out, w')"
  using retry_returns [OF assms, of "rp_valid_bytes report" w] by (auto simp: truncate_tail_def split: sum.splits)

lemma truncate_tail_fds:
  assumes "truncate_tail io (result, writer, report) w = Some ((result', writer', report'), w')"
  shows "wal_fd writer' = wal_fd writer \<and> wal_directory_fd writer' = wal_directory_fd writer"
proof (cases "\<not> isl result \<and> rp_tail_bytes report \<noteq> 0")
  case True
  then obtain q v where "retry_eintr (io_truncate io (wal_fd writer) (rp_valid_bytes report)) w = Some (q, v)"
    using assms by (auto simp: truncate_tail_def bind_eq_Some_conv)
  then show ?thesis using assms True by (cases q) (auto simp: truncate_tail_def)
qed (use assms in \<open>auto simp: truncate_tail_def split: if_splits\<close>)

lemma sync_fds:
  assumes "faultline_wal_writer_sync io writer fd operation w = Some (result, writer', w')"
  shows "wal_fd writer' = wal_fd writer \<and> wal_directory_fd writer' = wal_directory_fd writer"
proof -
  obtain q v where "retry_eintr (io_sync io fd) w = Some (q, v)"
    using assms by (auto simp: faultline_wal_writer_sync_def bind_eq_Some_conv)
  then show ?thesis using assms by (cases q) (auto simp: faultline_wal_writer_sync_def)
qed

lemma sync_recovery_returns:
  assumes "call_ends budget (io_sync io (wal_fd writer))" "call_ends budget (io_sync io (wal_directory_fd writer))"
  shows "\<exists>out w'. sync_recovery io (result, writer, report) w = Some (out, w')"
proof (cases result)
  case (Inr state)
  obtain s writer1 w1 where s: "faultline_wal_writer_sync io writer (wal_fd writer) IO_SYNC_RECOVERY w = Some (s, writer1, w1)"
    using sync_returns [OF assms(1)] by blast
  have fd: "wal_directory_fd writer1 = wal_directory_fd writer" using sync_fds [OF s] by simp
  obtain s' writer2 w2 where "faultline_wal_writer_sync io writer1 (wal_directory_fd writer) IO_SYNC_DIRECTORY w1 = Some (s', writer2, w2)"
    using sync_returns [OF assms(2)] by blast
  with s fd Inr show ?thesis by (simp add: sync_recovery_def)
qed (simp add: sync_recovery_def)

lemma read_history_returns:
  assumes dev: "reading_file io (wal_fd writer) file durable pos" "memory_available (os_allocate io)" "reads_end io (wal_fd writer) budget"
  shows "\<exists>out w'. read_history io writer state index report w = Some (out, w')"
proof -
  obtain h w1 where h: "read_exact io writer FAULTLINE_WAL_FILE_HEADER_SIZE w = Some (h, w1)"
    using read_exact_returns [OF dev(3)] by blast
  show ?thesis
    using h read_history_loop_returns [OF dev, of "(state, index, report\<lparr> rp_valid_bytes := FAULTLINE_WAL_FILE_HEADER_SIZE \<rparr>)" w1]
    by (cases h) (auto simp: read_history_def split: option.splits)
qed

lemma history_writer_fd:
  assumes dev: "reading_file io (wal_fd writer) file durable pos" "memory_available (os_allocate io)" "pos w = 0"
    and run: "read_history io writer replay_init empty_index empty_report w = Some ((Inr state, writer', report), w')"
  shows "writer' = writer"
  using read_history_sound [OF dev run] by blast

lemma replay_open_returns:
  assumes dev: "opening_file io fd dfd file durable pos" "reading_file io fd file durable pos" "memory_available (os_allocate io)"
    "recovery_ends io fd dfd budget"
  shows "\<exists>out w'. faultline_wal_replay_open_with_io io writer path report w = Some (out, w')"
proof (cases "invalid_path path \<or> wal_state writer \<noteq> WRITER_CLOSED \<or> wal_fd writer \<noteq> - 1 \<or> wal_directory_fd writer \<noteq> - 1")
  case True
  then show ?thesis
    by (auto simp: faultline_wal_replay_open_with_io_def faultline_wal_writer_open_file_def)
next
  case False
  then have closed: "\<not> invalid_path path" "wal_state writer = WRITER_CLOSED" "wal_fd writer = - 1" "wal_directory_fd writer = - 1"
    by auto
  let ?writer = "opened_writer writer fd dfd"
  obtain s writer1 w0 where w0: "faultline_wal_writer_open_file io writer path False w = Some (s, writer1, w0)"
    using open_file_returns [OF dev(1,4)] by blast
  show ?thesis
  proof (rule open_file_Some [OF dev(1) w0 closed], goal_cases opened failed)
    case opened
    obtain b w1 where w1: "os_allocate io w0 = (b, w1)" by fastforce
    then have b: "b" using dev(3) by (auto simp: memory_available_def dest: spec [of _ w0])
    have pos: "pos w1 = 0" using reading_allocateD [OF dev(2) w1] opened by simp
    have dev': "reading_file io (wal_fd ?writer) file durable pos" "reads_end io (wal_fd ?writer) budget"
      using dev(2,4) by (simp_all add: recovery_ends_def)
    obtain result1 writer2 report1 w2 where
      w2: "read_history io ?writer replay_init empty_index empty_report w1 = Some ((result1, writer2, report1), w2)"
      using read_history_returns [OF dev'(1) dev(3) dev'(2)] by (metis prod.exhaust)
    have "\<exists>out2 w3. truncate_tail io (result1, writer2, report1) w2 = Some (out2, w3) \<and> (\<exists>out3 w4. sync_recovery io out2 w3 = Some (out3, w4))"
    proof (cases result1)
      case (Inl e)
      then show ?thesis by (simp add: truncate_tail_def sync_recovery_def)
    next
      case (Inr state)
      then have writer2: "writer2 = ?writer" using history_writer_fd [OF dev'(1) dev(3) pos] w2 by blast
      have ends: "call_ends budget (io_truncate io (wal_fd ?writer) n)" "call_ends budget (io_sync io (wal_fd ?writer))"
        "call_ends budget (io_sync io (wal_directory_fd ?writer))" for n
        using dev(4) by (auto simp: recovery_ends_def interruptions_end_def call_ends_def)
      obtain out2 w3 where t: "truncate_tail io (result1, writer2, report1) w2 = Some (out2, w3)"
        using truncate_tail_returns [OF ends(1)] unfolding writer2 by blast
      have "\<exists>out3 w4. sync_recovery io out2 w3 = Some (out3, w4)"
      proof (cases out2)
        case (fields result2 writer3 report2)
        have "wal_fd writer3 = wal_fd ?writer \<and> wal_directory_fd writer3 = wal_directory_fd ?writer"
          using truncate_tail_fds [OF t [unfolded fields]] writer2 by simp
        then show ?thesis using sync_recovery_returns [of budget io writer3] ends fields by simp
      qed
      with t show ?thesis by blast
    qed
    then obtain out2 w3 out3 w4 where "truncate_tail io (result1, writer2, report1) w2 = Some (out2, w3)"
      "sync_recovery io out2 w3 = Some (out3, w4)" by blast
    then show ?thesis using closed w0 opened(1,2) w1 b w2
      by (intro exI [of _ "publish_recovery out3"] exI [of _ w4]) (simp add: faultline_wal_replay_open_with_io_def)
  next
    case failed
    then show ?thesis using closed w0 by (simp add: faultline_wal_replay_open_with_io_def)
  qed
qed

section \<open>The device in memory recovers\<close>

lemma memory_reading: "reading_file memory_io fd md_file md_durable md_position"
proof -
  have whole: "take (min (length b - p) k) (drop p b) = take k (drop p b)" for k p and b :: bytes by (simp add: min_def)
  show ?thesis by (auto simp: reading_file_def interruptible_def whole)
qed

lemma memory_recovering: "recovering_file memory_io 5 4 md_file md_durable md_position"
proof -
  have cut: "take n (d :: bytes) = d" if "prefix d (take n f)" for d f n using prefix_length_le [OF that] by simp
  show ?thesis
    using memory_reading [of 5] memory_appending [of 5] by (auto simp: recovering_file_def interruptible_def cut)
qed

lemma memory_opening: "opening_file memory_io 5 4 md_file md_durable md_position"
  by (auto simp: opening_file_def)

lemma memory_memory: "memory_available (os_allocate memory_io)"
  by (simp add: memory_available_def)

lemma memory_recovery_ends: "recovery_ends memory_io 5 4 md_interrupts"
  using memory_interruptions [of 5]
  by (auto simp: recovery_ends_def reads_end_def call_ends_def interruptible_def EEXIST_def EINTR_def)

text \<open>A file that holds these bytes, none of them known to be durable, on a device that interrupts twice.\<close>

definition device_with :: "bytes \<Rightarrow> memory_device" where
  "device_with b = \<lparr> md_file = b, md_durable = [], md_position = 0, md_interrupts = 2 \<rparr>"

lemma device_with_file [simp]: "md_file (device_with b) = b"
  by (simp add: device_with_def)

lemmas memory_contracts = memory_opening memory_recovering memory_memory memory_recovery_ends

text \<open>A history: two workers were given identifiers, one log write was cut short.\<close>

definition worker_record :: "u64 \<Rightarrow> u32 \<Rightarrow> faultline_wal_record" where
  "worker_record n i = \<lparr> wr_sequence = n, wr_payload = WORKER_ID i \<rparr>"

definition sample_history :: "faultline_wal_record list" where
  "sample_history = [worker_record 1 1, worker_record 2 3]"

definition sample_tail :: bytes where
  "sample_tail = take 9 (record_bytes (worker_record 3 4))"

definition sample_state :: faultline_wal_replay_state where
  "sample_state = replay_init\<lparr> rs_last_sequence := 2, rs_highest_worker_id := 3,
     rs_workers := (rs_workers replay_init)\<lparr> r_next_worker_id := 4 \<rparr> \<rparr>"

definition sample_index :: worker_index where
  "sample_index = \<lparr> ix_ranges = [(1, 1), (3, 3)], ix_capacity = 16 \<rparr>"

lemma worker_record_sequence [simp]: "wr_sequence (worker_record n i) = n"
  by (simp add: worker_record_def)

lemma worker_record_loggable: "n \<noteq> 0 \<Longrightarrow> i \<noteq> 0 \<Longrightarrow> loggable (worker_record n i)"
  by (simp add: loggable_def worker_record_def)

lemma sample_replay:
  "sequenced 0 sample_history" "replay_records (replay_init, empty_index) sample_history = Inr (sample_state, sample_index)"
  "torn_after (last_sequence 0 sample_history) sample_tail" "int (length (file_header @ log_bytes sample_history)) \<le> INT64_MAX"
  "last_sequence 0 sample_history = 2"
proof -
  show seq: "sequenced 0 sample_history"
    by (simp add: sample_history_def worker_record_loggable)
  show "replay_records (replay_init, empty_index) sample_history = Inr (sample_state, sample_index)"
    by (simp add: sample_history_def worker_record_def sample_state_def sample_index_def apply_record_def allocate_worker_def
        empty_index_def replay_init_def next_id_def word_le_nat_alt)
  show "last_sequence 0 sample_history = 2" by (simp add: sample_history_def)
  have l: "length (record_bytes (worker_record n i)) = 36" for n i
    by (simp add: length_record_bytes) (simp add: worker_record_def wal_sizes)
  then show "torn_after (last_sequence 0 sample_history) sample_tail"
    by (auto simp: torn_after_def sample_history_def sample_tail_def worker_record_loggable strict_prefix_def take_is_prefix
        dest: arg_cong [of _ _ length]
        intro!: exI [of _ "worker_record 3 4"])
  show "int (length (file_header @ log_bytes sample_history)) \<le> INT64_MAX"
    using l by (simp add: sample_history_def FAULTLINE_WAL_FILE_HEADER_SIZE_def)
qed

section \<open>Properties\<close>





text \<open>The index after a sequence of identifiers, none of them refused.\<close>

fun allocate_workers ::
  "faultline_wal_replay_state \<times> worker_index \<Rightarrow> u32 list \<Rightarrow> (faultline_wal_replay_state \<times> worker_index) option" where
  "allocate_workers h [] = Some h"
| "allocate_workers (state, index) (i # is) =
     (case allocate_worker (Pair True) state index i () of
        (Inl _, _) \<Rightarrow> None
      | (Inr h, _) \<Rightarrow> allocate_workers h is)"

lemma allocate_workers_ids:
  assumes "allocate_workers (state, index) is = Some (state', index')" "index_wf index (rs_highest_worker_id state)"
  shows "index_wf index' (rs_highest_worker_id state') \<and> allocated_ids index' = allocated_ids index \<union> set is"
  using assms
proof (induction "is" arbitrary: state index)
  case (Cons i "is")
  obtain state1 index1 where one: "allocate_worker (Pair True) state index i () = (Inr (state1, index1), ())"
    and rest: "allocate_workers (state1, index1) is = Some (state', index')"
    using Cons.prems(1) by (auto split: sum.splits prod.splits)
  note k = allocate_worker_Inr [OF Cons.prems(2) one]
  then have "index_wf index1 (rs_highest_worker_id state1)" by (simp add: record_worker_def)
  from Cons.IH [OF rest this] k show ?case by auto
qed simp

text \<open>Claim C29. The compressed index is exact. After any sequence of accepted worker identifiers the
  binary search over the merged ranges finds exactly the identifiers of the sequence.\<close>

theorem index_search_exact:
  assumes "allocate_workers (replay_init, empty_index) is = Some (state, index)"
  shows "worker_was_allocated index i \<longleftrightarrow> i \<in> set is"
proof -
  have "index_wf empty_index (rs_highest_worker_id replay_init)" using empty_index_wf by (simp add: replay_init_def)
  note k = allocate_workers_ids [OF assms this]
  then show ?thesis using worker_was_allocated_iff [of index "rs_highest_worker_id state" i] by (simp add: allocated_ids_def empty_index_def)
qed

theorem index_search_exact_witness:
  "\<exists>state index. allocate_workers (replay_init, empty_index) [1, 2, 5] = Some (state, index) \<and>
    ix_ranges index = [(1, 2), (5, 5)] \<and> worker_was_allocated index 2 \<and> \<not> worker_was_allocated index 3"
proof -
  have run: "\<exists>state index. allocate_workers (replay_init, empty_index) [1, 2, 5] = Some (state, index) \<and> ix_ranges index = [(1, 2), (5, 5)]"
    by (simp add: allocate_worker_def replay_init_def empty_index_def next_id_def word_le_nat_alt)
  then obtain state index where "allocate_workers (replay_init, empty_index) [1, 2, 5] = Some (state, index)"
    "ix_ranges index = [(1, 2), (5, 5)]" by blast
  with index_search_exact [OF this(1), of 2] index_search_exact [OF this(1), of 3] show ?thesis by auto
qed

end
