(* ===== verification/Coordinator_Store.thy ===== *)
theory Coordinator_Store
  imports Wal_Replay
begin

text \<open>
  The durable state of the coordinator (\<^verbatim>\<open>include/coordinator_store.h\<close>,
  \<^verbatim>\<open>src/coordinator/coordinator_store.c\<close>): every change is prepared on a scratch scheduler or a
  candidate registry, appended to the log and synced, and only then published. The lemmas show that
  the published jobs and allocators are always exactly the replay of the records in the log, that
  what a crash leaves of the file recovers to the published state or to the one transaction that was
  in flight, that a failure disables every later change, and that opening leaves no attempt of an
  earlier run active. An operation returns \<open>None\<close> when a retried system call never returns.
\<close>

section \<open>State\<close>

datatype store_error = STORE_REJECTED | STORE_EMPTY | STORE_FATAL

datatype store_failure =
    STORE_FAILURE_NONE
  | STORE_FAILURE_OPEN
  | STORE_FAILURE_WAL
  | STORE_FAILURE_CLOCK
  | STORE_FAILURE_INTERNAL

text \<open>The replay result is \<open>None\<close> for success.\<close>

record faultline_coordinator_store =
  st_jobs :: faultline_scheduler
  st_workers :: faultline_worker_registry
  st_scratch :: faultline_scheduler
  st_wal :: faultline_wal_writer
  st_replay_report :: faultline_wal_replay_report
  st_replay_result :: "wal_replay_error option"
  st_write_result :: wal_writer_result
  st_failure :: store_failure
  st_opened :: bool
  st_time_base_ms :: int
  st_session_start_ms :: int
  st_last_job_time_ms :: int
  st_interrupted_jobs :: nat

type_synonym ('a, 'w) store_outcome = "((store_error + 'a) \<times> faultline_coordinator_store \<times> 'w) option"

definition store_fail :: "faultline_coordinator_store \<Rightarrow> store_failure \<Rightarrow> faultline_coordinator_store" where
  "store_fail store failure =
     (if st_failure store = STORE_FAILURE_NONE then store\<lparr> st_failure := failure \<rparr> else store)"

definition usable :: "faultline_coordinator_store \<Rightarrow> bool" where
  "usable store \<longleftrightarrow> st_opened store \<and> st_failure store = STORE_FAILURE_NONE"

text \<open>The scratch scheduler starts as zeroed memory.\<close>

definition faultline_store_init :: faultline_coordinator_store where
  "faultline_store_init =
     \<lparr> st_jobs = faultline_scheduler_init, st_workers = faultline_worker_registry_init,
       st_scratch = \<lparr> s_jobs = [], s_next_job_id = 0,
         s_pending = \<lparr> q_ids = replicate FAULTLINE_JOB_QUEUE_CAPACITY 0, q_head = 0, q_count = 0 \<rparr> \<rparr>,
       st_wal = FAULTLINE_WAL_WRITER_INIT, st_replay_report = empty_report, st_replay_result = None,
       st_write_result = WRITE_OK, st_failure = STORE_FAILURE_NONE, st_opened = False,
       st_time_base_ms = 0, st_session_start_ms = 0, st_last_job_time_ms = 0, st_interrupted_jobs = 0 \<rparr>"

section \<open>Committing\<close>

text \<open>The logical time of a clock reading, or the store that failed on it.\<close>

definition job_time :: "faultline_coordinator_store \<Rightarrow> int \<Rightarrow> faultline_coordinator_store + int" where
  "job_time store raw =
     (if raw < st_session_start_ms store \<or> raw < 0 \<or>
        raw - st_session_start_ms store > INT64_MAX - st_time_base_ms store
      then Inl (store_fail store STORE_FAILURE_CLOCK)
      else
        (let time = st_time_base_ms store + (raw - st_session_start_ms store) in
         if time < st_last_job_time_ms store then Inl (store_fail store STORE_FAILURE_CLOCK) else Inr time))"

definition store_append ::
  "'w faultline_wal_writer_io \<Rightarrow> faultline_coordinator_store \<Rightarrow> wal_payload \<Rightarrow> 'w \<Rightarrow> (unit, 'w) store_outcome" where
  "store_append io store payload w =
     do {
       (result, wal, w) \<leftarrow>
         faultline_wal_writer_append io (st_wal store)
           \<lparr> wr_sequence = wal_next_sequence (st_wal store), wr_payload = payload \<rparr> w;
       (let store = store\<lparr> st_wal := wal, st_write_result := result \<rparr> in
        if result \<noteq> WRITE_OK then Some (Inl STORE_FATAL, store_fail store STORE_FAILURE_WAL, w)
        else Some (Inr (), store, w))
     }"

definition commit_job ::
  "'w faultline_wal_writer_io \<Rightarrow> faultline_coordinator_store \<Rightarrow> u64 \<Rightarrow> wal_job_event \<Rightarrow> 'w \<Rightarrow> (unit, 'w) store_outcome" where
  "commit_job io store job_id type w =
     (case faultline_scheduler_find (st_scratch store) job_id of
        None \<Rightarrow> Some (Inl STORE_FATAL, store_fail store STORE_FAILURE_INTERNAL, w)
      | Some job \<Rightarrow>
          do {
            (appended, store, w) \<leftarrow> store_append io store (JOB_SNAPSHOT type job) w;
            (case appended of
               Inl _ \<Rightarrow> Some (Inl STORE_FATAL, store, w)
             | Inr _ \<Rightarrow>
                 Some (Inr (), store\<lparr> st_jobs := st_scratch store, st_last_job_time_ms := j_updated_at_ms job \<rparr>, w))
          })"

section \<open>Operations\<close>

definition faultline_store_register ::
  "'w faultline_wal_writer_io \<Rightarrow> faultline_coordinator_store \<Rightarrow> int \<Rightarrow> int \<Rightarrow> 'w \<Rightarrow> (u32, 'w) store_outcome" where
  "faultline_store_register io store fd now_ms w =
     (if \<not> usable store then Some (Inl STORE_FATAL, store, w)
      else if now_ms < 0 then Some (Inl STORE_FATAL, store_fail store STORE_FAILURE_CLOCK, w)
      else
        (case faultline_worker_register (st_workers store) fd now_ms of
           Inl _ \<Rightarrow> Some (Inl STORE_REJECTED, store, w)
         | Inr (worker_id, candidate) \<Rightarrow>
             do {
               (appended, store, w) \<leftarrow> store_append io store (WORKER_ID worker_id) w;
               (case appended of
                  Inl _ \<Rightarrow> Some (Inl STORE_FATAL, store, w)
                | Inr _ \<Rightarrow> Some (Inr worker_id, store\<lparr> st_workers := candidate \<rparr>, w))
             }))"

definition faultline_store_submit ::
  "'w faultline_wal_writer_io \<Rightarrow> faultline_coordinator_store \<Rightarrow> faultline_job_submit_payload \<Rightarrow> int \<Rightarrow> 'w \<Rightarrow>
     (u64, 'w) store_outcome" where
  "faultline_store_submit io store submit now_ms w =
     (if \<not> usable store then Some (Inl STORE_FATAL, store, w)
      else
        (case job_time store now_ms of
           Inl store \<Rightarrow> Some (Inl STORE_FATAL, store, w)
         | Inr time \<Rightarrow>
             (let store = store\<lparr> st_scratch := st_jobs store \<rparr> in
              case faultline_scheduler_submit (st_scratch store) submit time of
                Inl e \<Rightarrow>
                  if e = SCHEDULER_QUEUE_ERROR
                  then Some (Inl STORE_FATAL, store_fail store STORE_FAILURE_INTERNAL, w)
                  else Some (Inl STORE_REJECTED, store, w)
              | Inr (job_id, scratch) \<Rightarrow>
                  do {
                    (committed, store, w) \<leftarrow> commit_job io (store\<lparr> st_scratch := scratch \<rparr>) job_id WAL_JOB_CREATED w;
                    (case committed of
                       Inl _ \<Rightarrow> Some (Inl STORE_FATAL, store, w)
                     | Inr _ \<Rightarrow> Some (Inr job_id, store, w))
                  })))"

text \<open>The job of an assignment the scheduler made.\<close>

fun assigned_job_id :: "faultline_message \<Rightarrow> u64" where
  "assigned_job_id (MSG_JOB_ASSIGN p) = i_job_id (asg_identity p)"
| "assigned_job_id _ = 0"

definition faultline_store_assign ::
  "'w faultline_wal_writer_io \<Rightarrow> faultline_coordinator_store \<Rightarrow> u32 \<Rightarrow> int \<Rightarrow> 'w \<Rightarrow> (faultline_message, 'w) store_outcome" where
  "faultline_store_assign io store worker_id now_ms w =
     (if \<not> usable store then Some (Inl STORE_FATAL, store, w)
      else if \<not> (case faultline_worker_find (st_workers store) worker_id of
                   None \<Rightarrow> False | Some worker \<Rightarrow> w_state worker = WORKER_ALIVE)
      then Some (Inl STORE_REJECTED, store, w)
      else
        (case job_time store now_ms of
           Inl store \<Rightarrow> Some (Inl STORE_FATAL, store, w)
         | Inr time \<Rightarrow>
             (let store = store\<lparr> st_scratch := st_jobs store \<rparr> in
              case faultline_scheduler_assign (st_scratch store) worker_id time of
                Inl e \<Rightarrow>
                  if e = SCHEDULER_EMPTY then Some (Inl STORE_EMPTY, store, w)
                  else if e = SCHEDULER_WORKER_BUSY then Some (Inl STORE_REJECTED, store, w)
                  else Some (Inl STORE_FATAL, store_fail store STORE_FAILURE_INTERNAL, w)
              | Inr (candidate, scratch) \<Rightarrow>
                  do {
                    (committed, store, w) \<leftarrow>
                      commit_job io (store\<lparr> st_scratch := scratch \<rparr>) (assigned_job_id candidate) WAL_JOB_ASSIGNED w;
                    (case committed of
                       Inl _ \<Rightarrow> Some (Inl STORE_FATAL, store, w)
                     | Inr _ \<Rightarrow> Some (Inr candidate, store, w))
                  })))"

text \<open>
  The record type of a job's new state. The C code reads the state through the pointer the lookup
  returned; \<^verbatim>\<open>commit_job\<close> makes the same lookup.
\<close>

fun report_event :: "job_state \<Rightarrow> wal_job_event" where
  "report_event JOB_RUNNING = WAL_JOB_STARTED"
| "report_event JOB_DONE = WAL_JOB_COMPLETED"
| "report_event JOB_QUEUED = WAL_JOB_REQUEUED"
| "report_event _ = WAL_JOB_FAILED"

definition faultline_store_report ::
  "'w faultline_wal_writer_io \<Rightarrow> faultline_coordinator_store \<Rightarrow> u32 \<Rightarrow> faultline_message \<Rightarrow> int \<Rightarrow> 'w \<Rightarrow>
     (unit, 'w) store_outcome" where
  "faultline_store_report io store worker_id report now_ms w =
     (if \<not> usable store then Some (Inl STORE_FATAL, store, w)
      else
        (case (faultline_worker_find (st_workers store) worker_id, faultline_scheduler_active (st_jobs store) worker_id) of
           (Some worker, Some active) \<Rightarrow>
             if w_state worker \<noteq> WORKER_ALIVE then Some (Inl STORE_REJECTED, store, w)
             else
               (case job_time store now_ms of
                  Inl store \<Rightarrow> Some (Inl STORE_FATAL, store, w)
                | Inr time \<Rightarrow>
                    (let store = store\<lparr> st_scratch := st_jobs store \<rparr> in
                     case faultline_scheduler_report (st_scratch store) worker_id report time of
                       Inl e \<Rightarrow>
                         if e = SCHEDULER_QUEUE_ERROR
                         then Some (Inl STORE_FATAL, store_fail store STORE_FAILURE_INTERNAL, w)
                         else Some (Inl STORE_REJECTED, store, w)
                     | Inr scratch \<Rightarrow>
                         commit_job io (store\<lparr> st_scratch := scratch \<rparr>) (j_id active)
                           (case faultline_scheduler_find scratch (j_id active) of
                              None \<Rightarrow> WAL_JOB_FAILED
                            | Some candidate \<Rightarrow> report_event (j_state candidate)) w))
         | _ \<Rightarrow> Some (Inl STORE_REJECTED, store, w)))"

definition commit_worker_loss ::
  "'w faultline_wal_writer_io \<Rightarrow> faultline_coordinator_store \<Rightarrow> u32 \<Rightarrow> int \<Rightarrow> 'w \<Rightarrow> (unit, 'w) store_outcome" where
  "commit_worker_loss io store worker_id now_ms w =
     (case faultline_scheduler_active (st_jobs store) worker_id of
        None \<Rightarrow> Some (Inl STORE_EMPTY, store, w)
      | Some active \<Rightarrow>
          (case job_time store now_ms of
             Inl store \<Rightarrow> Some (Inl STORE_FATAL, store, w)
           | Inr time \<Rightarrow>
               (let store = store\<lparr> st_scratch := st_jobs store \<rparr> in
                case faultline_scheduler_worker_lost (st_scratch store) worker_id time of
                  Inl _ \<Rightarrow> Some (Inl STORE_FATAL, store_fail store STORE_FAILURE_INTERNAL, w)
                | Inr scratch \<Rightarrow>
                    commit_job io (store\<lparr> st_scratch := scratch \<rparr>) (j_id active)
                      (case faultline_scheduler_find scratch (j_id active) of
                         None \<Rightarrow> WAL_JOB_FAILED
                       | Some candidate \<Rightarrow>
                           if j_state candidate = JOB_QUEUED then WAL_JOB_REQUEUED else WAL_JOB_FAILED) w)))"

definition faultline_store_worker_lost ::
  "'w faultline_wal_writer_io \<Rightarrow> faultline_coordinator_store \<Rightarrow> u32 \<Rightarrow> int \<Rightarrow> 'w \<Rightarrow> (unit, 'w) store_outcome" where
  "faultline_store_worker_lost io store worker_id now_ms w =
     (if \<not> usable store then Some (Inl STORE_FATAL, store, w)
      else commit_worker_loss io store worker_id now_ms w)"

section \<open>Opening and closing\<close>

text \<open>The loop over the recovered jobs, from slot \<open>i\<close>.\<close>

partial_function (option) recover_from ::
  "'w faultline_wal_writer_io \<Rightarrow> int \<Rightarrow> nat \<Rightarrow> faultline_coordinator_store \<Rightarrow> 'w \<Rightarrow> (unit, 'w) store_outcome" where
  "recover_from io now_ms i store w =
     (if i < length (s_jobs (st_jobs store))
      then
        (let job = s_jobs (st_jobs store) ! i in
         if j_state job = JOB_ASSIGNED \<or> j_state job = JOB_RUNNING
         then
           do {
             (committed, store, w) \<leftarrow> commit_worker_loss io store (j_worker_id job) now_ms w;
             (case committed of
                Inl _ \<Rightarrow> Some (Inl STORE_FATAL, store, w)
              | Inr _ \<Rightarrow>
                  recover_from io now_ms (i + 1) (store\<lparr> st_interrupted_jobs := st_interrupted_jobs store + 1 \<rparr>) w)
           }
         else recover_from io now_ms (i + 1) store w)
      else Some (Inr (), store, w))"

definition recover_interrupted_jobs ::
  "'w faultline_wal_writer_io \<Rightarrow> faultline_coordinator_store \<Rightarrow> int \<Rightarrow> 'w \<Rightarrow> (unit, 'w) store_outcome" where
  "recover_interrupted_jobs io store now_ms w = recover_from io now_ms 0 store w"

text \<open>Creating a log, or recovering one: the first half of opening.\<close>

definition open_log ::
  "'w faultline_wal_writer_io \<Rightarrow> faultline_coordinator_store \<Rightarrow> string \<Rightarrow> bool \<Rightarrow> 'w \<Rightarrow> (unit, 'w) store_outcome" where
  "open_log io store path initialize w =
     (if initialize
      then
        do {
          (result, wal, w) \<leftarrow> faultline_wal_writer_create_with_io io (st_wal store) path w;
          (let store = store\<lparr> st_wal := wal, st_write_result := result \<rparr> in
           if result \<noteq> WRITE_OK then Some (Inl STORE_FATAL, store_fail store STORE_FAILURE_OPEN, w)
           else Some (Inr (), store, w))
        }
      else
        (case os_allocate io w of
           (allocated, w) \<Rightarrow>
             if \<not> allocated
             then Some (Inl STORE_FATAL, store_fail (store\<lparr> st_replay_result := Some REPLAY_NO_MEMORY \<rparr>) STORE_FAILURE_OPEN, w)
             else
               do {
                 ((result, wal, report), w) \<leftarrow>
                   faultline_wal_replay_open_with_io io (st_wal store) path (st_replay_report store) w;
                 (let store = store\<lparr> st_wal := wal, st_replay_report := report \<rparr> in
                  case result of
                    Inl e \<Rightarrow> Some (Inl STORE_FATAL, store_fail (store\<lparr> st_replay_result := Some e \<rparr>) STORE_FAILURE_OPEN, w)
                  | Inr recovered \<Rightarrow>
                      Some (Inr (), store\<lparr> st_replay_result := None, st_jobs := rs_scheduler recovered,
                        st_workers := rs_workers recovered, st_time_base_ms := rs_job_time_base_ms recovered \<rparr>, w))
               }))"

definition faultline_store_open_with_io ::
  "'w faultline_wal_writer_io \<Rightarrow> faultline_coordinator_store \<Rightarrow> string \<Rightarrow> bool \<Rightarrow> int \<Rightarrow> 'w \<Rightarrow> (unit, 'w) store_outcome" where
  "faultline_store_open_with_io io store path initialize now_ms w =
     (if st_opened store \<or> wal_has_io (st_wal store) \<or> st_failure store \<noteq> STORE_FAILURE_NONE
      then Some (Inl STORE_FATAL, store, w)
      else if now_ms < 0 then Some (Inl STORE_FATAL, store_fail store STORE_FAILURE_CLOCK, w)
      else
        do {
          (result, store, w) \<leftarrow> open_log io store path initialize w;
          (case result of
             Inl e \<Rightarrow> Some (Inl e, store, w)
           | Inr _ \<Rightarrow>
               do {
                 (recovered, store, w) \<leftarrow>
                   recover_interrupted_jobs io
                     (store\<lparr> st_session_start_ms := now_ms, st_last_job_time_ms := st_time_base_ms store \<rparr>) now_ms w;
                 (case recovered of
                    Inl _ \<Rightarrow> Some (Inl STORE_FATAL, store, w)
                  | Inr _ \<Rightarrow> Some (Inr (), store\<lparr> st_opened := True \<rparr>, w))
               })
        })"

definition faultline_store_close ::
  "'w faultline_wal_writer_io \<Rightarrow> faultline_coordinator_store \<Rightarrow> 'w \<Rightarrow> (store_error + unit) \<times> faultline_coordinator_store \<times> 'w" where
  "faultline_store_close io store w =
     (case faultline_wal_writer_close io (st_wal store) w of
        (closed, wal, w) \<Rightarrow>
          (let store = store\<lparr> st_opened := False, st_wal := wal \<rparr> in
           if closed \<noteq> WRITE_OK then (Inl STORE_FATAL, store_fail store STORE_FAILURE_WAL, w)
           else if st_failure store = STORE_FAILURE_NONE then (Inr (), store, w)
           else (Inl STORE_FATAL, store, w)))"

section \<open>The log and the published state\<close>

text \<open>
  The history \<open>rs\<close> in the log, its replay, and the published state: the scheduler and the worker
  allocator are exactly the replayed ones, and every worker in the live registry has an identifier
  the history allocated.
\<close>

definition store_log ::
  "faultline_coordinator_store \<Rightarrow> faultline_wal_record list \<Rightarrow> faultline_wal_replay_state \<Rightarrow> worker_index \<Rightarrow> bool" where
  "store_log store rs state index \<longleftrightarrow>
     sequenced 0 rs \<and> replay_records (replay_init, empty_index) rs = Inr (state, index) \<and>
     rs_scheduler state = st_jobs store \<and> r_next_worker_id (rs_workers state) = r_next_worker_id (st_workers store) \<and>
     registry_wf (st_workers store) \<and>
     (\<forall>worker \<in> set (r_workers (st_workers store)). worker_used worker \<longrightarrow> w_id worker \<in> allocated_ids index)"

text \<open>A store that has not failed can append the next record, and its clock is ahead of all jobs.\<close>

definition store_ready ::
  "int \<Rightarrow> faultline_coordinator_store \<Rightarrow> faultline_wal_record list \<Rightarrow> faultline_wal_replay_state \<Rightarrow> bool" where
  "store_ready fd store rs state \<longleftrightarrow>
     wal_state (st_wal store) = WRITER_READY \<and> wal_fd (st_wal store) = fd \<and>
     wal_next_sequence (st_wal store) = next_id (last_sequence 0 rs) \<and>
     st_last_job_time_ms store = rs_job_time_base_ms state \<and> 0 \<le> st_session_start_ms store \<and> 0 \<le> st_time_base_ms store"

text \<open>What a failed append may have left behind the history: a part of one record that could follow it.\<close>

definition in_flight ::
  "faultline_wal_record list \<Rightarrow> faultline_wal_replay_state \<Rightarrow> worker_index \<Rightarrow> bytes \<Rightarrow> bool" where
  "in_flight rs state index tail \<longleftrightarrow>
     tail = [] \<or> (\<exists>r h. sequenced (last_sequence 0 rs) [r] \<and> replay_records (state, index) [r] = Inr h \<and> prefix tail (record_bytes r))"

definition store_state ::
  "int \<Rightarrow> ('w \<Rightarrow> bytes) \<Rightarrow> ('w \<Rightarrow> bytes) \<Rightarrow> faultline_coordinator_store \<Rightarrow> 'w \<Rightarrow>
     faultline_wal_record list \<Rightarrow> faultline_wal_replay_state \<Rightarrow> worker_index \<Rightarrow> bytes \<Rightarrow> bool" where
  "store_state fd file durable store w rs state index tail \<longleftrightarrow>
     store_log store rs state index \<and> file w = file_header @ log_bytes rs @ tail \<and>
     prefix (file_header @ log_bytes rs) (durable w) \<and> prefix (durable w) (file w) \<and>
     (if st_failure store = STORE_FAILURE_NONE then tail = [] \<and> store_ready fd store rs state
      else in_flight rs state index tail)"

definition store_inv ::
  "int \<Rightarrow> ('w \<Rightarrow> bytes) \<Rightarrow> ('w \<Rightarrow> bytes) \<Rightarrow> faultline_coordinator_store \<Rightarrow> 'w \<Rightarrow> bool" where
  "store_inv fd file durable store w \<longleftrightarrow> (\<exists>rs state index tail. store_state fd file durable store w rs state index tail)"

lemma store_log_wf:
  "store_log store rs state index \<Longrightarrow> replay_wf state index \<and> sched_wf (st_jobs store)"
  using replay_records_wf [OF _ _ replay_init_wf] by (fastforce simp: store_log_def replay_wf_def)

lemma store_log_same:
  "store_log store rs state index \<Longrightarrow> st_jobs store' = st_jobs store \<Longrightarrow> st_workers store' = st_workers store \<Longrightarrow>
     store_log store' rs state index"
  by (simp add: store_log_def)

text \<open>Failing, or changing what the log does not determine, keeps the invariant.\<close>

lemma store_fail_fields [simp]:
  "st_jobs (store_fail store f) = st_jobs store" "st_workers (store_fail store f) = st_workers store"
  "st_wal (store_fail store f) = st_wal store" "st_opened (store_fail store f) = st_opened store"
  "st_interrupted_jobs (store_fail store f) = st_interrupted_jobs store"
  "f \<noteq> STORE_FAILURE_NONE \<Longrightarrow> st_failure (store_fail store f) \<noteq> STORE_FAILURE_NONE"
  by (simp_all add: store_fail_def)

lemma store_state_fail:
  "store_state fd file durable store w rs state index tail \<Longrightarrow> f \<noteq> STORE_FAILURE_NONE \<Longrightarrow>
     store_state fd file durable (store_fail store f) w rs state index tail"
  by (auto simp: store_state_def in_flight_def intro: store_log_same split: if_splits)

lemma store_state_scratch [simp]:
  "store_state fd file durable (store\<lparr> st_scratch := s \<rparr>) w rs state index tail \<longleftrightarrow>
     store_state fd file durable store w rs state index tail"
  by (simp add: store_state_def store_log_def store_ready_def)

section \<open>Appending one record\<close>

lemma last_sequence_snoc [simp]: "last_sequence n (rs @ [r]) = wr_sequence r"
  by (simp add: last_sequence_def)

lemma replay_extend:
  assumes "replay_records h rs = Inr (state, index)" "replay_records (state, index) [r] = Inr h'"
  shows "replay_records h (rs @ [r]) = Inr h'"
  using assms by (simp add: replay_records_append)

text \<open>
  A record the history can be extended by. The store builds it with the writer's next sequence
  number; when the numbers are used up nothing is written.
\<close>

definition extends ::
  "faultline_wal_record list \<Rightarrow> faultline_wal_replay_state \<Rightarrow> worker_index \<Rightarrow> wal_payload \<Rightarrow>
     faultline_wal_replay_state \<Rightarrow> worker_index \<Rightarrow> bool" where
  "extends rs state index payload state' index' \<longleftrightarrow>
     (\<forall>r. wr_sequence r = next_id (last_sequence 0 rs) \<and> wr_payload r = payload \<and> wr_sequence r \<noteq> 0 \<longrightarrow>
        loggable r \<and> fst (apply_record (Pair True) state index r (record_bytes r) ()) = Inr (state', index'))"

lemma extends_record:
  assumes "extends rs state index payload state' index'" "next_id (last_sequence 0 rs) \<noteq> 0"
  defines "r \<equiv> \<lparr> wr_sequence = next_id (last_sequence 0 rs), wr_payload = payload \<rparr>"
  shows "sequenced (last_sequence 0 rs) [r]"
    "replay_records (state, index) [r] = Inr (state'\<lparr> rs_last_sequence := next_id (last_sequence 0 rs) \<rparr>, index')"
proof -
  have "last_sequence 0 rs \<noteq> - 1" using assms(2) by (simp add: next_id_eq_zero_iff)
  then show "sequenced (last_sequence 0 rs) [r]"
    using assms(1,2) by (auto simp: extends_def r_def next_id_def)
  show "replay_records (state, index) [r] = Inr (state'\<lparr> rs_last_sequence := next_id (last_sequence 0 rs) \<rparr>, index')"
    using assms(1,2) by (simp add: extends_def r_def)
qed

lemma store_append_Some:
  assumes dev: "appending_file io fd file durable"
    and st: "store_state fd file durable store w rs state index []" "st_failure store = STORE_FAILURE_NONE"
    and ext: "extends rs state index payload state' index'"
    and run: "store_append io store payload w = Some (out, store', w')"
  obtains (appended) r wal where "out = Inr ()" "store' = store\<lparr> st_wal := wal, st_write_result := WRITE_OK \<rparr>"
      "wal_state wal = WRITER_READY" "wal_fd wal = fd" "wal_next_sequence wal = next_id (last_sequence 0 (rs @ [r]))"
      "sequenced 0 (rs @ [r])" "file w' = file_header @ log_bytes (rs @ [r])" "durable w' = file w'"
      "replay_records (replay_init, empty_index) (rs @ [r]) =
         Inr (state'\<lparr> rs_last_sequence := next_id (last_sequence 0 rs) \<rparr>, index')"
    | (failed) tail where "out = Inl STORE_FATAL" "st_failure store' = STORE_FAILURE_WAL"
      "st_jobs store' = st_jobs store" "st_workers store' = st_workers store" "st_opened store' = st_opened store"
      "store_state fd file durable store' w' rs state index tail"
proof -
  let ?seq = "next_id (last_sequence 0 rs)"
  let ?r = "\<lparr> wr_sequence = ?seq, wr_payload = payload \<rparr>"
  have log: "store_log store rs state index" "file w = file_header @ log_bytes rs" "durable w = file w"
    and ready: "wal_state (st_wal store) = WRITER_READY" "wal_fd (st_wal store) = fd" "wal_next_sequence (st_wal store) = ?seq"
    using st by (auto simp: store_state_def store_ready_def)
  obtain result wal where run': "faultline_wal_writer_append io (st_wal store) ?r w = Some (result, wal, w')"
    and out: "(out, store') = (if result \<noteq> WRITE_OK
        then (Inl STORE_FATAL, store_fail (store\<lparr> st_wal := wal, st_write_result := result \<rparr>) STORE_FAILURE_WAL)
        else (Inr (), store\<lparr> st_wal := wal, st_write_result := result \<rparr>))"
    using run ready(3) by (auto simp: store_append_def bind_eq_Some_conv Let_def split: if_splits)
  have fail: "store_state fd file durable store' w' rs state index tail"
    if "result \<noteq> WRITE_OK" "file w' = file_header @ log_bytes rs @ tail" "in_flight rs state index tail"
      "prefix (file_header @ log_bytes rs) (durable w')" "prefix (durable w') (file w')" for tail
    using that out log(1) by (auto simp: store_state_def store_fail_def st intro: store_log_same)
  have dev': "appending_file io (wal_fd (st_wal store)) file durable" "prefix (durable w) (file w)"
    using dev ready(2) log(3) by simp_all
  show thesis
  proof (rule append_Some [OF dev' ready(1) run'], goal_cases appended torn refused)
    case appended
    note k = extends_record [OF ext appended(3) [unfolded ready(3)]]
    have history: "sequenced 0 (rs @ [?r])" "replay_records (replay_init, empty_index) (rs @ [?r]) =
        Inr (state'\<lparr> rs_last_sequence := ?seq \<rparr>, index')"
      using log(1) k(1) replay_extend [OF _ k(2)] by (auto simp: store_log_def sequenced_append simp del: sequenced.simps)
    show thesis by (rule that(1) [of wal ?r, OF _ _ _ _ _ history(1) _ _ history(2)]) (use out appended ready log in simp_all)
  next
    case (torn k e operation)
    have seq: "?seq \<noteq> 0"
      using torn(4) by (auto simp: faultline_wal_record_encode_def split: if_splits)
    have "in_flight rs state index (take k (record_bytes ?r))"
      unfolding in_flight_def using extends_record [OF ext seq] take_is_prefix by blast
    then have "store_state fd file durable store' w' rs state index (take k (record_bytes ?r))"
      using torn log by (intro fail) simp_all
    then show thesis by (rule that(2) [rotated 5]) (use out torn st(2) in \<open>simp_all add: store_fail_def\<close>)
  next
    case refused
    then have "store_state fd file durable store' w' rs state index []"
      using log by (intro fail) (auto simp: in_flight_def)
    then show thesis by (rule that(2) [rotated 5]) (use out refused st(2) in \<open>auto simp: store_fail_def\<close>)
  qed
qed

section \<open>Committing a transaction\<close>

text \<open>
  How an operation ends: a refusal publishes nothing and only a fatal one fails the store; a success
  has added one record to the history, and the published state is the replay of the longer history.
\<close>

definition store_ends ::
  "int \<Rightarrow> ('w \<Rightarrow> bytes) \<Rightarrow> ('w \<Rightarrow> bytes) \<Rightarrow> faultline_coordinator_store \<Rightarrow> faultline_wal_record list \<Rightarrow>
     faultline_wal_replay_state \<Rightarrow> worker_index \<Rightarrow> store_error + 'a \<Rightarrow> faultline_coordinator_store \<Rightarrow> 'w \<Rightarrow> bool" where
  "store_ends fd file durable store rs state index out store' w' \<longleftrightarrow>
     st_opened store' = st_opened store \<and>
     (case out of
        Inl e \<Rightarrow>
          st_jobs store' = st_jobs store \<and> st_workers store' = st_workers store \<and>
          (st_failure store' \<noteq> STORE_FAILURE_NONE \<longleftrightarrow> e = STORE_FATAL) \<and>
          (\<exists>tail. store_state fd file durable store' w' rs state index tail)
      | Inr _ \<Rightarrow>
          st_failure store' = STORE_FAILURE_NONE \<and>
          (\<exists>r state' index'. store_state fd file durable store' w' (rs @ [r]) state' index' []))"

lemma store_ends_failed:
  assumes "store_state fd file durable store w rs state index tail" "f \<noteq> STORE_FAILURE_NONE"
    and "st_jobs store = st_jobs store0" "st_workers store = st_workers store0" "st_opened store = st_opened store0"
  shows "store_ends fd file durable store0 rs state index (Inl STORE_FATAL) (store_fail store f) w"
  using assms store_state_fail [OF assms(1,2)] by (auto simp: store_ends_def)

lemma store_ends_refused:
  assumes "store_state fd file durable store w rs state index tail" "st_failure store = STORE_FAILURE_NONE" "e \<noteq> STORE_FATAL"
    and "st_jobs store = st_jobs store0" "st_workers store = st_workers store0" "st_opened store = st_opened store0"
  shows "store_ends fd file durable store0 rs state index (Inl e) store w"
  using assms by (auto simp: store_ends_def)

lemma extends_job:
  assumes "\<And>seq. seq \<noteq> 0 \<Longrightarrow> loggable \<lparr> wr_sequence = seq, wr_payload = JOB_SNAPSHOT type job \<rparr> \<and>
    apply_job_record state index seq type job (record_bytes \<lparr> wr_sequence = seq, wr_payload = JOB_SNAPSHOT type job \<rparr>) = Inr state'"
  shows "extends rs state index (JOB_SNAPSHOT type job) state' index"
  unfolding extends_def
proof (intro allI impI)
  fix r :: faultline_wal_record
  assume r: "wr_sequence r = next_id (last_sequence 0 rs) \<and> wr_payload r = JOB_SNAPSHOT type job \<and> wr_sequence r \<noteq> 0"
  then show "loggable r \<and> fst (apply_record (Pair True) state index r (record_bytes r) ()) = Inr (state', index)"
    using assms [of "wr_sequence r"] by (cases r) (simp add: apply_record_def)
qed

lemma commit_job_Some:
  assumes dev: "appending_file io fd file durable"
    and st: "store_state fd file durable store w rs state index []" "st_failure store = STORE_FAILURE_NONE"
    and job: "faultline_scheduler_find (st_scratch store) i = Some job"
    and ext: "extends rs state index (JOB_SNAPSHOT type job) state1 index"
      "rs_scheduler state1 = st_scratch store" "rs_workers state1 = rs_workers state"
      "rs_job_time_base_ms state1 = j_updated_at_ms job"
    and run: "commit_job io store i type w = Some (out, store', w')"
  shows "store_ends fd file durable store rs state index out store' w' \<and>
    (out = Inl STORE_FATAL \<or> out = Inr ()) \<and>
    (out = Inr () \<longrightarrow> st_jobs store' = st_scratch store \<and> st_workers store' = st_workers store \<and>
       st_interrupted_jobs store' = st_interrupted_jobs store \<and> st_time_base_ms store' = st_time_base_ms store \<and>
       st_session_start_ms store' = st_session_start_ms store)"
proof -
  obtain out1 store1 where append: "store_append io store (JOB_SNAPSHOT type job) w = Some (out1, store1, w')"
    and out: "(out, store') = (case out1 of Inl _ \<Rightarrow> (Inl STORE_FATAL, store1)
      | Inr _ \<Rightarrow> (Inr (), store1\<lparr> st_jobs := st_scratch store1, st_last_job_time_ms := j_updated_at_ms job \<rparr>))"
    using run job by (fastforce simp: commit_job_def bind_eq_Some_conv split: sum.splits)
  show ?thesis
  proof (rule store_append_Some [OF dev st ext(1) append], goal_cases appended failed)
    case (appended r wal)
    let ?state = "state1\<lparr> rs_last_sequence := next_id (last_sequence 0 rs) \<rparr>"
    have "store_log store' (rs @ [r]) ?state index"
      using st(1) out appended(1,2,6,9) ext by (simp add: store_state_def store_log_def)
    then have "store_state fd file durable store' w' (rs @ [r]) ?state index []"
      using st out appended ext(4) by (simp add: store_state_def store_ready_def)
    then show ?thesis using out appended(1,2) st(2) by (auto simp: store_ends_def)
  next
    case (failed tail)
    then show ?thesis using out by (auto simp: store_ends_def)
  qed
qed

lemma store_ends_committed:
  assumes "store_ends fd file durable (store\<lparr> st_scratch := s \<rparr>) rs state index out1 store' w'"
    and "out1 = Inl STORE_FATAL \<or> out1 = Inr ()" "out = (case out1 of Inl _ \<Rightarrow> Inl STORE_FATAL | Inr _ \<Rightarrow> Inr x)"
  shows "store_ends fd file durable store rs state index out store' w'"
  using assms by (auto simp: store_ends_def)

section \<open>Clock\<close>

lemma job_time_Inr:
  assumes "job_time store raw = Inr time" "0 \<le> st_time_base_ms store"
  shows "0 \<le> time" "st_last_job_time_ms store \<le> time" "time \<le> INT64_MAX"
  using assms by (auto simp: job_time_def Let_def split: if_splits)

lemma job_time_Inl: "job_time store raw = Inl store' \<Longrightarrow> store' = store_fail store STORE_FAILURE_CLOCK"
  by (auto simp: job_time_def Let_def split: if_splits)

lemma store_state_time:
  assumes "store_state fd file durable store w rs state index tail" "st_failure store = STORE_FAILURE_NONE"
    and "job_time store raw = Inr time"
  shows "0 \<le> time" "rs_job_time_base_ms state \<le> time" "time \<le> INT64_MAX"
  using job_time_Inr [OF assms(3)] assms(1,2) by (auto simp: store_state_def store_ready_def)

section \<open>The operations keep the log and the published state together\<close>

lemma store_state_wf:
  "store_state fd file durable store w rs state index tail \<Longrightarrow>
     replay_wf state index \<and> rs_scheduler state = st_jobs store \<and> sched_wf (st_jobs store)"
  using store_log_wf by (auto simp: store_state_def store_log_def)

lemma submit_ends:
  assumes dev: "appending_file io fd file durable"
    and st: "store_state fd file durable store w rs state index []" "st_failure store = STORE_FAILURE_NONE"
    and run: "faultline_store_submit io store submit now w = Some (out, store', w')" "usable store"
  shows "store_ends fd file durable store rs state index out store' w'"
proof (cases "job_time store now")
  case (Inl store1)
  then show ?thesis
    using run store_ends_failed [OF st(1), of STORE_FAILURE_CLOCK store] job_time_Inl [OF Inl]
    by (auto simp: faultline_store_submit_def)
next
  case (Inr time)
  note time = store_state_time [OF st Inr]
  note wf = store_state_wf [OF st(1)]
  let ?store = "store\<lparr> st_scratch := st_jobs store \<rparr>"
  have scratch: "store_state fd file durable ?store w rs state index []" using st(1) by simp
  show ?thesis
  proof (cases "faultline_scheduler_submit (st_jobs store) submit time")
    case (Inl e)
    then show ?thesis
      using run \<open>job_time store now = Inr time\<close> st store_ends_failed [OF scratch, of STORE_FAILURE_INTERNAL store]
        store_ends_refused [OF scratch, of STORE_REJECTED store]
      by (auto simp: faultline_store_submit_def Let_def split: if_splits)
  next
    case (Inr result)
    then obtain i s where s: "faultline_scheduler_submit (rs_scheduler state) submit time = Inr (i, s)"
      using wf by (cases result) auto
    note created = apply_created [OF conjunct1 [OF wf] _ s time(2,3)]
    from created [of 1] obtain job where job: "faultline_scheduler_find s i = Some job" "j_updated_at_ms job = time" by auto
    have ext: "extends rs state index (JOB_SNAPSHOT WAL_JOB_CREATED job)
        (state\<lparr> rs_scheduler := s, rs_highest_job_id := i, rs_job_time_base_ms := time \<rparr>) index"
      using created job(1) by (intro extends_job) fastforce
    obtain out1 where c: "commit_job io (store\<lparr> st_scratch := s \<rparr>) i WAL_JOB_CREATED w = Some (out1, store', w')"
      and out: "out = (case out1 of Inl _ \<Rightarrow> Inl STORE_FATAL | Inr _ \<Rightarrow> Inr i)"
      using run \<open>job_time store now = Inr time\<close> s wf
      by (fastforce simp: faultline_store_submit_def bind_eq_Some_conv split: sum.splits)
    have "store_ends fd file durable (store\<lparr> st_scratch := s \<rparr>) rs state index out1 store' w'" "out1 = Inl STORE_FATAL \<or> out1 = Inr ()"
      using commit_job_Some [OF dev _ _ _ ext _ _ _ c] st job by simp_all
    then show ?thesis by (rule store_ends_committed [OF _ _ out])
  qed
qed

lemma assign_ends:
  assumes dev: "appending_file io fd file durable"
    and st: "store_state fd file durable store w rs state index []" "st_failure store = STORE_FAILURE_NONE"
    and run: "faultline_store_assign io store worker now w = Some (out, store', w')" "usable store"
  shows "store_ends fd file durable store rs state index out store' w'"
proof (cases "\<exists>v. faultline_worker_find (st_workers store) worker = Some v \<and> w_state v = WORKER_ALIVE")
  case False
  then have "out = Inl STORE_REJECTED \<and> store' = store \<and> w' = w"
    using run by (auto simp: faultline_store_assign_def split: option.splits if_splits)
  then show ?thesis using store_ends_refused [OF st, of STORE_REJECTED store] by simp
next
  case alive: True
  have log: "store_log store rs state index" using st(1) by (simp add: store_state_def)
  then have worker: "worker \<in> allocated_ids index" using alive by (auto simp: store_log_def worker_find_Some_iff)
  show ?thesis
  proof (cases "job_time store now")
    case (Inl store1)
    then show ?thesis
      using run alive store_ends_failed [OF st(1), of STORE_FAILURE_CLOCK store] job_time_Inl [OF Inl]
      by (auto simp: faultline_store_assign_def)
  next
    case (Inr time)
    note time = store_state_time [OF st Inr]
    note wf = store_state_wf [OF st(1)]
    let ?store = "store\<lparr> st_scratch := st_jobs store \<rparr>"
    have scratch: "store_state fd file durable ?store w rs state index []" using st(1) by simp
    show ?thesis
    proof (cases "faultline_scheduler_assign (st_jobs store) worker time")
      case (Inl e)
      then show ?thesis
        using run alive \<open>job_time store now = Inr time\<close> st store_ends_failed [OF scratch, of STORE_FAILURE_INTERNAL store]
          store_ends_refused [OF scratch, of STORE_REJECTED store] store_ends_refused [OF scratch, of STORE_EMPTY store]
        by (auto simp: faultline_store_assign_def Let_def split: if_splits)
    next
      case (Inr result)
      then obtain m s where s: "faultline_scheduler_assign (rs_scheduler state) worker time = Inr (m, s)"
        using wf by (cases result) auto
      note assigned = apply_assigned [OF conjunct1 [OF wf] _ s time(2,3) worker]
      from assigned [of 1] obtain job where job: "faultline_scheduler_find s (j_id job) = Some job" "j_updated_at_ms job = time"
        "m = assignment_message job worker" by auto
      have id: "assigned_job_id m = j_id job" using job(3) by (simp add: assignment_message_def)
      have ext: "extends rs state index (JOB_SNAPSHOT WAL_JOB_ASSIGNED job)
          (state\<lparr> rs_scheduler := s, rs_job_time_base_ms := time \<rparr>) index"
      proof (rule extends_job)
        fix seq :: u64 assume "seq \<noteq> 0"
        from assigned [OF this] obtain job' where job': "faultline_scheduler_find s (j_id job') = Some job'"
          "m = assignment_message job' worker"
          "loggable \<lparr> wr_sequence = seq, wr_payload = JOB_SNAPSHOT WAL_JOB_ASSIGNED job' \<rparr>"
          "apply_job_record state index seq WAL_JOB_ASSIGNED job'
            (record_bytes \<lparr> wr_sequence = seq, wr_payload = JOB_SNAPSHOT WAL_JOB_ASSIGNED job' \<rparr>) =
           Inr (state\<lparr> rs_scheduler := s, rs_job_time_base_ms := time \<rparr>)" by blast
        have "j_id job' = j_id job" using job'(2) job(3) by (simp add: assignment_message_def)
        then have "job' = job" using job'(1) job(1) by (metis option.inject)
        with job' show "loggable \<lparr> wr_sequence = seq, wr_payload = JOB_SNAPSHOT WAL_JOB_ASSIGNED job \<rparr> \<and>
          apply_job_record state index seq WAL_JOB_ASSIGNED job
            (record_bytes \<lparr> wr_sequence = seq, wr_payload = JOB_SNAPSHOT WAL_JOB_ASSIGNED job \<rparr>) =
           Inr (state\<lparr> rs_scheduler := s, rs_job_time_base_ms := time \<rparr>)" by simp
      qed
      obtain out1 where c: "commit_job io (store\<lparr> st_scratch := s \<rparr>) (j_id job) WAL_JOB_ASSIGNED w = Some (out1, store', w')"
        and out: "out = (case out1 of Inl _ \<Rightarrow> Inl STORE_FATAL | Inr _ \<Rightarrow> Inr m)"
        using run alive \<open>job_time store now = Inr time\<close> s wf id
        by (fastforce simp: faultline_store_assign_def bind_eq_Some_conv split: sum.splits)
      have "store_ends fd file durable (store\<lparr> st_scratch := s \<rparr>) rs state index out1 store' w'" "out1 = Inl STORE_FATAL \<or> out1 = Inr ()"
        using commit_job_Some [OF dev _ _ _ ext _ _ _ c] st job by simp_all
      then show ?thesis by (rule store_ends_committed [OF _ _ out])
    qed
  qed
qed

text \<open>A report and a lost worker both publish the outcome of an attempt.\<close>

lemma outcome_commits:
  assumes dev: "appending_file io fd file durable"
    and st: "store_state fd file durable store w rs state index []" "st_failure store = STORE_FAILURE_NONE"
    and i: "i < length (s_jobs (st_jobs store))" "job_active (s_jobs (st_jobs store) ! i)"
    and c: "job_step (s_jobs (st_jobs store) ! i) c" "rs_job_time_base_ms state \<le> j_updated_at_ms c"
    and s: "publish_outcome (st_jobs store) i c = Inr s"
    and run: "commit_job io (store\<lparr> st_scratch := s \<rparr>) (j_id c) (state_event (j_state c)) w = Some (out, store', w')"
  shows "store_ends fd file durable store rs state index out store' w' \<and>
    (out = Inl STORE_FATAL \<or>
     out = Inr () \<and> st_jobs store' = s \<and> st_workers store' = st_workers store \<and>
       st_interrupted_jobs store' = st_interrupted_jobs store \<and> st_time_base_ms store' = st_time_base_ms store \<and>
       st_session_start_ms store' = st_session_start_ms store)"
proof -
  note wf = store_state_wf [OF st(1)]
  have swf: "sched_wf (st_jobs store)" using wf by simp
  have cwf: "job_wf c" using jobs.step_inv [OF _ c(1)] sched_wf_job [OF swf nth_mem [OF i(1)]] by blast
  from publish_outcome_active [OF swf i cwf job_step_id [OF c(1)] active_step_worker [OF c(1) i(2)]] s
  have "sched_wf s" "s_jobs s = (s_jobs (st_jobs store))[i := c]" by auto
  then have find: "faultline_scheduler_find s (j_id c) = Some c" using i(1) by (auto simp: find_Some_iff set_update_memI)
  have ext: "extends rs state index (JOB_SNAPSHOT (state_event (j_state c)) c)
      (state\<lparr> rs_scheduler := s, rs_job_time_base_ms := j_updated_at_ms c \<rparr>) index"
    using apply_outcome [of state index _ i c s] step_record_loggable [OF cwf c(1)] wf i c s by (intro extends_job) simp
  have "store_ends fd file durable (store\<lparr> st_scratch := s \<rparr>) rs state index out store' w'" "out = Inl STORE_FATAL \<or> out = Inr ()"
    "out = Inr () \<longrightarrow> st_jobs store' = s \<and> st_workers store' = st_workers store \<and>
       st_interrupted_jobs store' = st_interrupted_jobs store \<and> st_time_base_ms store' = st_time_base_ms store \<and>
       st_session_start_ms store' = st_session_start_ms store"
    using commit_job_Some [OF dev _ _ _ ext _ _ _ run] st find by simp_all
  then show ?thesis by (auto simp: store_ends_def)
qed

lemma apply_report_time: "apply_report j worker r now = Inr c \<Longrightarrow> j_updated_at_ms c = now"
  by (cases r) (auto simp: outcome_simps map_sum_def split: sum.splits if_splits)

lemma report_publishes:
  assumes "faultline_scheduler_report s worker r now = Inr s'" "now \<le> INT64_MAX"
  obtains i c where "i < length (s_jobs s)" "job_active (s_jobs s ! i)" "j_worker_id (s_jobs s ! i) = worker"
    "job_step (s_jobs s ! i) c" "j_updated_at_ms c = now" "publish_outcome s i c = Inr s'"
proof -
  from assms(1) obtain identity c where "report_identity r = Some identity"
    and "Scheduler.find_slot s (i_job_id identity) \<noteq> length (s_jobs s)"
    and c: "apply_report (s_jobs s ! Scheduler.find_slot s (i_job_id identity)) worker r now = Inr c"
    and s': "publish_outcome s (Scheduler.find_slot s (i_job_id identity)) c = Inr s'"
    by (auto simp: faultline_scheduler_report_def Let_def split: if_splits option.splits sum.splits)
  then show thesis
    using that find_slot_job [of s "i_job_id identity"] apply_report_Inr [OF c assms(2)] apply_report_time [OF c] by blast
qed

lemma report_event_step:
  assumes "job_step j c" "job_active j"
  shows "report_event (j_state c) = state_event (j_state c)"
  using job_step_transition [OF assms(1)] assms(2) by (cases "j_state c") (auto simp: can_transition_iff job_active_def)

lemma report_ends:
  assumes dev: "appending_file io fd file durable"
    and st: "store_state fd file durable store w rs state index []" "st_failure store = STORE_FAILURE_NONE"
    and run: "faultline_store_report io store worker r now w = Some (out, store', w')" "usable store"
  shows "store_ends fd file durable store rs state index out store' w'"
proof (cases "\<exists>v j. faultline_worker_find (st_workers store) worker = Some v \<and> w_state v = WORKER_ALIVE \<and>
    faultline_scheduler_active (st_jobs store) worker = Some j")
  case False
  then have "out = Inl STORE_REJECTED \<and> store' = store \<and> w' = w"
    using run by (auto simp: faultline_store_report_def split: option.splits if_splits)
  then show ?thesis using store_ends_refused [OF st, of STORE_REJECTED store] by simp
next
  case True
  then obtain v j where live: "faultline_worker_find (st_workers store) worker = Some v" "w_state v = WORKER_ALIVE"
    "faultline_scheduler_active (st_jobs store) worker = Some j" by blast
  have swf: "sched_wf (st_jobs store)" using store_state_wf [OF st(1)] by simp
  show ?thesis
  proof (cases "job_time store now")
    case (Inl store1)
    then show ?thesis
      using run live store_ends_failed [OF st(1), of STORE_FAILURE_CLOCK store] job_time_Inl [OF Inl]
      by (auto simp: faultline_store_report_def)
  next
    case (Inr time)
    note time = store_state_time [OF st Inr]
    let ?store = "store\<lparr> st_scratch := st_jobs store \<rparr>"
    have scratch: "store_state fd file durable ?store w rs state index []" using st(1) by simp
    show ?thesis
    proof (cases "faultline_scheduler_report (st_jobs store) worker r time")
      case (Inl e)
      then show ?thesis
        using run live \<open>job_time store now = Inr time\<close> st store_ends_failed [OF scratch, of STORE_FAILURE_INTERNAL store]
          store_ends_refused [OF scratch, of STORE_REJECTED store]
        by (auto simp: faultline_store_report_def Let_def split: if_splits)
    next
      case s: (Inr s)
      obtain i c where i: "i < length (s_jobs (st_jobs store))" "job_active (s_jobs (st_jobs store) ! i)"
          "j_worker_id (s_jobs (st_jobs store) ! i) = worker"
        and c: "job_step (s_jobs (st_jobs store) ! i) c" "j_updated_at_ms c = time"
        and p: "publish_outcome (st_jobs store) i c = Inr s"
        using report_publishes [OF s time(3)] .
      have "worker \<noteq> 0" using live(3) by (auto simp: faultline_scheduler_active_def)
      then have "faultline_scheduler_active (st_jobs store) worker = Some (s_jobs (st_jobs store) ! i)"
        using i swf by (simp add: active_Some_iff)
      then have id: "j_id j = j_id c" using live(3) job_step_id [OF c(1)] by simp
      have "job_wf c" using jobs.step_inv [OF _ c(1)] sched_wf_job [OF swf nth_mem [OF i(1)]] by blast
      from publish_outcome_active [OF swf i(1,2) this job_step_id [OF c(1)] active_step_worker [OF c(1) i(2)]] p
      have "sched_wf s" "s_jobs s = (s_jobs (st_jobs store))[i := c]" by auto
      then have "faultline_scheduler_find s (j_id c) = Some c" using i(1) by (auto simp: find_Some_iff set_update_memI)
      then have "commit_job io (store\<lparr> st_scratch := s \<rparr>) (j_id c) (state_event (j_state c)) w = Some (out, store', w')"
        using run live \<open>job_time store now = Inr time\<close> s id report_event_step [OF c(1) i(2)]
        by (simp add: faultline_store_report_def)
      from outcome_commits [OF dev st i(1,2) c(1) _ p this] time(2) c(2) show ?thesis by simp
    qed
  qed
qed

lemma worker_lost_publishes:
  assumes "sched_wf s" "faultline_scheduler_worker_lost s worker now = Inr s'" "now \<le> INT64_MAX"
    and "faultline_scheduler_active s worker = Some j"
  obtains i where "i < length (s_jobs s)" "s_jobs s ! i = j" "job_active j"
    "job_step j (failed_job j FAILURE_WORKER_LOST now)" "publish_outcome s i (failed_job j FAILURE_WORKER_LOST now) = Inr s'"
    "s_jobs s' = (s_jobs s)[i := failed_job j FAILURE_WORKER_LOST now]" "sched_wf s'"
proof -
  let ?c = "failed_job j FAILURE_WORKER_LOST now"
  from assms(2,4) have c: "faultline_job_fail j worker (j_attempt j) FAILURE_WORKER_LOST now = Inr ?c"
    and s': "publish_outcome s (Scheduler.find_slot s (j_id j)) ?c = Inr s'"
    by (auto simp: faultline_scheduler_worker_lost_def job_fail_Inr_iff split: if_splits sum.splits)
  have active: "j \<in> set (s_jobs s)" "job_active j" using assms(1,4) by (auto simp: active_Some_iff)
  then obtain i where i: "i < length (s_jobs s)" "s_jobs s ! i = j" by (metis in_set_conv_nth)
  have slot: "Scheduler.find_slot s (j_id j) = i" using sched_find_slot [OF assms(1) i(1)] i(2) by simp
  have step: "job_step j ?c" using c assms(3) by (rule job_step.fail)
  have "job_wf ?c" using jobs.step_inv [OF sched_wf_job [OF assms(1) active(1)] step] .
  from publish_outcome_active [OF assms(1) i(1), of ?c] this
  show thesis using that [OF i active(2) step] i s' slot active active_step_worker [OF step] by auto
qed

lemma failed_not_active: "\<not> job_active (failed_job j f now)"
  by (simp add: failed_job_def job_active_def)

lemma loss_ends:
  assumes dev: "appending_file io fd file durable"
    and st: "store_state fd file durable store w rs state index []" "st_failure store = STORE_FAILURE_NONE"
    and active: "faultline_scheduler_active (st_jobs store) worker = Some j"
    and run: "commit_worker_loss io store worker now w = Some (out, store', w')"
  shows "store_ends fd file durable store rs state index out store' w' \<and>
    (out = Inl STORE_FATAL \<or>
     out = Inr () \<and> st_workers store' = st_workers store \<and> st_interrupted_jobs store' = st_interrupted_jobs store \<and>
       (\<exists>i time. i < length (s_jobs (st_jobs store)) \<and> s_jobs (st_jobs store) ! i = j \<and>
          job_time store now = Inr time \<and>
          s_jobs (st_jobs store') = (s_jobs (st_jobs store))[i := failed_job j FAILURE_WORKER_LOST time]))"
proof (cases "job_time store now")
  case (Inl store1)
  then show ?thesis
    using run active store_ends_failed [OF st(1), of STORE_FAILURE_CLOCK store] job_time_Inl [OF Inl]
    by (auto simp: commit_worker_loss_def)
next
  case (Inr time)
  note time = store_state_time [OF st Inr]
  have swf: "sched_wf (st_jobs store)" using store_state_wf [OF st(1)] by simp
  let ?store = "store\<lparr> st_scratch := st_jobs store \<rparr>"
  have scratch: "store_state fd file durable ?store w rs state index []" using st(1) by simp
  show ?thesis
  proof (cases "faultline_scheduler_worker_lost (st_jobs store) worker time")
    case (Inl e)
    then show ?thesis
      using run active \<open>job_time store now = Inr time\<close> store_ends_failed [OF scratch, of STORE_FAILURE_INTERNAL store]
      by (auto simp: commit_worker_loss_def Let_def)
  next
    case s: (Inr s)
    let ?c = "failed_job j FAILURE_WORKER_LOST time"
    obtain i where i: "i < length (s_jobs (st_jobs store))" "s_jobs (st_jobs store) ! i = j" "job_active j"
      and c: "job_step j ?c" and p: "publish_outcome (st_jobs store) i ?c = Inr s"
      and s': "s_jobs s = (s_jobs (st_jobs store))[i := ?c]" "sched_wf s"
      using worker_lost_publishes [OF swf s time(3) active] .
    have "faultline_scheduler_find s (j_id ?c) = Some ?c" using i(1) s' by (auto simp: find_Some_iff set_update_memI)
    moreover have "state_event (j_state ?c) = (if j_state ?c = JOB_QUEUED then WAL_JOB_REQUEUED else WAL_JOB_FAILED)"
      by (auto simp: failed_job_def)
    ultimately have commit: "commit_job io (store\<lparr> st_scratch := s \<rparr>) (j_id ?c) (state_event (j_state ?c)) w = Some (out, store', w')"
      using run active \<open>job_time store now = Inr time\<close> s by (simp add: commit_worker_loss_def)
    have pre: "job_active (s_jobs (st_jobs store) ! i)" "job_step (s_jobs (st_jobs store) ! i) ?c" using i c by simp_all
    have upd: "rs_job_time_base_ms state \<le> j_updated_at_ms ?c" using time(2) by (simp add: failed_job_def)
    from outcome_commits [OF dev st i(1) pre upd p commit] show ?thesis using i s' Inr by auto
  qed
qed

lemma worker_lost_ends:
  assumes dev: "appending_file io fd file durable"
    and st: "store_state fd file durable store w rs state index []" "st_failure store = STORE_FAILURE_NONE"
    and run: "faultline_store_worker_lost io store worker now w = Some (out, store', w')" "usable store"
  shows "store_ends fd file durable store rs state index out store' w'"
proof (cases "faultline_scheduler_active (st_jobs store) worker")
  case None
  then show ?thesis
    using run store_ends_refused [OF st, of STORE_EMPTY store]
    by (auto simp: faultline_store_worker_lost_def commit_worker_loss_def)
next
  case (Some j)
  then show ?thesis using loss_ends [OF dev st Some] run by (simp add: faultline_store_worker_lost_def)
qed

lemma extends_worker:
  assumes wf: "replay_wf state index" and i: "i = r_next_worker_id (rs_workers state)" "i \<noteq> 0"
  obtains index' where "extends rs state index (WORKER_ID i) (record_worker state i) index'"
    "allocated_ids index' = insert i (allocated_ids index)"
proof -
  have iwf: "index_wf index (rs_highest_worker_id state)" and "i = next_id (rs_highest_worker_id state)"
    using wf i by (auto simp: replay_wf_def)
  then have above: "rs_highest_worker_id state < i" using i(2) less_next_id by metis
  have mem: "memory_available (Pair True :: unit \<Rightarrow> bool \<times> unit)" by (simp add: memory_available_def)
  obtain index' where run: "allocate_worker (Pair True) state index i () = (Inr (record_worker state i, index'), ())"
    using allocate_worker_accepts [OF iwf above mem, of "()"] by auto
  then have "extends rs state index (WORKER_ID i) (record_worker state i) index'"
    using i(2) by (auto simp: extends_def apply_record_def loggable_def)
  with that allocate_worker_Inr [OF iwf run] show thesis by blast
qed

lemma register_ends:
  assumes dev: "appending_file io fd file durable"
    and st: "store_state fd file durable store w rs state index []" "st_failure store = STORE_FAILURE_NONE"
    and run: "faultline_store_register io store conn now w = Some (out, store', w')" "usable store"
  shows "store_ends fd file durable store rs state index out store' w'"
proof (cases "now < 0")
  case True
  then show ?thesis using run store_ends_failed [OF st(1), of STORE_FAILURE_CLOCK store] by (auto simp: faultline_store_register_def)
next
  case now: False
  have log: "store_log store rs state index" using st(1) by (simp add: store_state_def)
  then have rwf: "registry_wf (st_workers store)" by (simp add: store_log_def)
  show ?thesis
  proof (cases "faultline_worker_register (st_workers store) conn now")
    case (Inl e)
    then show ?thesis using run now store_ends_refused [OF st, of STORE_REJECTED store] by (auto simp: faultline_store_register_def)
  next
    case (Inr result)
    then obtain i r' where reg: "faultline_worker_register (st_workers store) conn now = Inr (i, r')" by (cases result) auto
    obtain slot where slot: "slot < FAULTLINE_MAX_WORKERS" "i = r_next_worker_id (st_workers store)" "i \<noteq> 0"
      "r' = (st_workers store)\<lparr> r_workers := (r_workers (st_workers store))[slot := \<lparr> w_id = i, w_fd = conn,
         w_state = WORKER_ALIVE, w_last_heartbeat_ms = now \<rparr>], r_next_worker_id := next_id i \<rparr>"
      using register_Inr [OF rwf reg] by metis
    obtain index' where ext: "extends rs state index (WORKER_ID i) (record_worker state i) index'"
      and ids: "allocated_ids index' = insert i (allocated_ids index)"
      using extends_worker [of state index i] store_state_wf [OF st(1)] log slot(2,3) by (auto simp: store_log_def)
    obtain out1 store1 where append: "store_append io store (WORKER_ID i) w = Some (out1, store1, w')"
      and out: "(out, store') = (case out1 of Inl _ \<Rightarrow> (Inl STORE_FATAL, store1) | Inr _ \<Rightarrow> (Inr i, store1\<lparr> st_workers := r' \<rparr>))"
      using run now reg by (fastforce simp: faultline_store_register_def bind_eq_Some_conv split: sum.splits)
    show ?thesis
    proof (rule store_append_Some [OF dev st ext append], goal_cases appended failed)
      case (appended r wal)
      let ?state = "(record_worker state i)\<lparr> rs_last_sequence := next_id (last_sequence 0 rs) \<rparr>"
      have "\<forall>worker \<in> set (r_workers r'). worker_used worker \<longrightarrow> w_id worker \<in> allocated_ids index'"
        using log slot ids set_list_update_cases by (fastforce simp: store_log_def)
      then have "store_log store' (rs @ [r]) ?state index'"
        using log out appended(1,2,6,9) register_wf [OF rwf reg] slot(4) by (simp add: store_log_def record_worker_def)
      then have "store_state fd file durable store' w' (rs @ [r]) ?state index' []"
        using st out appended by (simp add: store_state_def store_ready_def record_worker_def)
      then show ?thesis using out appended(1,2) st(2) by (auto simp: store_ends_def)
    next
      case (failed tail)
      then show ?thesis using out by (auto simp: store_ends_def)
    qed
  qed
qed

section \<open>Runs\<close>

text \<open>A step of a live store: one of the operations, or a live update of the registry.\<close>

inductive store_step ::
  "'w faultline_wal_writer_io \<Rightarrow> faultline_coordinator_store \<times> 'w \<Rightarrow> faultline_coordinator_store \<times> 'w \<Rightarrow> bool"
  for io where
  registered: "faultline_store_register io store conn now w = Some (out, store', w') \<Longrightarrow> store_step io (store, w) (store', w')"
| submitted: "faultline_store_submit io store submit now w = Some (out, store', w') \<Longrightarrow> store_step io (store, w) (store', w')"
| assigned: "faultline_store_assign io store worker now w = Some (out, store', w') \<Longrightarrow> store_step io (store, w) (store', w')"
| reported: "faultline_store_report io store worker message now w = Some (out, store', w') \<Longrightarrow> store_step io (store, w) (store', w')"
| lost: "faultline_store_worker_lost io store worker now w = Some (out, store', w') \<Longrightarrow> store_step io (store, w) (store', w')"
| live: "registry_keep (st_workers store) workers \<Longrightarrow> store_step io (store, w) (store\<lparr> st_workers := workers \<rparr>, w)"

lemma store_ends_inv: "store_ends fd file durable store rs state index out store' w' \<Longrightarrow> store_inv fd file durable store' w'"
  by (auto simp: store_ends_def store_inv_def split: sum.splits)

lemma update_used_ids:
  assumes "registry_wf r" "find_live_connection r i fd = Inr slot" "w_id c = w_id (r_workers r ! slot)"
    and "v \<in> set ((r_workers r)[slot := c])" "worker_used v"
  shows "\<exists>u \<in> set (r_workers r). worker_used u \<and> w_id u = w_id v"
proof (cases "v = c")
  case True
  have "r_workers r ! slot \<in> set (r_workers r)" "worker_used (r_workers r ! slot)"
    using live_connection_Inr [OF assms(1,2)] by (auto simp: worker_used_def worker_alive_def)
  with True assms(3) show ?thesis by (intro bexI [of _ "r_workers r ! slot"]) auto
next
  case False
  then show ?thesis using assms(5) set_list_update_cases [OF assms(4)] by blast
qed

lemma registry_keep_ids:
  assumes "registry_wf r" "registry_keep r r'"
  shows "registry_wf r'" "r_next_worker_id r' = r_next_worker_id r"
    "v \<in> set (r_workers r') \<Longrightarrow> worker_used v \<Longrightarrow> \<exists>u \<in> set (r_workers r). worker_used u \<and> w_id u = w_id v"
proof -
  show "registry_wf r'" using assms by (auto elim!: registry_keepE intro: heartbeat_wf mark_dead_wf)
  have "\<exists>i fd slot c. find_live_connection r i fd = Inr slot \<and> w_id c = w_id (r_workers r ! slot) \<and>
      r' = r\<lparr> r_workers := (r_workers r)[slot := c] \<rparr>"
    using assms(2)
  proof cases
    case (heartbeat i fd now)
    obtain slot where "find_live_connection r i fd = Inr slot"
      "r' = r\<lparr> r_workers := (r_workers r)[slot := (r_workers r ! slot)\<lparr> w_last_heartbeat_ms := now \<rparr>] \<rparr>"
      using heartbeat_Inr [OF assms(1) heartbeat] by metis
    then show ?thesis by (intro exI conjI) auto
  next
    case (dead i fd)
    obtain slot where "find_live_connection r i fd = Inr slot"
      "r' = r\<lparr> r_workers := (r_workers r)[slot := (r_workers r ! slot)\<lparr> w_state := WORKER_DEAD, w_fd := - 1 \<rparr>] \<rparr>"
      using mark_dead_Inr [OF assms(1) dead] by metis
    then show ?thesis by (intro exI conjI) auto
  qed
  then obtain i fd slot c where c: "find_live_connection r i fd = Inr slot" "w_id c = w_id (r_workers r ! slot)"
    "r' = r\<lparr> r_workers := (r_workers r)[slot := c] \<rparr>" by blast
  then show "r_next_worker_id r' = r_next_worker_id r" by simp
  show "\<exists>u \<in> set (r_workers r). worker_used u \<and> w_id u = w_id v" if "v \<in> set (r_workers r')" "worker_used v"
    using update_used_ids [OF assms(1) c(1,2)] that c(3) by simp
qed

lemma store_state_live:
  assumes "store_state fd file durable store w rs state index tail" "registry_keep (st_workers store) workers"
  shows "store_state fd file durable (store\<lparr> st_workers := workers \<rparr>) w rs state index tail"
proof -
  have "registry_wf (st_workers store)" using assms(1) by (simp add: store_state_def store_log_def)
  note keep = registry_keep_ids [OF this assms(2)]
  have "w_id v \<in> allocated_ids index" if "v \<in> set (r_workers workers)" "worker_used v" for v
    using keep(3) [OF that] assms(1) by (auto simp: store_state_def store_log_def)
  then have "store_log (store\<lparr> st_workers := workers \<rparr>) rs state index"
    using assms(1) keep(1,2) by (simp add: store_state_def store_log_def)
  then show ?thesis using assms(1) by (auto simp: store_state_def store_ready_def split: if_splits)
qed

lemma unusable_same:
  assumes "\<not> usable store"
  shows "faultline_store_register io store conn now w = Some (Inl STORE_FATAL, store, w)"
    "faultline_store_submit io store submit now w = Some (Inl STORE_FATAL, store, w)"
    "faultline_store_assign io store worker now w = Some (Inl STORE_FATAL, store, w)"
    "faultline_store_report io store worker message now w = Some (Inl STORE_FATAL, store, w)"
    "faultline_store_worker_lost io store worker now w = Some (Inl STORE_FATAL, store, w)"
  using assms by (simp_all add: faultline_store_register_def faultline_store_submit_def faultline_store_assign_def
      faultline_store_report_def faultline_store_worker_lost_def)

lemma store_step_inv:
  assumes dev: "appending_file io fd file durable"
    and inv: "store_inv fd file durable store w" and step: "store_step io (store, w) (store', w')"
  shows "store_inv fd file durable store' w'"
proof -
  obtain rs state index tail where st: "store_state fd file durable store w rs state index tail"
    using inv by (auto simp: store_inv_def)
  show ?thesis
  proof (cases "usable store")
    case True
    then have none: "st_failure store = STORE_FAILURE_NONE" by (simp add: usable_def)
    then have st': "store_state fd file durable store w rs state index []" using st by (auto simp: store_state_def)
    from step show ?thesis
    proof cases
      case (registered conn now out)
      show ?thesis by (rule store_ends_inv [OF register_ends [OF dev st' none registered True]])
    next
      case (submitted submit now out)
      show ?thesis by (rule store_ends_inv [OF submit_ends [OF dev st' none submitted True]])
    next
      case (assigned worker now out)
      show ?thesis by (rule store_ends_inv [OF assign_ends [OF dev st' none assigned True]])
    next
      case (reported worker message now out)
      show ?thesis by (rule store_ends_inv [OF report_ends [OF dev st' none reported True]])
    next
      case (lost worker now out)
      show ?thesis by (rule store_ends_inv [OF worker_lost_ends [OF dev st' none lost True]])
    next
      case (live workers)
      from store_state_live [OF st live(3)] show ?thesis unfolding live(1,2) store_inv_def by (intro exI)
    qed
  next
    case False
    from step show ?thesis
    proof cases
      case (live workers)
      from store_state_live [OF st live(3)] show ?thesis unfolding live(1,2) store_inv_def by (intro exI)
    qed (use inv in \<open>simp_all add: unusable_same [OF False]\<close>)
  qed
qed

section \<open>Opening\<close>

lemma create_Some:
  assumes dev: "opening_file io fd dfd file durable pos" "recovering_file io fd dfd file durable pos"
    and closed: "\<not> invalid_path path" "wal_state writer = WRITER_CLOSED" "wal_fd writer = - 1" "wal_directory_fd writer = - 1"
    and run: "faultline_wal_writer_create_with_io io writer path w = Some (WRITE_OK, writer', w')"
  shows "writer' = (opened_writer writer fd dfd)\<lparr> wal_next_sequence := 1, wal_state := WRITER_READY \<rparr> \<and>
    file w' = file_header \<and> durable w' = file_header"
proof -
  have app: "appending_file io fd file durable" using recoveringD [OF dev(2)] by simp
  obtain s writer1 w1 where w1: "faultline_wal_writer_open_file io writer path True w = Some (s, writer1, w1)"
    using run by (auto simp: faultline_wal_writer_create_with_io_def bind_eq_Some_conv)
  show ?thesis
  proof (rule open_file_Some [OF dev(1) w1 closed], goal_cases opened failed)
    case opened
    have app': "appending_file io (wal_fd (opened_writer writer fd dfd)) file durable" using app by simp
    have header: "(case faultline_wal_file_header_encode FAULTLINE_WAL_FILE_HEADER_SIZE of Inl _ \<Rightarrow> [] | Inr b \<Rightarrow> b) = file_header"
      by (simp add: file_header_encode)
    obtain s2 writer2 w2 where w2: "write_all io (opened_writer writer fd dfd) file_header IO_WRITE_HEADER w1 = Some (s2, writer2, w2)"
      and "s2 = WRITE_OK"
      using run w1 opened header by (auto simp: faultline_wal_writer_create_with_io_def bind_eq_Some_conv split: if_splits)
    then have k2: "writer2 = opened_writer writer fd dfd" "file w2 = file_header" "durable w2 = []"
      using write_all_Some [OF app' w2] opened by auto
    obtain s3 writer3 w3 where w3: "faultline_wal_writer_sync io (opened_writer writer fd dfd) fd IO_SYNC_HEADER w2 = Some (s3, writer3, w3)"
      and "s3 = WRITE_OK"
      using run w1 opened header w2 \<open>s2 = WRITE_OK\<close> k2
      by (auto simp: faultline_wal_writer_create_with_io_def bind_eq_Some_conv split: if_splits)
    then have k3: "writer3 = opened_writer writer fd dfd" "file w3 = file_header" "durable w3 = file_header"
      using writer_sync_recovery [OF app w3] k2 by auto
    obtain s4 writer4 where w4: "faultline_wal_writer_sync io (opened_writer writer fd dfd) dfd IO_SYNC_DIRECTORY w3 = Some (s4, writer4, w')"
      and "s4 = WRITE_OK" "writer' = writer4\<lparr> wal_next_sequence := 1, wal_state := WRITER_READY \<rparr>"
      using run w1 opened header w2 \<open>s2 = WRITE_OK\<close> k2 w3 \<open>s3 = WRITE_OK\<close> k3
      by (auto simp: faultline_wal_writer_create_with_io_def bind_eq_Some_conv split: if_splits)
    then show ?thesis using directory_sync_file [OF dev(2) w4] k3 by auto
  next
    case failed
    then show ?thesis using run w1 by (simp add: faultline_wal_writer_create_with_io_def)
  qed
qed

lemma store_state_untouched [simp]:
  "store_state fd file durable (store\<lparr> st_interrupted_jobs := n \<rparr>) w rs state index tail \<longleftrightarrow>
     store_state fd file durable store w rs state index tail"
  "store_state fd file durable (store\<lparr> st_opened := b \<rparr>) w rs state index tail \<longleftrightarrow>
     store_state fd file durable store w rs state index tail"
  by (simp_all add: store_state_def store_log_def store_ready_def)

text \<open>The recovery loop gives every active attempt up and touches no other job.\<close>

definition given_up :: "faultline_job \<Rightarrow> faultline_job \<Rightarrow> bool" where
  "given_up j j' \<longleftrightarrow> (if job_active j then \<exists>time. j' = failed_job j FAILURE_WORKER_LOST time else j' = j)"

lemma recover_from_ends:
  assumes dev: "appending_file io fd file durable"
    and "store_state fd file durable store w rs state index []" "st_failure store = STORE_FAILURE_NONE"
    and "\<forall>k < i. k < length (s_jobs (st_jobs store)) \<longrightarrow> \<not> job_active (s_jobs (st_jobs store) ! k)"
    and "recover_from io now i store w = Some (out, store', w')"
  shows "store_inv fd file durable store' w' \<and> st_opened store' = st_opened store \<and>
    (case out of
       Inl e \<Rightarrow> e = STORE_FATAL
     | Inr _ \<Rightarrow> st_failure store' = STORE_FAILURE_NONE \<and> (\<forall>j \<in> set (s_jobs (st_jobs store')). \<not> job_active j) \<and>
         list_all2 given_up (s_jobs (st_jobs store)) (s_jobs (st_jobs store')))"
  using assms(2-)
proof (induction "length (s_jobs (st_jobs store)) - i" arbitrary: i store w rs state index rule: less_induct)
  case less
  note st = less.prems(1,2)
  show ?case
  proof (cases "i < length (s_jobs (st_jobs store))")
    case False
    then have finished: "out = Inr ()" "store' = store" "w' = w" using less.prems(4) by (auto simp: recover_from.simps [of _ _ i])
    have quiet: "\<forall>j \<in> set (s_jobs (st_jobs store)). \<not> job_active j"
      using less.prems(3) False by (metis in_set_conv_nth not_less order_less_le_trans)
    then have "list_all2 given_up (s_jobs (st_jobs store)) (s_jobs (st_jobs store))"
      by (auto simp: given_up_def intro: list_all2_refl list.rel_refl_strong)
    then show ?thesis using finished quiet st by (auto simp: store_inv_def)
  next
    case True
    let ?job = "s_jobs (st_jobs store) ! i"
    show ?thesis
    proof (cases "job_active ?job")
      case False
      then have rest: "recover_from io now (i + 1) store w = Some (out, store', w')"
        using less.prems(4) True by (simp add: recover_from.simps [of _ _ i] job_active_def)
      have quiet: "\<forall>k < i + 1. k < length (s_jobs (st_jobs store)) \<longrightarrow> \<not> job_active (s_jobs (st_jobs store) ! k)"
        using less.prems(3) False by (auto simp: less_Suc_eq)
      have "length (s_jobs (st_jobs store)) - (i + 1) < length (s_jobs (st_jobs store)) - i" using True by simp
      from less.hyps [OF this st quiet rest] show ?thesis .
    next
      case active: True
      have swf: "sched_wf (st_jobs store)" using store_state_wf [OF st(1)] by simp
      have job: "?job \<in> set (s_jobs (st_jobs store))" using True by simp
      have found: "faultline_scheduler_active (st_jobs store) (j_worker_id ?job) = Some ?job"
        using swf job active job_wf_active_worker [OF sched_wf_job [OF swf job] active] by (simp add: active_Some_iff)
      obtain out1 store1 w1 where run: "commit_worker_loss io store (j_worker_id ?job) now w = Some (out1, store1, w1)"
        and rest: "(case out1 of Inl _ \<Rightarrow> Some (Inl STORE_FATAL, store1, w1)
          | Inr _ \<Rightarrow> recover_from io now (i + 1) (store1\<lparr> st_interrupted_jobs := st_interrupted_jobs store1 + 1 \<rparr>) w1) =
            Some (out, store', w')"
        using less.prems(4) True active by (auto simp: recover_from.simps [of _ _ i] job_active_def Let_def bind_eq_Some_conv)
      note ends = loss_ends [OF dev st found run]
      show ?thesis
      proof (cases out1)
        case (Inl e)
        then show ?thesis using rest store_ends_inv [OF conjunct1 [OF ends]] ends by (auto simp: store_ends_def)
      next
        case (Inr u)
        let ?store = "store1\<lparr> st_interrupted_jobs := st_interrupted_jobs store1 + 1 \<rparr>"
        from ends Inr obtain k time where k: "k < length (s_jobs (st_jobs store))" "s_jobs (st_jobs store) ! k = ?job"
          "s_jobs (st_jobs store1) = (s_jobs (st_jobs store))[k := failed_job ?job FAILURE_WORKER_LOST time]" by auto
        have "k = i" using nth_eq_iff_index_eq [of "map j_id (s_jobs (st_jobs store))" k i] sched_wf_distinct [OF swf] k True by simp
        note jobs = k(3) [unfolded this]
        from ends Inr obtain r state1 index1 where st1: "st_failure store1 = STORE_FAILURE_NONE" "st_opened store1 = st_opened store"
          "store_state fd file durable store1 w1 (rs @ [r]) state1 index1 []" by (auto simp: store_ends_def)
        then have st2: "store_state fd file durable ?store w1 (rs @ [r]) state1 index1 []" "st_failure ?store = STORE_FAILURE_NONE"
          by simp_all
        have quiet: "\<forall>k < i + 1. k < length (s_jobs (st_jobs ?store)) \<longrightarrow> \<not> job_active (s_jobs (st_jobs ?store) ! k)"
          using less.prems(3) True by (auto simp: jobs less_Suc_eq nth_list_update failed_not_active)
        have rest': "recover_from io now (i + 1) ?store w1 = Some (out, store', w')" using rest Inr by simp
        have "length (s_jobs (st_jobs ?store)) - (i + 1) < length (s_jobs (st_jobs store)) - i" using True by (simp add: jobs)
        note IH = less.hyps [OF this st2 quiet rest']
        have "list_all2 given_up (s_jobs (st_jobs store)) js" if "list_all2 given_up (s_jobs (st_jobs store1)) js" for js
        proof -
          have "given_up (s_jobs (st_jobs store) ! m) (js ! m)" if "m < length (s_jobs (st_jobs store))" for m
            using list_all2_nthD [OF \<open>list_all2 given_up (s_jobs (st_jobs store1)) js\<close>, of m] that active
            by (cases "m = i") (auto simp: jobs given_up_def failed_not_active)
          then show ?thesis using that by (auto simp: list_all2_conv_all_nth jobs)
        qed
        then show ?thesis using IH st1 by (auto split: sum.splits)
      qed
    qed
  qed
qed

lemma recovered_registry_wf:
  "registry_wf (faultline_worker_registry_init\<lparr> r_next_worker_id := n \<rparr>)"
  using registry_init_wf by (auto simp: registry_wf_def worker_wf_def faultline_worker_registry_init_def unused_worker_def)

lemma unused_registry: "v \<in> set (r_workers (faultline_worker_registry_init\<lparr> r_next_worker_id := n \<rparr>)) \<Longrightarrow> \<not> worker_used v"
  by (auto simp: faultline_worker_registry_init_def worker_used_def unused_worker_def)

text \<open>The store as opening the log leaves it, before the interrupted jobs are given up.\<close>

lemma open_log_state:
  assumes dev: "opening_file io fd dfd file durable pos" "recovering_file io fd dfd file durable pos" "memory_available (os_allocate io)"
    and path: "\<not> invalid_path path"
    and run: "open_log io faultline_store_init path initialize w = Some (Inr (), store, w')" and now: "0 \<le> now"
  shows "\<exists>rs state index. store_state fd file durable
      (store\<lparr> st_session_start_ms := now, st_last_job_time_ms := st_time_base_ms store \<rparr>) w' rs state index [] \<and>
    st_failure store = STORE_FAILURE_NONE \<and> \<not> st_opened store \<and>
    (if initialize then rs = [] \<and> state = replay_init
     else \<exists>tail w0. os_allocate io w = (True, w0) \<and> file w0 = file_header @ log_bytes rs @ tail \<and> st_jobs store = rs_scheduler state)"
proof -
  have closed: "wal_state FAULTLINE_WAL_WRITER_INIT = WRITER_CLOSED" "wal_fd FAULTLINE_WAL_WRITER_INIT = - 1"
    "wal_directory_fd FAULTLINE_WAL_WRITER_INIT = - 1" by (simp_all add: FAULTLINE_WAL_WRITER_INIT_def)
  have init: "st_wal faultline_store_init = FAULTLINE_WAL_WRITER_INIT" "st_failure faultline_store_init = STORE_FAILURE_NONE"
    "\<not> st_opened faultline_store_init" "st_jobs faultline_store_init = faultline_scheduler_init"
    "st_workers faultline_store_init = faultline_worker_registry_init" "st_time_base_ms faultline_store_init = 0"
    by (simp_all add: faultline_store_init_def)
  let ?store = "store\<lparr> st_session_start_ms := now, st_last_job_time_ms := st_time_base_ms store \<rparr>"
  show ?thesis
  proof (cases initialize)
    case True
    then obtain wal where run': "faultline_wal_writer_create_with_io io FAULTLINE_WAL_WRITER_INIT path w = Some (WRITE_OK, wal, w')"
      and store: "store = faultline_store_init\<lparr> st_wal := wal, st_write_result := WRITE_OK \<rparr>"
      using run init by (auto simp: open_log_def bind_eq_Some_conv Let_def split: if_splits)
    note k = create_Some [OF dev(1,2) path closed run']
    have "store_log ?store [] replay_init empty_index"
      using registry_init_wf unused_registry [of _ "r_next_worker_id faultline_worker_registry_init"]
      by (simp add: store_log_def store init) (simp add: replay_init_def)
    then have "store_state fd file durable ?store w' [] replay_init empty_index []"
      using k now by (simp add: store_state_def store_ready_def store init) (simp add: replay_init_def)
    then show ?thesis using True store init by auto
  next
    case False
    obtain allocated w0 where w0: "os_allocate io w = (allocated, w0)" by fastforce
    then have allocated using run False by (cases allocated) (auto simp: open_log_def)
    obtain result wal report w1 where r: "faultline_wal_replay_open_with_io io FAULTLINE_WAL_WRITER_INIT path
        (st_replay_report faultline_store_init) w0 = Some ((result, wal, report), w1)"
      using run False w0 \<open>allocated\<close> init by (auto simp: open_log_def bind_eq_Some_conv)
    have "\<exists>state. result = Inr state \<and> w1 = w' \<and> store = faultline_store_init\<lparr> st_wal := wal, st_replay_report := report,
        st_replay_result := None, st_jobs := rs_scheduler state, st_workers := rs_workers state,
        st_time_base_ms := rs_job_time_base_ms state \<rparr>"
      using run False w0 \<open>allocated\<close> init r by (cases result) (auto simp: open_log_def Let_def)
    then obtain state where run': "faultline_wal_replay_open_with_io io FAULTLINE_WAL_WRITER_INIT path
        (st_replay_report faultline_store_init) w0 = Some ((Inr state, wal, report), w')"
      and store: "store = faultline_store_init\<lparr> st_wal := wal, st_replay_report := report, st_replay_result := None,
        st_jobs := rs_scheduler state, st_workers := rs_workers state, st_time_base_ms := rs_job_time_base_ms state \<rparr>"
      using r by blast
    from replay_open_sound [OF dev path closed run', unfolded sum.case] obtain rs index tail where k: "sequenced 0 rs"
      "replay_records (replay_init, empty_index) rs = Inr (state, index)" "replay_wf state index"
      "file w0 = file_header @ log_bytes rs @ tail" "file w' = file_header @ log_bytes rs" "durable w' = file w'"
      "wal = (opened_writer FAULTLINE_WAL_WRITER_INIT fd dfd)\<lparr> wal_synced_sequence := last_sequence 0 rs,
          wal_next_sequence := next_id (last_sequence 0 rs), wal_state := WRITER_READY \<rparr>" by blast
    have workers: "rs_workers state = faultline_worker_registry_init\<lparr> r_next_worker_id := next_id (rs_highest_worker_id state) \<rparr>"
      using k(3) by (simp add: replay_wf_def)
    have "store_log ?store rs state index"
      using k(1,2) recovered_registry_wf unused_registry by (auto simp: store_log_def store workers)
    then have "store_state fd file durable ?store w' rs state index []"
      using k now by (simp add: store_state_def store_ready_def store init replay_wf_def)
    then show ?thesis using False store init w0 \<open>allocated\<close> k(4) by auto
  qed
qed

lemma store_open_state:
  assumes dev: "opening_file io fd dfd file durable pos" "recovering_file io fd dfd file durable pos" "memory_available (os_allocate io)"
    and path: "\<not> invalid_path path"
    and run: "faultline_store_open_with_io io faultline_store_init path initialize now w = Some (Inr (), store', w')"
  shows "store_inv fd file durable store' w' \<and> usable store' \<and> (\<forall>j \<in> set (s_jobs (st_jobs store')). \<not> job_active j)"
proof -
  have app: "appending_file io fd file durable" using recoveringD [OF dev(2)] by simp
  have init: "\<not> st_opened faultline_store_init" "\<not> wal_has_io (st_wal faultline_store_init)"
    "st_failure faultline_store_init = STORE_FAILURE_NONE"
    by (simp_all add: faultline_store_init_def FAULTLINE_WAL_WRITER_INIT_def)
  have now: "0 \<le> now" using run init by (auto simp: faultline_store_open_with_io_def split: if_splits)
  obtain a store w1 where a: "open_log io faultline_store_init path initialize w = Some (a, store, w1)"
    using run init now by (auto simp: faultline_store_open_with_io_def bind_eq_Some_conv)
  have "a = Inr ()" using run init now a by (cases a) (auto simp: faultline_store_open_with_io_def)
  with a have opened: "open_log io faultline_store_init path initialize w = Some (Inr (), store, w1)" by simp
  let ?store = "store\<lparr> st_session_start_ms := now, st_last_job_time_ms := st_time_base_ms store \<rparr>"
  obtain b store2 w2 where b: "recover_from io now 0 ?store w1 = Some (b, store2, w2)"
    using run init now opened by (auto simp: faultline_store_open_with_io_def recover_interrupted_jobs_def bind_eq_Some_conv)
  have "b = Inr () \<and> w2 = w' \<and> store' = store2\<lparr> st_opened := True \<rparr>"
    using run init now opened b by (cases b) (auto simp: faultline_store_open_with_io_def recover_interrupted_jobs_def)
  with b have rec: "recover_from io now 0 ?store w1 = Some (Inr (), store2, w')" "store' = store2\<lparr> st_opened := True \<rparr>" by simp_all
  from open_log_state [OF dev path opened now] obtain rs state index where
    st: "store_state fd file durable (store\<lparr> st_session_start_ms := now, st_last_job_time_ms := st_time_base_ms store \<rparr>) w1 rs state index []"
    "st_failure store = STORE_FAILURE_NONE" by blast
  from recover_from_ends [OF app st(1) _ _ rec(1)] st(2) show ?thesis
    using rec(2) by (auto simp: store_inv_def usable_def)
qed

section \<open>Every operation returns\<close>

lemma store_append_returns:
  assumes "interruptions_end io (wal_fd (st_wal store)) budget"
  shows "\<exists>out store' w'. store_append io store payload w = Some (out, store', w')"
  using append_returns_Some [OF assms, of "\<lparr> wr_sequence = wal_next_sequence (st_wal store), wr_payload = payload \<rparr>" w]
  by (auto simp: store_append_def Let_def)

lemma commit_job_returns:
  assumes "interruptions_end io (wal_fd (st_wal store)) budget"
  shows "\<exists>out store' w'. commit_job io store i type w = Some (out, store', w')"
proof (cases "faultline_scheduler_find (st_scratch store) i")
  case (Some job)
  then show ?thesis
    using store_append_returns [OF assms, of "JOB_SNAPSHOT type job" w] by (auto simp: commit_job_def split: sum.split)
qed (simp add: commit_job_def)

lemma commit_returns_scratch:
  assumes "interruptions_end io (wal_fd (st_wal store)) budget"
  shows "\<exists>out store' w'. commit_job io (store\<lparr> st_scratch := s \<rparr>) i type w = Some (out, store', w')"
  using commit_job_returns [of io "store\<lparr> st_scratch := s \<rparr>" budget] assms by simp

lemma commit_worker_loss_returns:
  assumes "interruptions_end io (wal_fd (st_wal store)) budget"
  shows "\<exists>out store' w'. commit_worker_loss io store worker now w = Some (out, store', w')"
  using commit_returns_scratch [OF assms]
  by (auto simp: commit_worker_loss_def Let_def split: option.split sum.split)

lemma submit_returns:
  assumes "interruptions_end io (wal_fd (st_wal store)) budget"
  shows "\<exists>out store' w'. faultline_store_submit io store submit now w = Some (out, store', w')"
proof (cases "usable store \<and> \<not> isl (job_time store now)")
  case True
  then obtain time where time: "job_time store now = Inr time" by (auto simp: isl_def split: sum.splits) (metis sum.exhaust)
  show ?thesis
  proof (cases "faultline_scheduler_submit (st_jobs store) submit time")
    case (Inl e)
    then show ?thesis using True time by (simp add: faultline_store_submit_def Let_def)
  next
    case (Inr r)
    obtain i s where r: "r = (i, s)" by fastforce
    obtain out store' w' where "commit_job io (store\<lparr> st_scratch := s \<rparr>) i WAL_JOB_CREATED w = Some (out, store', w')"
      using commit_returns_scratch [OF assms] by blast
    then show ?thesis using True time Inr r by (cases out) (simp_all add: faultline_store_submit_def)
  qed
next
  case False
  then show ?thesis by (auto simp: faultline_store_submit_def split: sum.splits)
qed

lemma assign_returns:
  assumes "interruptions_end io (wal_fd (st_wal store)) budget"
  shows "\<exists>out store' w'. faultline_store_assign io store worker now w = Some (out, store', w')"
proof (cases "usable store \<and> (\<exists>v. faultline_worker_find (st_workers store) worker = Some v \<and> w_state v = WORKER_ALIVE) \<and>
    (\<exists>time r. job_time store now = Inr time \<and> faultline_scheduler_assign (st_jobs store) worker time = Inr r)")
  case True
  then obtain time m s where a: "job_time store now = Inr time" "faultline_scheduler_assign (st_jobs store) worker time = Inr (m, s)"
    by fastforce
  obtain out store' w' where
    "commit_job io (store\<lparr> st_scratch := s \<rparr>) (assigned_job_id m) WAL_JOB_ASSIGNED w = Some (out, store', w')"
    using commit_returns_scratch [OF assms] by blast
  then show ?thesis using True a by (cases out) (auto simp: faultline_store_assign_def)
next
  case False
  then show ?thesis
    by (cases "job_time store now") (auto simp: faultline_store_assign_def Let_def split: sum.split option.split)
qed

lemma report_returns:
  assumes "interruptions_end io (wal_fd (st_wal store)) budget"
  shows "\<exists>out store' w'. faultline_store_report io store worker message now w = Some (out, store', w')"
  using commit_returns_scratch [OF assms]
  by (cases "job_time store now")
    (auto simp: faultline_store_report_def Let_def split: option.split sum.split)

lemma register_returns:
  assumes "interruptions_end io (wal_fd (st_wal store)) budget"
  shows "\<exists>out store' w'. faultline_store_register io store conn now w = Some (out, store', w')"
proof (cases "faultline_worker_register (st_workers store) conn now")
  case (Inr r)
  obtain i r' where r: "r = (i, r')" by fastforce
  obtain out store' w' where "store_append io store (WORKER_ID i) w = Some (out, store', w')"
    using store_append_returns [OF assms] by blast
  then show ?thesis using Inr r by (cases out) (simp_all add: faultline_store_register_def)
qed (simp add: faultline_store_register_def)

lemma write_all_fd:
  assumes "write_all io writer data operation w = Some (result, writer', w')"
  shows "wal_fd writer' = wal_fd writer"
proof -
  obtain q v where "write_loop (io_write io (wal_fd writer)) data w = Some (q, v)"
    using assms by (auto simp: write_all_def bind_eq_Some_conv)
  then show ?thesis using assms by (cases q) (auto simp: write_all_def)
qed

lemma append_fd:
  assumes "faultline_wal_writer_append io writer r w = Some (result, writer', w')"
  shows "wal_fd writer' = wal_fd writer"
  using assms
  by (auto simp: faultline_wal_writer_append_def bind_eq_Some_conv split: if_splits sum.split_asm
      dest!: write_all_fd sync_fds)

lemma commit_job_keeps:
  assumes "commit_job io store i type w = Some (out, store', w')"
  shows "wal_fd (st_wal store') = wal_fd (st_wal store) \<and> (st_jobs store' = st_jobs store \<or> st_jobs store' = st_scratch store)"
proof (cases "faultline_scheduler_find (st_scratch store) i")
  case (Some job)
  let ?r = "\<lparr> wr_sequence = wal_next_sequence (st_wal store), wr_payload = JOB_SNAPSHOT type job \<rparr>"
  obtain result wal w1 where "faultline_wal_writer_append io (st_wal store) ?r w = Some (result, wal, w1)"
    using assms Some by (auto simp: commit_job_def store_append_def bind_eq_Some_conv)
  then show ?thesis
    using assms Some append_fd [of io "st_wal store" ?r w result wal w1]
    by (cases "result = WRITE_OK") (auto simp: commit_job_def store_append_def)
qed (use assms in \<open>auto simp: commit_job_def\<close>)

lemma worker_lost_length:
  "faultline_scheduler_worker_lost s worker now = Inr s' \<Longrightarrow> length (s_jobs s') = length (s_jobs s)"
  by (auto simp: faultline_scheduler_worker_lost_def publish_outcome_def split: if_splits option.splits sum.splits)

lemma commit_worker_loss_keeps:
  assumes "commit_worker_loss io store worker now w = Some (out, store', w')"
  shows "wal_fd (st_wal store') = wal_fd (st_wal store) \<and> length (s_jobs (st_jobs store')) = length (s_jobs (st_jobs store))"
proof (cases "\<exists>j time s. faultline_scheduler_active (st_jobs store) worker = Some j \<and> job_time store now = Inr time \<and>
    faultline_scheduler_worker_lost (st_jobs store) worker time = Inr s")
  case True
  then obtain j time s where c: "faultline_scheduler_active (st_jobs store) worker = Some j" "job_time store now = Inr time"
    "faultline_scheduler_worker_lost (st_jobs store) worker time = Inr s" by blast
  then obtain type where "commit_job io (store\<lparr> st_scratch := s \<rparr>) (j_id j) type w = Some (out, store', w')"
    using assms by (simp add: commit_worker_loss_def)
  from commit_job_keeps [OF this] worker_lost_length [OF c(3)] show ?thesis by auto
next
  case False
  then show ?thesis
    using assms job_time_Inl [of store now]
    by (cases "job_time store now") (auto simp: commit_worker_loss_def Let_def split: option.splits sum.splits)
qed

lemma recover_from_returns:
  assumes "interruptions_end io fd budget" "wal_fd (st_wal store) = fd"
  shows "\<exists>out store' w'. recover_from io now i store w = Some (out, store', w')"
  using assms(2)
proof (induction "length (s_jobs (st_jobs store)) - i" arbitrary: i store w rule: less_induct)
  case less
  let ?job = "s_jobs (st_jobs store) ! i"
  have more: "\<exists>out store' w'. recover_from io now (i + 1) store1 w1 = Some (out, store', w')"
    if "i < length (s_jobs (st_jobs store))" "length (s_jobs (st_jobs store1)) = length (s_jobs (st_jobs store))"
      "wal_fd (st_wal store1) = fd" for store1 w1
    using less.hyps [of store1 "i + 1"] that by simp
  obtain out store1 w1 where c: "commit_worker_loss io store (j_worker_id ?job) now w = Some (out, store1, w1)"
    using commit_worker_loss_returns [of io store budget] assms(1) less.prems by blast
  note keeps = commit_worker_loss_keeps [OF c]
  show ?case
    using more [of "store1\<lparr> st_interrupted_jobs := st_interrupted_jobs store1 + 1 \<rparr>" w1] more [of store w] keeps less.prems c
    by (cases out) (auto simp: recover_from.simps [of _ _ i] Let_def)
qed

section \<open>Crashes\<close>

text \<open>What a crash may leave of the file: everything durable, and any part of what was written after it.\<close>

lemma crash_history:
  assumes st: "store_state fd file durable store w rs state index tail"
    and c: "prefix (durable w) c" "prefix c (file w)"
  obtains rs' tail' state' index' where "c = file_header @ log_bytes rs' @ tail'" "sequenced 0 rs'"
    "replay_records (replay_init, empty_index) rs' = Inr (state', index')" "torn_after (last_sequence 0 rs') tail'"
    "rs' = rs \<and> state' = state \<or>
     st_failure store \<noteq> STORE_FAILURE_NONE \<and> (\<exists>r. rs' = rs @ [r] \<and> replay_records (state, index) [r] = Inr (state', index'))"
proof -
  have log: "sequenced 0 rs" "replay_records (replay_init, empty_index) rs = Inr (state, index)"
    using st by (auto simp: store_state_def store_log_def)
  have "prefix (file_header @ log_bytes rs) c"
    using st c(1) prefix_order.trans by (auto simp: store_state_def)
  then obtain t where t: "c = file_header @ log_bytes rs @ t" by (auto elim: prefixE)
  then have pre: "prefix t tail" using c(2) st by (auto simp: store_state_def)
  show thesis
  proof (cases "t = []")
    case True
    then show thesis using that [of rs t state index] t log by (simp add: torn_after_def)
  next
    case False
    then have tail: "tail \<noteq> []" using pre by auto
    then have failed: "st_failure store \<noteq> STORE_FAILURE_NONE" "in_flight rs state index tail"
      using st by (auto simp: store_state_def split: if_splits)
    then obtain r state' index' where r: "sequenced (last_sequence 0 rs) [r]" "replay_records (state, index) [r] = Inr (state', index')"
      "prefix tail (record_bytes r)" using tail unfolding in_flight_def by fastforce
    have part: "prefix t (record_bytes r)" using pre r(3) by (rule prefix_order.trans)
    show thesis
    proof (cases "t = record_bytes r")
      case True
      have "sequenced 0 (rs @ [r])" using log(1) r(1) by (simp only: sequenced_append)
      moreover have "replay_records (replay_init, empty_index) (rs @ [r]) = Inr (state', index')"
        using replay_extend [OF log(2) r(2)] .
      ultimately show thesis using that [of "rs @ [r]" "[]" state' index'] t True failed(1) r(2)
        by (simp add: torn_after_def del: replay_records.simps)
    next
      case False
      then have "strict_prefix t (record_bytes r)" using part by (simp add: strict_prefix_def)
      moreover have "last_sequence 0 rs \<noteq> - 1" using r(1) by simp
      ultimately have "torn_after (last_sequence 0 rs) t" using r(1) unfolding torn_after_def by blast
      then show thesis using that [of rs t state index] t log by simp
    qed
  qed
qed

text \<open>The stores some run of the coordinator leads to.\<close>

definition store_started ::
  "'w faultline_wal_writer_io \<Rightarrow> string \<Rightarrow> faultline_coordinator_store \<times> 'w \<Rightarrow> bool" where
  "store_started io path = (\<lambda>(store, w). \<exists>initialize now w0.
     faultline_store_open_with_io io faultline_store_init path initialize now w0 = Some (Inr (), store, w))"

lemma store_reachable_inv:
  assumes dev: "opening_file io fd dfd file durable pos" "recovering_file io fd dfd file durable pos" "memory_available (os_allocate io)"
    and path: "\<not> invalid_path path" and run: "reachable (store_started io path) (store_step io) (store, w)"
  shows "store_inv fd file durable store w"
proof -
  have app: "appending_file io fd file durable" using recoveringD [OF dev(2)] by simp
  have "invariant_system (store_started io path) (store_step io) (\<lambda>(store, w). store_inv fd file durable store w)"
  proof unfold_locales
    fix s assume "store_started io path s"
    then show "case s of (store, w) \<Rightarrow> store_inv fd file durable store w"
      using store_open_state [OF dev path] by (cases s) (auto simp: store_started_def)
  next
    fix s t assume "case s of (store, w) \<Rightarrow> store_inv fd file durable store w" "store_step io s t"
    then show "case t of (store, w) \<Rightarrow> store_inv fd file durable store w"
      using store_step_inv [OF app] by (cases s; cases t) auto
  qed
  from invariant_system.reachable_inv [OF this run] show ?thesis by simp
qed

section \<open>A run in memory\<close>

definition opened_device :: memory_device where
  "opened_device = \<lparr> md_file = file_header, md_durable = file_header, md_position = 0, md_interrupts = 0 \<rparr>"

definition opened_store :: faultline_coordinator_store where
  "opened_store = faultline_store_init\<lparr> st_opened := True,
     st_wal := (opened_writer FAULTLINE_WAL_WRITER_INIT 5 4)\<lparr> wal_next_sequence := 1, wal_state := WRITER_READY \<rparr> \<rparr>"

lemma memory_create:
  "faultline_wal_writer_create_with_io memory_io FAULTLINE_WAL_WRITER_INIT ''jobs.wal'' empty_device =
     Some (WRITE_OK, (opened_writer FAULTLINE_WAL_WRITER_INIT 5 4)\<lparr> wal_next_sequence := 1, wal_state := WRITER_READY \<rparr>, opened_device)"
proof -
  have opened: "faultline_wal_writer_open_file memory_io FAULTLINE_WAL_WRITER_INIT ''jobs.wal'' True empty_device =
      Some (WRITE_OK, opened_writer FAULTLINE_WAL_WRITER_INIT 5 4, empty_device)"
    by (simp add: faultline_wal_writer_open_file_def retry_eintr.simps invalid_path_def empty_device_def)
      (simp add: FAULTLINE_WAL_WRITER_INIT_def opened_writer_def)
  have len: "length file_header = 24" by (simp add: FAULTLINE_WAL_FILE_HEADER_SIZE_def)
  then have ne: "file_header \<noteq> []" by (metis list.size(3) zero_neq_numeral)
  show ?thesis
    by (simp add: faultline_wal_writer_create_with_io_def opened file_header_encode)
      (simp add: write_all_def faultline_wal_writer_sync_def write_loop.simps [of _ file_header] write_loop.simps [of _ "[]"] retry_eintr.simps interruptible_def FAULTLINE_WAL_FILE_HEADER_SIZE_def ne
        empty_device_def opened_device_def)
qed

lemma memory_opened:
  "faultline_store_open_with_io memory_io faultline_store_init ''jobs.wal'' True 0 empty_device = Some (Inr (), opened_store, opened_device)"
  by (simp add: faultline_store_open_with_io_def open_log_def faultline_store_init_def memory_create recover_interrupted_jobs_def
      recover_from.simps [of _ _ 0] opened_store_def) (simp add: faultline_scheduler_init_def FAULTLINE_WAL_WRITER_INIT_def)

lemma memory_started: "store_started memory_io ''jobs.wal'' (opened_store, opened_device)"
  using memory_opened by (auto simp: store_started_def)

lemma memory_reachable: "reachable (store_started memory_io ''jobs.wal'') (store_step memory_io) (opened_store, opened_device)"
  by (rule reachable_start, rule memory_started)

lemma memory_path: "\<not> invalid_path ''jobs.wal''"
  by (simp add: invalid_path_def)

section \<open>Properties\<close>





text \<open>Claim C33. A failure is final: once the store has failed, registering, submitting, assigning,
  reporting, losing a worker and opening all report a fatal error, and neither the store nor the
  device changes.\<close>

theorem store_failure_latched:
  assumes "st_failure store \<noteq> STORE_FAILURE_NONE"
  shows "faultline_store_register io store conn now w = Some (Inl STORE_FATAL, store, w) \<and>
    faultline_store_submit io store submit now w = Some (Inl STORE_FATAL, store, w) \<and>
    faultline_store_assign io store worker now w = Some (Inl STORE_FATAL, store, w) \<and>
    faultline_store_report io store worker message now w = Some (Inl STORE_FATAL, store, w) \<and>
    faultline_store_worker_lost io store worker now w = Some (Inl STORE_FATAL, store, w) \<and>
    faultline_store_open_with_io io store path initialize now w = Some (Inl STORE_FATAL, store, w)"
  using assms by (simp add: unusable_same usable_def faultline_store_open_with_io_def)

theorem store_failure_latched_witness:
  "faultline_store_assign memory_io (store_fail opened_store STORE_FAILURE_CLOCK) 7 9 opened_device =
     Some (Inl STORE_FATAL, store_fail opened_store STORE_FAILURE_CLOCK, opened_device)"
  using store_failure_latched [of "store_fail opened_store STORE_FAILURE_CLOCK" memory_io _ 9 opened_device _ 7] by simp

lemma open_log_existing:
  assumes dev: "opening_file io fd dfd file durable pos" "recovering_file io fd dfd file durable pos"
      "memory_available (os_allocate io)" "recovery_ends io fd dfd budget"
    and path: "\<not> invalid_path path"
    and start: "file w = file_header @ log_bytes rs @ tail" "sequenced 0 rs"
      "replay_records (replay_init, empty_index) rs = Inr (state, index)" "torn_after (last_sequence 0 rs) tail"
      "int (length (file_header @ log_bytes rs)) \<le> INT64_MAX"
  obtains (failed) store w' where "open_log io faultline_store_init path False w = Some (Inl STORE_FATAL, store, w')"
  | (opened) store w' where "open_log io faultline_store_init path False w = Some (Inr (), store, w')"
      "st_jobs store = rs_scheduler state" "wal_fd (st_wal store) = fd"
proof -
  have closed: "wal_state FAULTLINE_WAL_WRITER_INIT = WRITER_CLOSED" "wal_fd FAULTLINE_WAL_WRITER_INIT = - 1"
    "wal_directory_fd FAULTLINE_WAL_WRITER_INIT = - 1" by (simp_all add: FAULTLINE_WAL_WRITER_INIT_def)
  have init: "st_wal faultline_store_init = FAULTLINE_WAL_WRITER_INIT" by (simp add: faultline_store_init_def)
  have reading: "reading_file io fd file durable pos" using recoveringD [OF dev(2)] by simp
  obtain b w0 where w0: "os_allocate io w = (b, w0)" by fastforce
  then have b: "b" using dev(3) by (auto simp: memory_available_def dest: spec [of _ w])
  have file0: "file w0 = file_header @ log_bytes rs @ tail" using reading_allocateD [OF reading w0] start(1) by simp
  obtain result wal report w' where
    run: "faultline_wal_replay_open_with_io io FAULTLINE_WAL_WRITER_INIT path (st_replay_report faultline_store_init) w0 =
      Some ((result, wal, report), w')"
    using replay_open_returns [OF dev(1) reading dev(3,4)] by (metis prod.exhaust)
  from replay_open_complete [OF dev(1-3) path closed file0 start(2-5) run]
  consider (ok) "result = Inr state" "wal_fd wal = fd" | (bad) "result = Inl REPLAY_IO_ERROR" by auto
  then show thesis
  proof cases
    case ok
    let ?store = "faultline_store_init\<lparr> st_wal := wal, st_replay_report := report, st_replay_result := None,
      st_jobs := rs_scheduler state, st_workers := rs_workers state, st_time_base_ms := rs_job_time_base_ms state \<rparr>"
    show thesis by (rule that(2) [of ?store w']) (use ok w0 b run init in \<open>simp_all add: open_log_def\<close>)
  next
    case bad
    then show thesis using w0 b run init by (intro that(1)) (simp add: open_log_def)
  qed
qed



text \<open>Claim C34. Every operation of the store returns when the device interrupts its calls only finitely
  often: no retry loop hangs the coordinator.\<close>

theorem store_operations_return:
  assumes "interruptions_end io (wal_fd (st_wal store)) budget"
  shows "(\<exists>out store' w'. faultline_store_register io store conn now w = Some (out, store', w')) \<and>
    (\<exists>out store' w'. faultline_store_submit io store submit now w = Some (out, store', w')) \<and>
    (\<exists>out store' w'. faultline_store_assign io store worker now w = Some (out, store', w')) \<and>
    (\<exists>out store' w'. faultline_store_report io store worker message now w = Some (out, store', w')) \<and>
    (\<exists>out store' w'. faultline_store_worker_lost io store worker now w = Some (out, store', w'))"
  using register_returns [OF assms] submit_returns [OF assms] assign_returns [OF assms] report_returns [OF assms]
    commit_worker_loss_returns [OF assms]
  by (simp add: faultline_store_worker_lost_def)

theorem store_operations_return_witness:
  "\<exists>out store' w'. faultline_store_register memory_io opened_store 9 5 empty_device = Some (out, store', w')"
  using store_operations_return [OF memory_interruptions [of "wal_fd (st_wal opened_store)"], of 9 5 empty_device] by simp

end
