(* ===== verification/Coordinator_Stats.thy ===== *)
theory Coordinator_Stats
  imports Coordinator_Store
begin

text \<open>
  The statistics of a coordinator session (\<^verbatim>\<open>include/coordinator_stats.h\<close>,
  \<^verbatim>\<open>src/coordinator/coordinator_stats.c\<close>): counters over the retained jobs and workers and their
  differences from a baseline taken at startup. The counters are 64-bit words as in the code. The
  lemmas show that no counter wraps, that the latency is the exact floored mean, and that every
  snapshot passes the protocol's own validation.
\<close>

section \<open>Collecting\<close>

record faultline_stats_session =
  ss_ready_at_ms :: int
  ss_startup_duration_ms :: u64
  ss_startup_interrupted_jobs :: u64
  ss_submitted_at_start :: u64
  ss_completed_at_start :: u64
  ss_failed_at_start :: u64
  ss_retries_at_start :: u64

definition no_stats :: faultline_stats_payload where
  "no_stats = \<lparr>
     stat_jobs_submitted_total = 0, stat_jobs_queued = 0, stat_jobs_assigned = 0, stat_jobs_running = 0,
     stat_jobs_completed_total = 0, stat_jobs_failed_total = 0, stat_job_attempts_total = 0,
     stat_job_retries_total = 0, stat_completed_latency_avg_ms = 0, stat_workers_retained = 0,
     stat_workers_alive = 0, stat_workers_expired = 0, stat_workers_dead = 0, stat_workers_busy = 0,
     stat_workers_idle = 0, stat_session_uptime_ms = 0, stat_session_jobs_submitted = 0,
     stat_session_jobs_completed = 0, stat_session_jobs_failed = 0, stat_session_job_retries = 0,
     stat_startup_jobs_recovered = 0, stat_startup_interrupted_jobs = 0, stat_startup_duration_ms = 0,
     stat_heartbeat_timeout_ms = 0 \<rparr>"

text \<open>The first loop: the state counters, the consistency check, the attempts and retries.\<close>

fun count_state :: "job_state \<Rightarrow> faultline_stats_payload \<Rightarrow> faultline_stats_payload" where
  "count_state JOB_QUEUED s = s\<lparr> stat_jobs_queued := stat_jobs_queued s + 1 \<rparr>"
| "count_state JOB_ASSIGNED s = s\<lparr> stat_jobs_assigned := stat_jobs_assigned s + 1 \<rparr>"
| "count_state JOB_RUNNING s = s\<lparr> stat_jobs_running := stat_jobs_running s + 1 \<rparr>"
| "count_state JOB_DONE s = s\<lparr> stat_jobs_completed_total := stat_jobs_completed_total s + 1 \<rparr>"
| "count_state JOB_FAILED s = s\<lparr> stat_jobs_failed_total := stat_jobs_failed_total s + 1 \<rparr>"

fun count_jobs :: "faultline_stats_payload \<Rightarrow> faultline_job list \<Rightarrow> faultline_stats_payload option" where
  "count_jobs s [] = Some s"
| "count_jobs s (job # jobs) =
     (let s = count_state (j_state job) s in
      if j_retry_count job > j_max_retries job \<or>
        j_attempt job \<noteq> ucast (j_retry_count job) + (if j_state job = JOB_QUEUED then 0 else 1)
      then None
      else count_jobs (s\<lparr> stat_job_attempts_total := stat_job_attempts_total s + j_attempt job,
                           stat_job_retries_total := stat_job_retries_total s + ucast (j_retry_count job) \<rparr>) jobs)"

text \<open>The second loop: the quotients summed in the statistics, the remainders beside them.\<close>

fun add_latencies ::
  "faultline_stats_payload \<Rightarrow> u64 \<Rightarrow> faultline_job list \<Rightarrow> (faultline_stats_payload \<times> u64) option" where
  "add_latencies s remainder [] = Some (s, remainder)"
| "add_latencies s remainder (job # jobs) =
     (if j_state job \<noteq> JOB_DONE then add_latencies s remainder jobs
      else if j_created_at_ms job < 0 \<or> j_finished_at_ms job < j_created_at_ms job then None
      else
        (let latency = of_int (j_finished_at_ms job - j_created_at_ms job) in
         add_latencies
           (s\<lparr> stat_completed_latency_avg_ms := stat_completed_latency_avg_ms s + latency div stat_jobs_completed_total s \<rparr>)
           (remainder + latency mod stat_jobs_completed_total s) jobs))"

definition collect_jobs :: "faultline_coordinator_store \<Rightarrow> faultline_stats_payload option" where
  "collect_jobs store =
     (let jobs = s_jobs (st_jobs store) in
      if \<not> st_opened store \<or> st_failure store \<noteq> STORE_FAILURE_NONE \<or> length jobs > FAULTLINE_JOBS_MAX_ENTRIES then None
      else
        (case count_jobs (no_stats\<lparr> stat_jobs_submitted_total := of_nat (length jobs) \<rparr>) jobs of
           None \<Rightarrow> None
         | Some s \<Rightarrow>
             (case add_latencies s 0 jobs of
                None \<Rightarrow> None
              | Some (s, remainder) \<Rightarrow>
                  Some (if stat_jobs_completed_total s \<noteq> 0
                        then s\<lparr> stat_completed_latency_avg_ms :=
                                 stat_completed_latency_avg_ms s + remainder div stat_jobs_completed_total s \<rparr>
                        else s))))"

section \<open>Sessions\<close>

definition faultline_stats_begin :: "faultline_coordinator_store \<Rightarrow> int \<Rightarrow> faultline_stats_session option" where
  "faultline_stats_begin store now_ms =
     (if st_session_start_ms store < 0 \<or> now_ms < st_session_start_ms store then None
      else
        (case collect_jobs store of
           None \<Rightarrow> None
         | Some baseline \<Rightarrow>
             if st_interrupted_jobs store > length (s_jobs (st_jobs store)) then None
             else Some \<lparr>
               ss_ready_at_ms = now_ms, ss_startup_duration_ms = of_int (now_ms - st_session_start_ms store),
               ss_startup_interrupted_jobs = of_nat (st_interrupted_jobs store),
               ss_submitted_at_start = stat_jobs_submitted_total baseline,
               ss_completed_at_start = stat_jobs_completed_total baseline,
               ss_failed_at_start = stat_jobs_failed_total baseline,
               ss_retries_at_start = stat_job_retries_total baseline \<rparr>))"

fun count_workers ::
  "faultline_scheduler \<Rightarrow> int \<Rightarrow> int \<Rightarrow> faultline_stats_payload \<Rightarrow> faultline_worker list \<Rightarrow> faultline_stats_payload option" where
  "count_workers jobs now_ms timeout_ms s [] = Some s"
| "count_workers jobs now_ms timeout_ms s (worker # workers) =
     (if w_state worker = WORKER_UNUSED then count_workers jobs now_ms timeout_ms s workers
      else
        (let s = s\<lparr> stat_workers_retained := stat_workers_retained s + 1 \<rparr> in
         if w_state worker = WORKER_DEAD
         then count_workers jobs now_ms timeout_ms (s\<lparr> stat_workers_dead := stat_workers_dead s + 1 \<rparr>) workers
         else if w_state worker \<noteq> WORKER_ALIVE \<or> w_last_heartbeat_ms worker < 0 \<or> now_ms < w_last_heartbeat_ms worker
         then None
         else if faultline_worker_timed_out (Some worker) now_ms timeout_ms
         then count_workers jobs now_ms timeout_ms (s\<lparr> stat_workers_expired := stat_workers_expired s + 1 \<rparr>) workers
         else
           (let s = s\<lparr> stat_workers_alive := stat_workers_alive s + 1 \<rparr> in
            count_workers jobs now_ms timeout_ms
              (if faultline_scheduler_active jobs (w_id worker) \<noteq> None
               then s\<lparr> stat_workers_busy := stat_workers_busy s + 1 \<rparr>
               else s\<lparr> stat_workers_idle := stat_workers_idle s + 1 \<rparr>) workers)))"

definition faultline_stats_snapshot ::
  "faultline_stats_session \<Rightarrow> faultline_coordinator_store \<Rightarrow> int \<Rightarrow> int \<Rightarrow> faultline_stats_payload option" where
  "faultline_stats_snapshot session store now_ms heartbeat_timeout_ms =
     (if ss_ready_at_ms session < 0 \<or> now_ms < ss_ready_at_ms session \<or> heartbeat_timeout_ms \<le> 0 then None
      else
        (case collect_jobs store of
           None \<Rightarrow> None
         | Some s \<Rightarrow>
             if stat_jobs_submitted_total s < ss_submitted_at_start session \<or>
               stat_jobs_completed_total s < ss_completed_at_start session \<or>
               stat_jobs_failed_total s < ss_failed_at_start session \<or>
               stat_job_retries_total s < ss_retries_at_start session
             then None
             else
               count_workers (st_jobs store) now_ms heartbeat_timeout_ms
                 (s\<lparr> stat_session_uptime_ms := of_int (now_ms - ss_ready_at_ms session),
                     stat_session_jobs_submitted := stat_jobs_submitted_total s - ss_submitted_at_start session,
                     stat_session_jobs_completed := stat_jobs_completed_total s - ss_completed_at_start session,
                     stat_session_jobs_failed := stat_jobs_failed_total s - ss_failed_at_start session,
                     stat_session_job_retries := stat_job_retries_total s - ss_retries_at_start session,
                     stat_startup_jobs_recovered := ss_submitted_at_start session,
                     stat_startup_interrupted_jobs := ss_startup_interrupted_jobs session,
                     stat_startup_duration_ms := ss_startup_duration_ms session,
                     stat_heartbeat_timeout_ms := of_int heartbeat_timeout_ms \<rparr>)
                 (r_workers (st_workers store))))"

section \<open>What is counted\<close>

definition in_state :: "job_state \<Rightarrow> faultline_job list \<Rightarrow> nat" where
  "in_state state jobs = length (filter (\<lambda>j. j_state j = state) jobs)"

definition attempts :: "faultline_job list \<Rightarrow> nat" where
  "attempts jobs = sum_list (map (\<lambda>j. unat (j_attempt j)) jobs)"

definition retries :: "faultline_job list \<Rightarrow> nat" where
  "retries jobs = sum_list (map (\<lambda>j. unat (j_retry_count j)) jobs)"

definition latencies :: "faultline_job list \<Rightarrow> nat list" where
  "latencies jobs = map (\<lambda>j. nat (j_finished_at_ms j - j_created_at_ms j)) (filter (\<lambda>j. j_state j = JOB_DONE) jobs)"

definition mean_latency :: "faultline_job list \<Rightarrow> nat" where
  "mean_latency jobs = sum_list (latencies jobs) div in_state JOB_DONE jobs"

lemma in_state_simps [simp]:
  "in_state state [] = 0"
  "in_state state (j # js) = (if j_state j = state then Suc (in_state state js) else in_state state js)"
  by (simp_all add: in_state_def)

lemma in_state_append: "in_state state (xs @ ys) = in_state state xs + in_state state ys"
  by (simp add: in_state_def)

lemma in_state_sum:
  "in_state JOB_QUEUED jobs + in_state JOB_ASSIGNED jobs + in_state JOB_RUNNING jobs + in_state JOB_DONE jobs +
     in_state JOB_FAILED jobs = length jobs"
proof (induction jobs)
  case (Cons j js)
  then show ?case by (cases "j_state j") auto
qed simp

text \<open>Every attempt but the first of a job follows a retry, and a queued job has none running.\<close>

lemma job_wf_attempt:
  assumes "job_wf j"
  shows "j_retry_count j \<le> j_max_retries j"
    "j_attempt j = ucast (j_retry_count j) + (if j_state j = JOB_QUEUED then 0 else 1)"
    "unat (j_attempt j) = unat (j_retry_count j) + (if j_state j = JOB_QUEUED then 0 else 1)"
proof -
  show "j_retry_count j \<le> j_max_retries j" using assms by (simp add: job_wf_defs)
  show attempt: "j_attempt j = ucast (j_retry_count j) + (if j_state j = JOB_QUEUED then 0 else 1)"
    using assms by (auto simp: job_wf_defs split: job_state.splits)
  show "unat (j_attempt j) = unat (j_retry_count j) + (if j_state j = JOB_QUEUED then 0 else 1)"
    unfolding attempt using unat_u32_less [of "j_retry_count j"] by (simp add: unat_word_ariths)
qed

lemma attempts_retries:
  "(\<forall>j \<in> set jobs. job_wf j) \<Longrightarrow> attempts jobs + in_state JOB_QUEUED jobs = retries jobs + length jobs"
  by (induction jobs) (auto simp: attempts_def retries_def job_wf_attempt(3))

lemma retries_bound: "retries jobs \<le> length jobs * 0xffffffff"
proof (induction jobs)
  case (Cons j js)
  then show ?case using unat_u32_less [of "j_retry_count j"] by (simp add: retries_def)
qed (simp add: retries_def)

lemma count_jobs_exact:
  assumes "\<forall>j \<in> set jobs. job_wf j"
  shows "count_jobs s jobs = Some (s\<lparr>
    stat_jobs_queued := stat_jobs_queued s + of_nat (in_state JOB_QUEUED jobs),
    stat_jobs_assigned := stat_jobs_assigned s + of_nat (in_state JOB_ASSIGNED jobs),
    stat_jobs_running := stat_jobs_running s + of_nat (in_state JOB_RUNNING jobs),
    stat_jobs_completed_total := stat_jobs_completed_total s + of_nat (in_state JOB_DONE jobs),
    stat_jobs_failed_total := stat_jobs_failed_total s + of_nat (in_state JOB_FAILED jobs),
    stat_job_attempts_total := stat_job_attempts_total s + of_nat (attempts jobs),
    stat_job_retries_total := stat_job_retries_total s + of_nat (retries jobs) \<rparr>)"
  using assms
proof (induction jobs arbitrary: s)
  case Nil
  then show ?case by (simp add: attempts_def retries_def)
next
  case (Cons j js)
  have wf: "job_wf j" using Cons.prems by simp
  have sums: "of_nat (attempts (j # js)) = j_attempt j + of_nat (attempts js)"
    "of_nat (retries (j # js)) = (ucast (j_retry_count j) + of_nat (retries js) :: u64)"
    by (simp_all add: attempts_def retries_def)
  have test: "\<not> (j_retry_count j > j_max_retries j \<or>
      j_attempt j \<noteq> ucast (j_retry_count j) + (if j_state j = JOB_QUEUED then 0 else 1))"
    using job_wf_attempt(1,2) [OF wf] by auto
  show ?case
    unfolding count_jobs.simps Let_def if_not_P [OF test] sums using Cons.IH Cons.prems
    by (cases "j_state j") (simp_all add: add.assoc)
qed

section \<open>The mean\<close>

lemma unat_of_nat_small: "n < 2 ^ 64 \<Longrightarrow> unat (of_nat n :: u64) = n"
  by (simp add: unat_of_nat take_bit_nat_eq_self)

lemma unat_of_int_small: "0 \<le> x \<Longrightarrow> x \<le> INT64_MAX \<Longrightarrow> unat (of_int x :: u64) = nat x"
  using unat_of_nat_small [of "nat x"] by simp

lemma sum_list_le: "\<forall>l \<in> set ls. l \<le> b \<Longrightarrow> sum_list ls \<le> length ls * (b :: nat)"
  by (induction ls) auto

lemma job_wf_done:
  assumes "job_wf j" "j_state j = JOB_DONE"
  shows "0 \<le> j_created_at_ms j" "j_created_at_ms j \<le> j_finished_at_ms j"
    "0 \<le> j_finished_at_ms j - j_created_at_ms j" "j_finished_at_ms j - j_created_at_ms j \<le> INT64_MAX"
  using assms by (auto simp: job_wf_defs)

lemma word_div_of_nat:
  assumes "n < 2 ^ 64"
  shows "(of_nat n :: u64) div d = of_nat (n div unat d)" "(of_nat n :: u64) mod d = of_nat (n mod unat d)"
proof -
  have "n div unat d < 2 ^ 64" "n mod unat d < 2 ^ 64"
    using assms by (auto intro: le_less_trans [OF div_le_dividend] le_less_trans [OF mod_less_eq_dividend])
  then show "(of_nat n :: u64) div d = of_nat (n div unat d)" "(of_nat n :: u64) mod d = of_nat (n mod unat d)"
    using assms by (simp_all add: word_unat_eq_iff unat_div unat_mod unat_of_nat_small)
qed

lemma add_latencies_exact:
  assumes "\<forall>j \<in> set jobs. job_wf j"
  shows "add_latencies s r jobs =
    (let n = unat (stat_jobs_completed_total s) in
     Some (s\<lparr> stat_completed_latency_avg_ms := stat_completed_latency_avg_ms s + of_nat (sum_list (map (\<lambda>l. l div n) (latencies jobs))) \<rparr>,
           r + of_nat (sum_list (map (\<lambda>l. l mod n) (latencies jobs)))))"
  using assms
proof (induction jobs arbitrary: s r)
  case Nil
  then show ?case by (simp add: latencies_def)
next
  case (Cons j js)
  show ?case
  proof (cases "j_state j = JOB_DONE")
    case True
    let ?l = "nat (j_finished_at_ms j - j_created_at_ms j)"
    note k = job_wf_done [OF _ True]
    have wf: "job_wf j" using Cons.prems by simp
    have l: "of_int (j_finished_at_ms j - j_created_at_ms j) = (of_nat ?l :: u64)" using k(3) [OF wf] by simp
    have "?l < 2 ^ 64" using k(3,4) [OF wf] by simp
    note d = word_div_of_nat [OF this, of "stat_jobs_completed_total s"]
    have more: "latencies (j # js) = ?l # latencies js" using True by (simp add: latencies_def)
    have "\<not> (j_created_at_ms j < 0 \<or> j_finished_at_ms j < j_created_at_ms j)" using k(1,2) [OF wf] by auto
    then have step: "add_latencies s r (j # js) =
        add_latencies (s\<lparr> stat_completed_latency_avg_ms := stat_completed_latency_avg_ms s +
            of_nat (?l div unat (stat_jobs_completed_total s)) \<rparr>)
          (r + of_nat (?l mod unat (stat_jobs_completed_total s))) js"
      unfolding add_latencies.simps Let_def l d using True by simp
    have rest: "\<forall>j \<in> set js. job_wf j" using Cons.prems by simp
    show ?thesis unfolding step Cons.IH [OF rest] more Let_def by (simp add: add.assoc)
  next
    case False
    then show ?thesis using Cons by (simp add: latencies_def)
  qed
qed

text \<open>Summing quotients and remainders apart loses nothing.\<close>

lemma mean_of_parts:
  "0 < n \<Longrightarrow> sum_list (map (\<lambda>l. l div n) ls) + sum_list (map (\<lambda>l. l mod n) ls) div n = sum_list ls div (n :: nat)"
proof -
  assume n: "0 < n"
  have "sum_list ls = n * sum_list (map (\<lambda>l. l div n) ls) + sum_list (map (\<lambda>l. l mod n) ls)"
    by (induction ls) (auto simp: algebra_simps)
  then show ?thesis using n by simp
qed

lemma remainders_bound: "0 < n \<Longrightarrow> sum_list (map (\<lambda>l. l mod n) ls) \<le> length ls * (n :: nat)"
  using sum_list_le [of "map (\<lambda>l. l mod n) ls" n] by auto

lemma length_latencies: "length (latencies jobs) = in_state JOB_DONE jobs"
  by (simp add: latencies_def in_state_def)

lemma mean_latency_bound:
  assumes "\<forall>j \<in> set jobs. job_wf j"
  shows "int (mean_latency jobs) \<le> INT64_MAX" "in_state JOB_DONE jobs = 0 \<Longrightarrow> mean_latency jobs = 0"
proof -
  have "\<forall>l \<in> set (latencies jobs). l \<le> nat INT64_MAX"
    using assms job_wf_done(4) by (fastforce simp: latencies_def)
  then have "sum_list (latencies jobs) \<le> length (latencies jobs) * nat INT64_MAX"
    by (rule sum_list_le)
  then have "mean_latency jobs \<le> nat INT64_MAX"
    unfolding mean_latency_def length_latencies
    by (cases "in_state JOB_DONE jobs = 0") (auto simp: div_le_mono dest: div_le_mono [of _ _ "in_state JOB_DONE jobs"])
  then show "int (mean_latency jobs) \<le> INT64_MAX" by simp
qed (simp add: mean_latency_def)

section \<open>The statistics of consistent jobs\<close>

definition job_stats :: "faultline_job list \<Rightarrow> faultline_stats_payload" where
  "job_stats jobs = no_stats\<lparr>
     stat_jobs_submitted_total := of_nat (length jobs),
     stat_jobs_queued := of_nat (in_state JOB_QUEUED jobs), stat_jobs_assigned := of_nat (in_state JOB_ASSIGNED jobs),
     stat_jobs_running := of_nat (in_state JOB_RUNNING jobs), stat_jobs_completed_total := of_nat (in_state JOB_DONE jobs),
     stat_jobs_failed_total := of_nat (in_state JOB_FAILED jobs), stat_job_attempts_total := of_nat (attempts jobs),
     stat_job_retries_total := of_nat (retries jobs), stat_completed_latency_avg_ms := of_nat (mean_latency jobs) \<rparr>"

lemma collect_jobs_exact:
  assumes "st_opened store" "st_failure store = STORE_FAILURE_NONE" "sched_wf (st_jobs store)"
  shows "collect_jobs store = Some (job_stats (s_jobs (st_jobs store)))"
proof -
  let ?jobs = "s_jobs (st_jobs store)" and ?n = "in_state JOB_DONE (s_jobs (st_jobs store))"
  have wf: "\<forall>j \<in> set ?jobs. job_wf j" and few: "length ?jobs \<le> FAULTLINE_JOBS_MAX_ENTRIES" "length ?jobs \<le> 256"
    using assms(3) by (auto simp: sched_wf_def FAULTLINE_JOB_STORE_CAPACITY_def FAULTLINE_JOBS_MAX_ENTRIES_def)
  have "?n \<le> 256" using in_state_sum [of ?jobs] few(2) by linarith
  then have n: "unat (of_nat ?n :: u64) = ?n" by (intro unat_of_nat_small) simp
  let ?q = "sum_list (map (\<lambda>l. l div ?n) (latencies ?jobs))" and ?r = "sum_list (map (\<lambda>l. l mod ?n) (latencies ?jobs))"
  let ?s = "(job_stats ?jobs)\<lparr> stat_completed_latency_avg_ms := 0 \<rparr>"
  have completed: "unat (stat_jobs_completed_total ?s) = ?n" by (simp add: job_stats_def n)
  have counted: "count_jobs (no_stats\<lparr> stat_jobs_submitted_total := of_nat (length ?jobs) \<rparr>) ?jobs = Some ?s"
    by (simp add: count_jobs_exact [OF wf] job_stats_def no_stats_def)
  have summed: "add_latencies ?s 0 ?jobs = Some (?s\<lparr> stat_completed_latency_avg_ms := of_nat ?q \<rparr>, of_nat ?r)"
    unfolding add_latencies_exact [OF wf] Let_def completed by simp
  have collect: "collect_jobs store = Some (if stat_jobs_completed_total ?s \<noteq> 0
      then ?s\<lparr> stat_completed_latency_avg_ms := of_nat ?q + of_nat ?r div stat_jobs_completed_total ?s \<rparr>
      else ?s\<lparr> stat_completed_latency_avg_ms := of_nat ?q \<rparr>)"
    using assms few(1) by (simp add: collect_jobs_def Let_def counted summed)
  have zero: "stat_jobs_completed_total ?s = 0 \<longleftrightarrow> ?n = 0" using completed by (metis unat_eq_zero)
  show ?thesis
  proof (cases "?n = 0")
    case True
    then have "latencies ?jobs = []" using length_latencies [of ?jobs] by simp
    then show ?thesis unfolding collect using True zero by (simp add: job_stats_def mean_latency_def)
  next
    case False
    have "?r \<le> ?n * ?n" using remainders_bound [of ?n "latencies ?jobs"] False length_latencies by simp
    also have "\<dots> \<le> 256 * 256" using \<open>?n \<le> 256\<close> by (rule mult_le_mono) (rule \<open>?n \<le> 256\<close>)
    finally have small: "?r < 2 ^ 64" by simp
    have "(of_nat ?r :: u64) div stat_jobs_completed_total ?s = of_nat (?r div ?n)"
      unfolding word_div_of_nat(1) [OF small] completed ..
    moreover have "mean_latency ?jobs = ?q + ?r div ?n" using mean_of_parts [of ?n "latencies ?jobs"] False by (simp add: mean_latency_def)
    ultimately have "of_nat (mean_latency ?jobs) = of_nat ?q + (of_nat ?r :: u64) div stat_jobs_completed_total ?s" by simp
    then show ?thesis unfolding collect using zero False by (simp add: job_stats_def)
  qed
qed

section \<open>Counting workers\<close>

definition used_workers :: "faultline_worker list \<Rightarrow> nat" where
  "used_workers ws = length (filter worker_used ws)"

definition dead_workers :: "faultline_worker list \<Rightarrow> nat" where
  "dead_workers ws = length (filter (\<lambda>v. w_state v = WORKER_DEAD) ws)"

definition expired_workers :: "int \<Rightarrow> int \<Rightarrow> faultline_worker list \<Rightarrow> nat" where
  "expired_workers now timeout ws = length (filter (\<lambda>v. faultline_worker_timed_out (Some v) now timeout) ws)"

definition fresh :: "int \<Rightarrow> int \<Rightarrow> faultline_worker \<Rightarrow> bool" where
  "fresh now timeout v \<longleftrightarrow> w_state v = WORKER_ALIVE \<and> \<not> faultline_worker_timed_out (Some v) now timeout"

definition busy_workers :: "faultline_scheduler \<Rightarrow> int \<Rightarrow> int \<Rightarrow> faultline_worker list \<Rightarrow> nat" where
  "busy_workers jobs now timeout ws =
     length (filter (\<lambda>v. fresh now timeout v \<and> faultline_scheduler_active jobs (w_id v) \<noteq> None) ws)"

definition idle_workers :: "faultline_scheduler \<Rightarrow> int \<Rightarrow> int \<Rightarrow> faultline_worker list \<Rightarrow> nat" where
  "idle_workers jobs now timeout ws =
     length (filter (\<lambda>v. fresh now timeout v \<and> faultline_scheduler_active jobs (w_id v) = None) ws)"

lemmas worker_counts = used_workers_def dead_workers_def expired_workers_def busy_workers_def idle_workers_def fresh_def

lemma worker_counts_sum:
  "dead_workers ws + expired_workers now timeout ws + busy_workers jobs now timeout ws + idle_workers jobs now timeout ws = used_workers ws"
proof (induction ws)
  case (Cons v ws)
  have "\<not> (w_state v = WORKER_DEAD \<and> faultline_worker_timed_out (Some v) now timeout)"
    "faultline_worker_timed_out (Some v) now timeout \<Longrightarrow> w_state v = WORKER_ALIVE"
    by (auto simp: faultline_worker_timed_out_def)
  with Cons show ?case by (cases "w_state v") (auto simp: worker_counts worker_used_def)
qed (simp add: worker_counts)

text \<open>The clock is not behind the heartbeats of the live workers.\<close>

definition clock_ahead :: "int \<Rightarrow> faultline_worker list \<Rightarrow> bool" where
  "clock_ahead now ws \<longleftrightarrow> (\<forall>v \<in> set ws. w_state v = WORKER_ALIVE \<longrightarrow> 0 \<le> w_last_heartbeat_ms v \<and> w_last_heartbeat_ms v \<le> now)"

lemma count_workers_exact:
  assumes "clock_ahead now ws"
  shows "count_workers jobs now timeout s ws = Some (s\<lparr>
    stat_workers_retained := stat_workers_retained s + of_nat (used_workers ws),
    stat_workers_alive := stat_workers_alive s + of_nat (busy_workers jobs now timeout ws + idle_workers jobs now timeout ws),
    stat_workers_expired := stat_workers_expired s + of_nat (expired_workers now timeout ws),
    stat_workers_dead := stat_workers_dead s + of_nat (dead_workers ws),
    stat_workers_busy := stat_workers_busy s + of_nat (busy_workers jobs now timeout ws),
    stat_workers_idle := stat_workers_idle s + of_nat (idle_workers jobs now timeout ws) \<rparr>)"
  using assms
proof (induction ws arbitrary: s)
  case Nil
  then show ?case by (simp add: worker_counts)
next
  case (Cons v ws)
  have rest: "clock_ahead now ws" using Cons.prems by (simp add: clock_ahead_def)
  have alive: "w_state v = WORKER_ALIVE \<Longrightarrow> 0 \<le> w_last_heartbeat_ms v \<and> w_last_heartbeat_ms v \<le> now"
    using Cons.prems by (simp add: clock_ahead_def)
  have late: "faultline_worker_timed_out (Some v) now timeout \<Longrightarrow> w_state v = WORKER_ALIVE"
    by (simp add: faultline_worker_timed_out_def)
  show ?case
    using alive late by (cases "w_state v"; cases "faultline_worker_timed_out (Some v) now timeout"; cases "faultline_scheduler_active jobs (w_id v)")
      (simp_all add: Let_def Cons.IH [OF rest] worker_counts worker_used_def add.assoc)
qed

text \<open>Each busy worker has an active job of its own.\<close>

lemma slots_distinct_tl:
  assumes "slots_distinct used key (x # xs)"
  shows "slots_distinct used key xs" "used x \<Longrightarrow> y \<in> set xs \<Longrightarrow> used y \<Longrightarrow> key y \<noteq> key x"
proof -
  show "slots_distinct used key xs" unfolding slots_distinct_def
  proof (intro allI impI)
    fix i j assume "i < length xs" "j < length xs" "used (xs ! i) \<and> used (xs ! j) \<and> key (xs ! i) = key (xs ! j)"
    then show "i = j" using slots_distinctD [OF assms, of "Suc i" "Suc j"] by simp
  qed
  assume "used x" "y \<in> set xs" "used y"
  then obtain i where "i < length xs" "y = xs ! i" by (metis in_set_conv_nth)
  then show "key y \<noteq> key x" using slots_distinctD [OF assms, of "Suc i" 0] \<open>used x\<close> \<open>used y\<close> by auto
qed

lemma slots_distinct_keys:
  "slots_distinct used key xs \<Longrightarrow> (\<And>x. P x \<Longrightarrow> used x) \<Longrightarrow> distinct (map key (filter P xs))"
proof (induction xs)
  case (Cons x xs)
  then show ?case using slots_distinct_tl [OF Cons.prems(1)] by fastforce
qed simp

lemma active_jobs: "length (filter job_active js) = in_state JOB_ASSIGNED js + in_state JOB_RUNNING js"
  by (induction js) (auto simp: job_active_def)

lemma busy_bound:
  assumes "sched_wf jobs" "registry_wf registry"
  shows "busy_workers jobs now timeout (r_workers registry) \<le>
    in_state JOB_ASSIGNED (s_jobs jobs) + in_state JOB_RUNNING (s_jobs jobs)"
proof -
  let ?busy = "filter (\<lambda>v. fresh now timeout v \<and> faultline_scheduler_active jobs (w_id v) \<noteq> None) (r_workers registry)"
  let ?active = "filter job_active (s_jobs jobs)"
  have "distinct (map w_id ?busy)"
    using assms(2) by (intro slots_distinct_keys [where used = worker_used]) (auto simp: registry_wf_def fresh_def worker_used_def)
  then have "busy_workers jobs now timeout (r_workers registry) = card (set (map w_id ?busy))"
    using distinct_card [of "map w_id ?busy"] by (simp add: busy_workers_def)
  also have "\<dots> \<le> card (set (map j_worker_id ?active))"
  proof (rule card_mono)
    show "set (map w_id ?busy) \<subseteq> set (map j_worker_id ?active)"
    proof
      fix i assume "i \<in> set (map w_id ?busy)"
      then obtain j where "faultline_scheduler_active jobs i = Some j" by auto
      then have "j \<in> set ?active" "j_worker_id j = i" using active_Some_iff [OF assms(1)] by auto
      then show "i \<in> set (map j_worker_id ?active)" by force
    qed
  qed simp
  also have "\<dots> \<le> length ?active" using card_length [of "map j_worker_id ?active"] by simp
  also have "\<dots> = in_state JOB_ASSIGNED (s_jobs jobs) + in_state JOB_RUNNING (s_jobs jobs)"
    by (rule active_jobs)
  finally show ?thesis .
qed

section \<open>Totals never go down\<close>

definition totals_grow :: "faultline_job list \<Rightarrow> faultline_job list \<Rightarrow> bool" where
  "totals_grow js js' \<longleftrightarrow> length js \<le> length js' \<and> in_state JOB_DONE js \<le> in_state JOB_DONE js' \<and>
     in_state JOB_FAILED js \<le> in_state JOB_FAILED js' \<and> retries js \<le> retries js'"

lemma totals_grow_refl [simp]: "totals_grow js js"
  by (simp add: totals_grow_def)

lemma totals_grow_trans: "totals_grow js js' \<Longrightarrow> totals_grow js' js'' \<Longrightarrow> totals_grow js js''"
  by (auto simp: totals_grow_def)

lemma totals_grow_append: "totals_grow js (js @ new)"
  by (simp add: totals_grow_def in_state_append retries_def)

lemma in_state_update:
  "i < length js \<Longrightarrow> (j_state (js ! i) = state \<longrightarrow> j_state j = state) \<Longrightarrow> in_state state js \<le> in_state state (js[i := j])"
proof (induction js arbitrary: i)
  case (Cons k js)
  then show ?case by (cases i) auto
qed simp

lemma retries_update: "i < length js \<Longrightarrow> j_retry_count (js ! i) \<le> j_retry_count j \<Longrightarrow> retries js \<le> retries (js[i := j])"
proof (induction js arbitrary: i)
  case (Cons k js)
  then show ?case by (cases i) (auto simp: retries_def word_le_nat_alt)
qed simp

text \<open>A finished job stays finished, and a job's retries only grow.\<close>

lemma job_step_totals:
  assumes "job_step j j'"
  shows "j_state j \<noteq> JOB_DONE" "j_state j \<noteq> JOB_FAILED" "j_retry_count j \<le> j_retry_count j'"
proof -
  show "j_state j \<noteq> JOB_DONE" "j_state j \<noteq> JOB_FAILED"
    using job_step_transition [OF assms] by (auto simp: can_transition_iff)
  show "j_retry_count j \<le> j_retry_count j'"
    using assms
  proof cases
    case (fail w a f now)
    then have "j' = failed_job j f now" by (simp add: outcome_simps)
    then show ?thesis
      using inc_below [of "j_retry_count j" "j_max_retries j"] unat_inc_below [of "j_retry_count j" "j_max_retries j"]
      by (auto simp: failed_job_def word_le_nat_alt)
  qed (auto simp: outcome_simps)
qed

lemma sched_step_totals:
  assumes "sched_wf s" "sched_step s s'"
  shows "totals_grow (s_jobs s) (s_jobs s')"
  using assms(2)
proof cases
  case (sched_issues i)
  then show ?thesis using sched_issue_job [OF assms(1)] totals_grow_append by metis
next
  case sched_keeps
  obtain i c where i: "i < length (s_jobs s)" "job_step (s_jobs s ! i) c" "s_jobs s' = (s_jobs s)[i := c]"
    using sched_keep_job [OF assms(1) sched_keeps] by blast
  show ?thesis unfolding totals_grow_def i(3) using i(1) job_step_totals [OF i(2)]
    by (auto intro!: in_state_update retries_update)
qed

section \<open>Along a run of the store\<close>

lemma job_time_bound: "job_time store raw = Inr t \<Longrightarrow> t \<le> INT64_MAX"
  by (auto simp: job_time_def Let_def split: if_splits)

lemma job_time_failed: "job_time store raw = Inl store' \<Longrightarrow> st_jobs store' = st_jobs store \<and> st_opened store' = st_opened store"
  by (auto simp: job_time_def Let_def split: if_splits)

lemma commit_job_publishes:
  assumes "commit_job io store i type w = Some (out, store', w')"
  shows "st_opened store' = st_opened store" "st_jobs store' = st_jobs store \<or> st_jobs store' = st_scratch store"
  using assms commit_job_keeps [OF assms]
  by (auto simp: commit_job_def store_append_def bind_eq_Some_conv Let_def split: option.splits if_splits sum.splits)

text \<open>Every operation of the store leaves the jobs alone or makes one step of the scheduler.\<close>

definition jobs_step :: "faultline_coordinator_store \<Rightarrow> faultline_coordinator_store \<Rightarrow> bool" where
  "jobs_step store store' \<longleftrightarrow> st_opened store' = st_opened store \<and>
     (st_jobs store' = st_jobs store \<or> sched_step (st_jobs store) (st_jobs store'))"

lemma jobs_step_same: "st_jobs store' = st_jobs store \<Longrightarrow> st_opened store' = st_opened store \<Longrightarrow> jobs_step store store'"
  by (simp add: jobs_step_def)

lemma jobs_step_commit:
  assumes "commit_job io (store\<lparr> st_scratch := s \<rparr>) i type w = Some (out, store', w')" "sched_step (st_jobs store) s"
  shows "jobs_step store store'"
  using commit_job_publishes [OF assms(1)] assms(2) by (auto simp: jobs_step_def)

lemma submit_jobs:
  assumes "faultline_store_submit io store submit now w = Some (out, store', w')"
  shows "jobs_step store store'"
proof (cases "usable store")
  case True
  show ?thesis
  proof (cases "job_time store now")
    case (Inl store1)
    then show ?thesis using assms True job_time_failed [OF Inl] by (auto simp: faultline_store_submit_def intro: jobs_step_same)
  next
    case (Inr time)
    show ?thesis
    proof (cases "faultline_scheduler_submit (st_jobs store) submit time")
      case (Inl e)
      then show ?thesis using assms True Inr by (auto simp: faultline_store_submit_def Let_def intro!: jobs_step_same split: if_splits)
    next
      case found: (Inr p)
      obtain i s where p: "p = (i, s)" by fastforce
      then have "sched_step (st_jobs store) s"
        using found job_time_bound [OF Inr] by (auto intro: sched_step.sched_issues sched_issue.submitted)
      moreover obtain r store1 w1 where commit: "commit_job io (store\<lparr> st_scratch := s \<rparr>) i WAL_JOB_CREATED w = Some (r, store1, w1)"
        using assms True Inr found p by (auto simp: faultline_store_submit_def Let_def bind_eq_Some_conv)
      moreover have "store' = store1" using assms True Inr found p commit by (cases r) (auto simp: faultline_store_submit_def Let_def)
      ultimately show ?thesis using jobs_step_commit [OF commit] by simp
    qed
  qed
qed (use assms in \<open>auto simp: faultline_store_submit_def intro: jobs_step_same\<close>)

lemma assign_jobs:
  assumes "faultline_store_assign io store worker now w = Some (out, store', w')"
  shows "jobs_step store store'"
proof (cases "usable store \<and> (case faultline_worker_find (st_workers store) worker of
    None \<Rightarrow> False | Some v \<Rightarrow> w_state v = WORKER_ALIVE)")
  case True
  show ?thesis
  proof (cases "job_time store now")
    case (Inl store1)
    then show ?thesis using assms True job_time_failed [OF Inl] by (auto simp: faultline_store_assign_def intro: jobs_step_same)
  next
    case (Inr time)
    show ?thesis
    proof (cases "faultline_scheduler_assign (st_jobs store) worker time")
      case (Inl e)
      then show ?thesis using assms True Inr by (auto simp: faultline_store_assign_def Let_def intro!: jobs_step_same split: if_splits)
    next
      case found: (Inr p)
      obtain m s where p: "p = (m, s)" by fastforce
      then have "sched_step (st_jobs store) s"
        using found job_time_bound [OF Inr] by (auto intro: sched_step.sched_keeps sched_keep.assigned)
      moreover obtain r store1 w1 where commit: "commit_job io (store\<lparr> st_scratch := s \<rparr>) (assigned_job_id m) WAL_JOB_ASSIGNED w = Some (r, store1, w1)"
        using assms True Inr found p by (auto simp: faultline_store_assign_def Let_def bind_eq_Some_conv)
      moreover have "store' = store1" using assms True Inr found p commit by (cases r) (auto simp: faultline_store_assign_def Let_def)
      ultimately show ?thesis using jobs_step_commit [OF commit] by simp
    qed
  qed
qed (use assms in \<open>cases "usable store"; auto simp: faultline_store_assign_def intro: jobs_step_same\<close>)

lemma report_jobs:
  assumes "faultline_store_report io store worker r now w = Some (out, store', w')"
  shows "jobs_step store store'"
proof (cases "usable store \<and> (\<exists>v j. faultline_worker_find (st_workers store) worker = Some v \<and> w_state v = WORKER_ALIVE \<and>
    faultline_scheduler_active (st_jobs store) worker = Some j)")
  case True
  then obtain v j where found: "faultline_worker_find (st_workers store) worker = Some v" "w_state v = WORKER_ALIVE"
    "faultline_scheduler_active (st_jobs store) worker = Some j" by blast
  show ?thesis
  proof (cases "job_time store now")
    case (Inl store1)
    then show ?thesis using assms True found job_time_failed [OF Inl] by (auto simp: faultline_store_report_def intro: jobs_step_same)
  next
    case (Inr time)
    show ?thesis
    proof (cases "faultline_scheduler_report (st_jobs store) worker r time")
      case (Inl e)
      then show ?thesis using assms True found Inr by (auto simp: faultline_store_report_def Let_def intro!: jobs_step_same split: if_splits)
    next
      case reported: (Inr s)
      then have "sched_step (st_jobs store) s"
        using job_time_bound [OF Inr] by (auto intro: sched_step.sched_keeps sched_keep.reported)
      then show ?thesis using assms True found Inr reported
        by (auto simp: faultline_store_report_def Let_def intro: jobs_step_commit)
    qed
  qed
qed (use assms in \<open>auto simp: faultline_store_report_def intro: jobs_step_same split: option.splits if_splits\<close>)

lemma worker_lost_jobs:
  assumes "faultline_store_worker_lost io store worker now w = Some (out, store', w')"
  shows "jobs_step store store'"
proof (cases "usable store \<and> faultline_scheduler_active (st_jobs store) worker \<noteq> None")
  case True
  then obtain j where found: "faultline_scheduler_active (st_jobs store) worker = Some j" by blast
  show ?thesis
  proof (cases "job_time store now")
    case (Inl store1)
    then show ?thesis using assms True found job_time_failed [OF Inl]
      by (auto simp: faultline_store_worker_lost_def commit_worker_loss_def intro: jobs_step_same)
  next
    case (Inr time)
    show ?thesis
    proof (cases "faultline_scheduler_worker_lost (st_jobs store) worker time")
      case (Inl e)
      then show ?thesis using assms True found Inr
        by (auto simp: faultline_store_worker_lost_def commit_worker_loss_def Let_def intro!: jobs_step_same)
    next
      case lost: (Inr s)
      then have "sched_step (st_jobs store) s"
        using job_time_bound [OF Inr] by (auto intro: sched_step.sched_keeps sched_keep.lost)
      then show ?thesis using assms True found Inr lost
        by (auto simp: faultline_store_worker_lost_def commit_worker_loss_def Let_def intro: jobs_step_commit)
    qed
  qed
qed (use assms in \<open>auto simp: faultline_store_worker_lost_def commit_worker_loss_def intro: jobs_step_same split: if_splits\<close>)

lemma register_jobs:
  assumes "faultline_store_register io store conn now w = Some (out, store', w')"
  shows "jobs_step store store'"
  using assms
  by (auto simp: faultline_store_register_def store_append_def bind_eq_Some_conv Let_def intro!: jobs_step_same
      split: if_splits sum.splits)

lemma store_step_jobs: "store_step io (store, w) (store', w') \<Longrightarrow> jobs_step store store'"
  by (erule store_step.cases)
    (auto dest: register_jobs submit_jobs assign_jobs report_jobs worker_lost_jobs intro: jobs_step_same)

lemma store_inv_wf: "store_inv fd file durable store w \<Longrightarrow> sched_wf (st_jobs store) \<and> registry_wf (st_workers store)"
  using store_log_wf by (fastforce simp: store_inv_def store_state_def store_log_def)

lemma run_totals:
  assumes "appending_file io fd file durable" "store_inv fd file durable store0 w0"
    and "(store_step io)\<^sup>*\<^sup>* (store0, w0) (store, w)"
  shows "store_inv fd file durable store w \<and> st_opened store = st_opened store0 \<and>
    totals_grow (s_jobs (st_jobs store0)) (s_jobs (st_jobs store))"
  using assms(3)
proof (induction rule: rtranclp_induct2)
  case refl
  then show ?case using assms(2) by simp
next
  case (step store w store' w')
  have wf: "sched_wf (st_jobs store)" using store_inv_wf [OF conjunct1 [OF step.IH]] by simp
  have "jobs_step store store'" using step.hyps(2) by (rule store_step_jobs)
  then have "totals_grow (s_jobs (st_jobs store)) (s_jobs (st_jobs store'))" "st_opened store' = st_opened store"
    using sched_step_totals [OF wf] by (auto simp: jobs_step_def)
  then show ?case using step.IH store_step_inv [OF assms(1) _ step.hyps(2)] totals_grow_trans by auto
qed

section \<open>Snapshots\<close>

text \<open>The complete snapshot, field by field.\<close>

definition snapshot_of ::
  "faultline_stats_session \<Rightarrow> faultline_coordinator_store \<Rightarrow> int \<Rightarrow> int \<Rightarrow> faultline_stats_payload" where
  "snapshot_of session store now timeout =
     (let jobs = st_jobs store; js = s_jobs jobs; ws = r_workers (st_workers store) in
      (job_stats js)\<lparr>
        stat_session_uptime_ms := of_int (now - ss_ready_at_ms session),
        stat_session_jobs_submitted := of_nat (length js) - ss_submitted_at_start session,
        stat_session_jobs_completed := of_nat (in_state JOB_DONE js) - ss_completed_at_start session,
        stat_session_jobs_failed := of_nat (in_state JOB_FAILED js) - ss_failed_at_start session,
        stat_session_job_retries := of_nat (retries js) - ss_retries_at_start session,
        stat_startup_jobs_recovered := ss_submitted_at_start session,
        stat_startup_interrupted_jobs := ss_startup_interrupted_jobs session,
        stat_startup_duration_ms := ss_startup_duration_ms session,
        stat_heartbeat_timeout_ms := of_int timeout,
        stat_workers_retained := of_nat (used_workers ws),
        stat_workers_alive := of_nat (busy_workers jobs now timeout ws + idle_workers jobs now timeout ws),
        stat_workers_expired := of_nat (expired_workers now timeout ws), stat_workers_dead := of_nat (dead_workers ws),
        stat_workers_busy := of_nat (busy_workers jobs now timeout ws),
        stat_workers_idle := of_nat (idle_workers jobs now timeout ws) \<rparr>)"

text \<open>A baseline the store's totals have not fallen below.\<close>

definition session_of :: "faultline_job list \<Rightarrow> faultline_stats_session \<Rightarrow> bool" where
  "session_of js session \<longleftrightarrow>
     0 \<le> ss_ready_at_ms session \<and> ss_startup_duration_ms session \<le> 0x7fffffffffffffff \<and>
     ss_startup_interrupted_jobs session \<le> ss_submitted_at_start session \<and>
     (\<exists>js0. totals_grow js0 js \<and> ss_submitted_at_start session = of_nat (length js0) \<and>
        ss_completed_at_start session = of_nat (in_state JOB_DONE js0) \<and>
        ss_failed_at_start session = of_nat (in_state JOB_FAILED js0) \<and> ss_retries_at_start session = of_nat (retries js0))"

lemma of_nat_less_iff_u64: "a < 2 ^ 64 \<Longrightarrow> b < 2 ^ 64 \<Longrightarrow> (of_nat a :: u64) < of_nat b \<longleftrightarrow> a < b"
  by (simp add: word_less_nat_alt unat_of_nat_small)

lemma sched_wf_small:
  assumes "sched_wf s"
  shows "length (s_jobs s) \<le> 256" "retries (s_jobs s) \<le> 256 * 0xffffffff" "\<forall>j \<in> set (s_jobs s). job_wf j"
proof -
  show len: "length (s_jobs s) \<le> 256" using assms by (simp add: sched_wf_def FAULTLINE_JOB_STORE_CAPACITY_def)
  show "retries (s_jobs s) \<le> 256 * 0xffffffff"
    using order.trans [OF retries_bound mult_le_mono1 [OF len]] .
  show "\<forall>j \<in> set (s_jobs s). job_wf j" using assms by (simp add: sched_wf_def)
qed

lemma snapshot_exact:
  assumes "st_opened store" "st_failure store = STORE_FAILURE_NONE" "sched_wf (st_jobs store)"
    and "session_of (s_jobs (st_jobs store)) session" "ss_ready_at_ms session \<le> now" "0 < timeout"
    and "clock_ahead now (r_workers (st_workers store))"
  shows "faultline_stats_snapshot session store now timeout = Some (snapshot_of session store now timeout)"
proof -
  let ?js = "s_jobs (st_jobs store)"
  obtain js0 where js0: "totals_grow js0 ?js" "ss_submitted_at_start session = of_nat (length js0)"
    "ss_completed_at_start session = of_nat (in_state JOB_DONE js0)"
    "ss_failed_at_start session = of_nat (in_state JOB_FAILED js0)" "ss_retries_at_start session = of_nat (retries js0)"
    using assms(4) by (auto simp: session_of_def)
  have small: "length ?js < 2 ^ 64" "retries ?js < 2 ^ 64" using sched_wf_small [OF assms(3)] by simp_all
  then have "in_state JOB_DONE ?js < 2 ^ 64" "in_state JOB_FAILED ?js < 2 ^ 64"
    using in_state_sum [of ?js] by linarith+
  with small js0 have "\<not> (stat_jobs_submitted_total (job_stats ?js) < ss_submitted_at_start session \<or>
      stat_jobs_completed_total (job_stats ?js) < ss_completed_at_start session \<or>
      stat_jobs_failed_total (job_stats ?js) < ss_failed_at_start session \<or>
      stat_job_retries_total (job_stats ?js) < ss_retries_at_start session)"
    by (auto simp: job_stats_def totals_grow_def of_nat_less_iff_u64)
  then show ?thesis
    using assms collect_jobs_exact [OF assms(1-3)]
    by (simp add: faultline_stats_snapshot_def session_of_def count_workers_exact snapshot_of_def Let_def)
      (simp add: job_stats_def no_stats_def)
qed

lemma used_workers_bound: "registry_wf r \<Longrightarrow> used_workers (r_workers r) \<le> 64"
  using length_filter_le [of worker_used "r_workers r"] by (simp add: used_workers_def FAULTLINE_MAX_WORKERS_def)

lemma word_diff_le: "b \<le> a \<Longrightarrow> a < 2 ^ 64 \<Longrightarrow> (of_nat a - of_nat b :: u64) \<le> of_nat a"
proof -
  assume "b \<le> a" "a < 2 ^ 64"
  then have "(of_nat a - of_nat b :: u64) = of_nat (a - b)" by simp
  then show ?thesis using \<open>b \<le> a\<close> \<open>a < 2 ^ 64\<close> by (simp only:) (simp add: word_le_nat_alt unat_of_nat_small del: of_nat_diff)
qed

text \<open>The values of the fields: none of them wraps.\<close>

lemma snapshot_job_fields:
  fixes session store now timeout
  defines "js \<equiv> s_jobs (st_jobs store)" and "s \<equiv> snapshot_of session store now timeout"
  assumes "sched_wf (st_jobs store)"
  shows "unat (stat_jobs_submitted_total s) = length js" "unat (stat_jobs_queued s) = in_state JOB_QUEUED js"
    "unat (stat_jobs_assigned s) = in_state JOB_ASSIGNED js" "unat (stat_jobs_running s) = in_state JOB_RUNNING js"
    "unat (stat_jobs_completed_total s) = in_state JOB_DONE js" "unat (stat_jobs_failed_total s) = in_state JOB_FAILED js"
    "unat (stat_job_retries_total s) = retries js" "unat (stat_job_attempts_total s) = attempts js"
    "unat (stat_completed_latency_avg_ms s) = mean_latency js"
proof -
  note wf = sched_wf_small [OF assms(3), folded js_def]
  have "attempts js < 2 ^ 64" using attempts_retries [OF wf(3)] wf(1,2) by simp
  moreover have "mean_latency js < 2 ^ 64" using mean_latency_bound(1) [OF wf(3)] by simp
  ultimately show "unat (stat_jobs_submitted_total s) = length js" "unat (stat_jobs_queued s) = in_state JOB_QUEUED js"
    "unat (stat_jobs_assigned s) = in_state JOB_ASSIGNED js" "unat (stat_jobs_running s) = in_state JOB_RUNNING js"
    "unat (stat_jobs_completed_total s) = in_state JOB_DONE js" "unat (stat_jobs_failed_total s) = in_state JOB_FAILED js"
    "unat (stat_job_retries_total s) = retries js" "unat (stat_job_attempts_total s) = attempts js"
    "unat (stat_completed_latency_avg_ms s) = mean_latency js"
    using wf in_state_sum [of js] by (auto simp: s_def js_def snapshot_of_def Let_def job_stats_def unat_of_nat_small)
qed

lemma snapshot_worker_fields:
  fixes session store now timeout
  defines "ws \<equiv> r_workers (st_workers store)" and "s \<equiv> snapshot_of session store now timeout"
  assumes "registry_wf (st_workers store)"
  shows "unat (stat_workers_retained s) = used_workers ws" "unat (stat_workers_expired s) = expired_workers now timeout ws"
    "unat (stat_workers_alive s) = busy_workers (st_jobs store) now timeout ws + idle_workers (st_jobs store) now timeout ws"
    "unat (stat_workers_dead s) = dead_workers ws" "unat (stat_workers_busy s) = busy_workers (st_jobs store) now timeout ws"
    "unat (stat_workers_idle s) = idle_workers (st_jobs store) now timeout ws"
  using worker_counts_sum [of ws now timeout "st_jobs store"] used_workers_bound [OF assms(3)]
  by (auto simp: s_def ws_def snapshot_of_def Let_def unat_of_nat_small simp del: of_nat_add)

text \<open>The first group of the protocol's checks: each part is within its total.\<close>

lemma snapshot_limits:
  fixes session store now timeout
  defines "s \<equiv> snapshot_of session store now timeout"
  assumes "sched_wf (st_jobs store)" "registry_wf (st_workers store)"
  shows "\<not> (stat_jobs_submitted_total s > word_of_nat FAULTLINE_JOBS_MAX_ENTRIES \<or>
         stat_jobs_queued s > stat_jobs_submitted_total s \<or> stat_jobs_assigned s > stat_jobs_submitted_total s \<or>
         stat_jobs_running s > stat_jobs_submitted_total s \<or> stat_jobs_completed_total s > stat_jobs_submitted_total s \<or>
         stat_jobs_failed_total s > stat_jobs_submitted_total s \<or>
         stat_job_retries_total s > stat_jobs_submitted_total s * 0xffffffff \<or>
         stat_workers_retained s > word_of_nat FAULTLINE_WORKERS_MAX_ENTRIES \<or>
         stat_workers_alive s > stat_workers_retained s \<or> stat_workers_expired s > stat_workers_retained s \<or>
         stat_workers_dead s > stat_workers_retained s \<or>
         stat_workers_busy s > stat_workers_alive s \<or> stat_workers_idle s > stat_workers_alive s)"
proof -
  let ?js = "s_jobs (st_jobs store)"
  note wf = sched_wf_small [OF assms(2)]
  note jobs = snapshot_job_fields [OF assms(2), of session now timeout, folded s_def]
  note workers = snapshot_worker_fields [OF assms(3), of session now timeout, folded s_def]
  have "retries ?js \<le> length ?js * 0xffffffff" by (rule retries_bound)
  moreover have "unat (stat_jobs_submitted_total s * 0xffffffff) = length ?js * 0xffffffff"
    using jobs(1) wf(1) by (simp add: unat_word_ariths)
  ultimately show ?thesis
    using in_state_sum [of ?js] worker_counts_sum [of "r_workers (st_workers store)" now timeout "st_jobs store"] wf(1)
      used_workers_bound [OF assms(3)] unfolding word_less_nat_alt jobs workers
    by (simp add: FAULTLINE_JOBS_MAX_ENTRIES_def FAULTLINE_WORKERS_MAX_ENTRIES_def; linarith)
qed

lemma unat_add_u64: "unat (a :: u64) + unat b < 2 ^ 64 \<Longrightarrow> unat (a + b) = unat a + unat b"
  by (simp add: unat_word_ariths)

text \<open>The second group: the parts add up.\<close>

lemma snapshot_sums:
  fixes session store now timeout
  defines "s \<equiv> snapshot_of session store now timeout"
  assumes "sched_wf (st_jobs store)" "registry_wf (st_workers store)"
  shows "stat_jobs_queued s + stat_jobs_assigned s + stat_jobs_running s + stat_jobs_completed_total s + stat_jobs_failed_total s =
      stat_jobs_submitted_total s"
    "stat_job_attempts_total s = stat_job_retries_total s + stat_jobs_submitted_total s - stat_jobs_queued s"
    "stat_workers_alive s + stat_workers_expired s + stat_workers_dead s = stat_workers_retained s"
    "stat_workers_busy s + stat_workers_idle s = stat_workers_alive s"
    "stat_workers_busy s \<le> stat_jobs_assigned s + stat_jobs_running s"
proof -
  let ?js = "s_jobs (st_jobs store)" and ?ws = "r_workers (st_workers store)"
  note wf = sched_wf_small [OF assms(2)]
  note jobs = snapshot_job_fields [OF assms(2), of session now timeout, folded s_def]
  note workers = snapshot_worker_fields [OF assms(3), of session now timeout, folded s_def]
  note sum = in_state_sum [of ?js] and wsum = worker_counts_sum [of ?ws now timeout "st_jobs store"]
  have "unat (stat_jobs_queued s + stat_jobs_assigned s + stat_jobs_running s + stat_jobs_completed_total s + stat_jobs_failed_total s) = length ?js"
    using sum wf(1) by (simp add: unat_add_u64 jobs)
  then show "stat_jobs_queued s + stat_jobs_assigned s + stat_jobs_running s + stat_jobs_completed_total s + stat_jobs_failed_total s =
      stat_jobs_submitted_total s" using jobs(1) by (simp add: word_unat_eq_iff)
  have "unat (stat_job_attempts_total s + stat_jobs_queued s) = unat (stat_job_retries_total s + stat_jobs_submitted_total s)"
    using attempts_retries [OF wf(3)] wf by (simp add: unat_add_u64 jobs)
  then show "stat_job_attempts_total s = stat_job_retries_total s + stat_jobs_submitted_total s - stat_jobs_queued s"
    by (metis word_unat_eq_iff add_diff_cancel_right')
  have "unat (stat_workers_alive s + stat_workers_expired s + stat_workers_dead s) = used_workers ?ws"
    "unat (stat_workers_busy s + stat_workers_idle s) = unat (stat_workers_alive s)"
    using wsum used_workers_bound [OF assms(3)] by (simp_all add: unat_add_u64 workers)
  then show "stat_workers_alive s + stat_workers_expired s + stat_workers_dead s = stat_workers_retained s"
    "stat_workers_busy s + stat_workers_idle s = stat_workers_alive s"
    using workers(1) by (simp_all add: word_unat_eq_iff)
  show "stat_workers_busy s \<le> stat_jobs_assigned s + stat_jobs_running s"
    using busy_bound [OF assms(2,3), of now timeout] sum wf(1) by (simp add: word_le_nat_alt unat_add_u64 jobs workers)
qed

text \<open>The session's part: differences from a baseline that lies below.\<close>

lemma snapshot_session:
  fixes session store now timeout
  defines "s \<equiv> snapshot_of session store now timeout"
  assumes "sched_wf (st_jobs store)" "session_of (s_jobs (st_jobs store)) session"
  shows "stat_startup_jobs_recovered s \<le> stat_jobs_submitted_total s" "stat_startup_interrupted_jobs s \<le> stat_startup_jobs_recovered s"
    "stat_session_jobs_submitted s = stat_jobs_submitted_total s - stat_startup_jobs_recovered s"
    "stat_session_jobs_completed s \<le> stat_jobs_completed_total s" "stat_session_jobs_failed s \<le> stat_jobs_failed_total s"
    "stat_session_job_retries s \<le> stat_job_retries_total s" "stat_startup_duration_ms s \<le> 0x7fffffffffffffff"
proof -
  let ?js = "s_jobs (st_jobs store)"
  obtain js0 where js0: "totals_grow js0 ?js" "ss_submitted_at_start session = of_nat (length js0)"
    "ss_completed_at_start session = of_nat (in_state JOB_DONE js0)"
    "ss_failed_at_start session = of_nat (in_state JOB_FAILED js0)" "ss_retries_at_start session = of_nat (retries js0)"
    and session: "ss_startup_duration_ms session \<le> 0x7fffffffffffffff" "ss_startup_interrupted_jobs session \<le> ss_submitted_at_start session"
    using assms(3) by (auto simp: session_of_def)
  note wf = sched_wf_small [OF assms(2)]
  have small: "in_state JOB_DONE ?js < 2 ^ 64" "in_state JOB_FAILED ?js < 2 ^ 64" "retries ?js < 2 ^ 64"
    using in_state_sum [of ?js] wf by auto
  show "stat_session_jobs_completed s \<le> stat_jobs_completed_total s" "stat_session_jobs_failed s \<le> stat_jobs_failed_total s"
    "stat_session_job_retries s \<le> stat_job_retries_total s"
    using js0 small by (auto simp: s_def snapshot_of_def Let_def job_stats_def totals_grow_def intro!: word_diff_le)
  show "stat_startup_jobs_recovered s \<le> stat_jobs_submitted_total s" "stat_startup_interrupted_jobs s \<le> stat_startup_jobs_recovered s"
    "stat_session_jobs_submitted s = stat_jobs_submitted_total s - stat_startup_jobs_recovered s"
    "stat_startup_duration_ms s \<le> 0x7fffffffffffffff"
    using js0 session wf by (auto simp: s_def snapshot_of_def Let_def job_stats_def totals_grow_def word_le_nat_alt unat_of_nat_small)
qed

lemma snapshot_times:
  fixes session store now timeout
  defines "s \<equiv> snapshot_of session store now timeout"
  assumes "sched_wf (st_jobs store)" "0 \<le> ss_ready_at_ms session" "ss_ready_at_ms session \<le> now" "now \<le> INT64_MAX"
    and "0 < timeout" "timeout \<le> INT_MAX"
  shows "stat_completed_latency_avg_ms s \<le> 0x7fffffffffffffff" "stat_session_uptime_ms s \<le> 0x7fffffffffffffff"
    "stat_heartbeat_timeout_ms s \<noteq> 0" "stat_heartbeat_timeout_ms s \<le> 0x7fffffff"
    "stat_jobs_completed_total s = 0 \<Longrightarrow> stat_completed_latency_avg_ms s = 0"
proof -
  note jobs = snapshot_job_fields [OF assms(2), of session now timeout, folded s_def]
  note mean = mean_latency_bound [OF sched_wf_small(3) [OF assms(2)]]
  have "unat (stat_session_uptime_ms s) = nat (now - ss_ready_at_ms session)"
    using unat_of_int_small [of "now - ss_ready_at_ms session"] assms(3-5) by (simp add: s_def snapshot_of_def Let_def del: of_int_diff)
  moreover have "unat (stat_heartbeat_timeout_ms s) = nat timeout"
    using unat_of_int_small [of timeout] assms(6,7) by (simp add: s_def snapshot_of_def Let_def)
  ultimately show "stat_completed_latency_avg_ms s \<le> 0x7fffffffffffffff" "stat_session_uptime_ms s \<le> 0x7fffffffffffffff"
    "stat_heartbeat_timeout_ms s \<noteq> 0" "stat_heartbeat_timeout_ms s \<le> 0x7fffffff"
    using mean(1) jobs(9) assms(3-7) by (auto simp: word_le_nat_alt word_unat_eq_iff)
  show "stat_jobs_completed_total s = 0 \<Longrightarrow> stat_completed_latency_avg_ms s = 0"
    using jobs(5,9) mean(2) by (metis unat_0 unat_eq_zero)
qed

lemma snapshot_valid:
  assumes "sched_wf (st_jobs store)" "registry_wf (st_workers store)"
    and "session_of (s_jobs (st_jobs store)) session" "ss_ready_at_ms session \<le> now" "now \<le> INT64_MAX" "0 < timeout" "timeout \<le> INT_MAX"
  shows "validate_stats (snapshot_of session store now timeout) = None"
proof -
  have "0 \<le> ss_ready_at_ms session" using assms(3) by (simp add: session_of_def)
  note times = snapshot_times [OF assms(1) this assms(4-7)]
  show ?thesis
    unfolding validate_stats_def if_not_P [OF snapshot_limits [OF assms(1,2)]]
    using snapshot_sums [OF assms(1,2), of session now timeout] snapshot_session [OF assms(1,3), of now timeout] times
    by (simp add: not_less)
qed

lemma begin_session:
  assumes "faultline_stats_begin store now = Some session" "sched_wf (st_jobs store)" "now \<le> INT64_MAX"
  shows "session_of (s_jobs (st_jobs store)) session" "ss_ready_at_ms session = now" "st_opened store"
proof -
  let ?js = "s_jobs (st_jobs store)"
  obtain baseline where b: "collect_jobs store = Some baseline" "0 \<le> st_session_start_ms store" "st_session_start_ms store \<le> now"
      "st_interrupted_jobs store \<le> length ?js"
      "session = \<lparr> ss_ready_at_ms = now, ss_startup_duration_ms = of_int (now - st_session_start_ms store),
         ss_startup_interrupted_jobs = of_nat (st_interrupted_jobs store), ss_submitted_at_start = stat_jobs_submitted_total baseline,
         ss_completed_at_start = stat_jobs_completed_total baseline, ss_failed_at_start = stat_jobs_failed_total baseline,
         ss_retries_at_start = stat_job_retries_total baseline \<rparr>"
    using assms(1) by (auto simp: faultline_stats_begin_def split: option.splits if_splits)
  then have live: "st_opened store" "st_failure store = STORE_FAILURE_NONE" by (auto simp: collect_jobs_def Let_def split: if_splits)
  then have "baseline = job_stats ?js" using b(1) collect_jobs_exact [OF _ _ assms(2)] by simp
  moreover have "of_int (now - st_session_start_ms store) \<le> (0x7fffffffffffffff :: u64)"
    using unat_of_int_small [of "now - st_session_start_ms store"] b(2,3) assms(3) by (simp add: word_le_nat_alt del: of_int_diff)
  moreover have "of_nat (st_interrupted_jobs store) \<le> (of_nat (length ?js) :: u64)"
    using b(4) sched_wf_small(1) [OF assms(2)] by (simp add: word_le_nat_alt unat_of_nat_small)
  ultimately show "session_of ?js session" using b by (auto simp: session_of_def job_stats_def intro: exI [of _ ?js])
  show "ss_ready_at_ms session = now" using b by simp
  show "st_opened store" by (rule live)
qed

lemma session_of_grow: "session_of js session \<Longrightarrow> totals_grow js js' \<Longrightarrow> session_of js' session"
  unfolding session_of_def using totals_grow_trans by blast

section \<open>Properties\<close>

text \<open>Claim C38. Statistics are always available and well-formed. Take a session that began on a
  consistent store and any run of the store from there. As long as the store has not failed and the
  clock is behind neither the session nor a live worker's heartbeat, the snapshot exists, it passes
  the validation the protocol applies to it, no counter has wrapped, and the reported latency is the
  exact floored mean over the completed jobs.\<close>

theorem snapshot_well_formed:
  assumes "appending_file io fd file durable" "store_inv fd file durable store0 w0"
    and "faultline_stats_begin store0 start = Some session" "(store_step io)\<^sup>*\<^sup>* (store0, w0) (store, w)"
    and "st_failure store = STORE_FAILURE_NONE" "start \<le> now" "now \<le> INT64_MAX" "0 < timeout" "timeout \<le> INT_MAX"
    and "clock_ahead now (r_workers (st_workers store))"
  shows "\<exists>stats. faultline_stats_snapshot session store now timeout = Some stats \<and> validate_stats stats = None \<and>
    unat (stat_jobs_submitted_total stats) = length (s_jobs (st_jobs store)) \<and>
    unat (stat_job_attempts_total stats) = attempts (s_jobs (st_jobs store)) \<and>
    unat (stat_completed_latency_avg_ms stats) = mean_latency (s_jobs (st_jobs store))"
proof -
  note wf0 = store_inv_wf [OF assms(2)]
  note run = run_totals [OF assms(1,2,4)]
  note wf = store_inv_wf [OF conjunct1 [OF run]]
  have start: "start \<le> INT64_MAX" using assms(6,7) by simp
  note begin' = begin_session [OF assms(3) conjunct1 [OF wf0] start]
  have session: "session_of (s_jobs (st_jobs store)) session" "ss_ready_at_ms session \<le> now" "st_opened store"
    using session_of_grow [OF begin'(1)] run begin'(2,3) assms(6) by auto
  note small = sched_wf_small [OF conjunct1 [OF wf]]
  have "attempts (s_jobs (st_jobs store)) < 2 ^ 64" using attempts_retries [OF small(3)] small by simp
  moreover have "mean_latency (s_jobs (st_jobs store)) < 2 ^ 64" using mean_latency_bound(1) [OF small(3)] by simp
  ultimately show ?thesis
    using snapshot_exact [OF session(3) assms(5) conjunct1 [OF wf] session(1,2) assms(8,10)]
      snapshot_valid [OF conjunct1 [OF wf] conjunct2 [OF wf] session(1,2) assms(7,8,9)] small
    by (simp add: snapshot_of_def Let_def job_stats_def unat_of_nat_small)
qed

theorem snapshot_well_formed_witness:
  "\<exists>session stats. faultline_stats_begin opened_store 5 = Some session \<and>
    faultline_stats_snapshot session opened_store 7 6000 = Some stats \<and> validate_stats stats = None"
proof -
  have inv: "store_inv 5 md_file md_durable opened_store opened_device"
    by (rule store_reachable_inv [OF memory_contracts(1-3) memory_path memory_reachable])
  have "\<exists>session. faultline_stats_begin opened_store 5 = Some session"
    by (simp add: faultline_stats_begin_def collect_jobs_def opened_store_def faultline_store_init_def faultline_scheduler_init_def)
  then obtain session where session: "faultline_stats_begin opened_store 5 = Some session" ..
  have ahead: "clock_ahead 7 (r_workers (st_workers opened_store))"
    by (simp add: clock_ahead_def opened_store_def faultline_store_init_def faultline_worker_registry_init_def unused_worker_def)
  have "st_failure opened_store = STORE_FAILURE_NONE" by (simp add: opened_store_def faultline_store_init_def)
  from snapshot_well_formed [OF memory_appending inv session rtranclp.rtrancl_refl this _ _ _ _ ahead, of 6000] session
  show ?thesis by auto
qed

end
