(* ===== verification/Net.thy ===== *)
theory Net
  imports Prelude "HOL-Library.Monad_Syntax"
begin

text \<open>
  The networking helpers (\<^verbatim>\<open>include/net.h\<close>, \<^verbatim>\<open>src/common/net.c\<close>): the parsers of ports, durations and
  endpoints, and the socket calls with one deadline per transfer. The calls of the operating system
  are a record of functions over a world; a call returns an error number or a value, and the next
  world. \<open>None\<close> stands for a call that never returns. The lemmas show that the parsers accept exactly
  the decimal numbers in their range, that a transfer moves exactly the bytes asked for or a part of
  them, and that every transfer returns once its deadline has passed.
\<close>

unbundle bit_operations_syntax

section \<open>Decimal numbers\<close>

text \<open>
  The loop of every number parser of the program: reject a character that is no digit, else let the
  parser's own step take the digit, which refuses a value that gets too large.
\<close>

fun scan_digits :: "('v \<Rightarrow> nat \<Rightarrow> 'v option) \<Rightarrow> 'v \<Rightarrow> nat list \<Rightarrow> 'v option" where
  "scan_digits step v [] = Some v"
| "scan_digits step v (c # cs) =
     (if c < 48 \<or> c > 57 then None
      else (case step v (c - 48) of None \<Rightarrow> None | Some v' \<Rightarrow> scan_digits step v' cs))"

abbreviation codes :: "string \<Rightarrow> nat list" where
  "codes text \<equiv> map of_char text"

definition port_step :: "u32 \<Rightarrow> nat \<Rightarrow> u32 option" where
  "port_step v digit = (let v' = v * 10 + of_nat digit in if v' > 65535 then None else Some v')"

definition faultline_parse_port :: "string \<Rightarrow> errno + u16" where
  "faultline_parse_port text =
     (if text = [] then Inl EINVAL
      else
        (case scan_digits port_step 0 (codes text) of
           None \<Rightarrow> Inl EINVAL
         | Some v \<Rightarrow> if v = 0 then Inl EINVAL else Inr (ucast v)))"

definition duration_step :: "int \<Rightarrow> nat \<Rightarrow> int option" where
  "duration_step v digit = (if v > (INT_MAX - int digit) div 10 then None else Some (v * 10 + int digit))"

definition faultline_parse_duration_ms :: "string \<Rightarrow> errno + int" where
  "faultline_parse_duration_ms text =
     (if text = [] then Inl EINVAL
      else
        (case scan_digits duration_step 0 (codes text) of
           None \<Rightarrow> Inl EINVAL
         | Some v \<Rightarrow> if v = 0 then Inl EINVAL else Inr v))"

section \<open>The operating system\<close>

datatype poll_flag = POLLIN | POLLOUT | POLLERR | POLLHUP | POLLNVAL

type_synonym sockaddr_in = "bytes \<times> u16"

text \<open>
  \<open>net_poll\<close> takes the descriptors with the events asked for and returns the number of ready
  descriptors with the events found; \<open>net_clock\<close> reads the monotonic clock in seconds and
  nanoseconds; \<open>net_so_error\<close> is \<^verbatim>\<open>getsockopt(SO_ERROR)\<close>; \<open>net_stopping\<close> reads the flag the signal
  handlers set.
\<close>

record 'w net_io =
  net_clock :: "'w \<Rightarrow> (errno + int \<times> int) \<times> 'w"
  net_poll :: "(int \<times> poll_flag) list \<Rightarrow> int \<Rightarrow> 'w \<Rightarrow> (errno + nat \<times> poll_flag set list) \<times> 'w"
  net_send :: "int \<Rightarrow> bytes \<Rightarrow> 'w \<Rightarrow> (errno + nat) \<times> 'w"
  net_recv :: "int \<Rightarrow> nat \<Rightarrow> 'w \<Rightarrow> (errno + bytes) \<times> 'w"
  net_inet_pton :: "string \<Rightarrow> bytes option"
  net_getfl :: "int \<Rightarrow> 'w \<Rightarrow> (errno + int) \<times> 'w"
  net_setfl :: "int \<Rightarrow> int \<Rightarrow> 'w \<Rightarrow> (errno + unit) \<times> 'w"
  net_ignore_sigpipe :: "'w \<Rightarrow> (errno + unit) \<times> 'w"
  net_socket :: "'w \<Rightarrow> (errno + int) \<times> 'w"
  net_reuse_address :: "int \<Rightarrow> 'w \<Rightarrow> (errno + unit) \<times> 'w"
  net_bind :: "int \<Rightarrow> sockaddr_in \<Rightarrow> 'w \<Rightarrow> (errno + unit) \<times> 'w"
  net_listen :: "int \<Rightarrow> int \<Rightarrow> 'w \<Rightarrow> (errno + unit) \<times> 'w"
  net_connect :: "int \<Rightarrow> sockaddr_in \<Rightarrow> 'w \<Rightarrow> (errno + unit) \<times> 'w"
  net_so_error :: "int \<Rightarrow> 'w \<Rightarrow> (errno + errno) \<times> 'w"
  net_accept :: "int \<Rightarrow> 'w \<Rightarrow> (errno + int) \<times> 'w"
  net_close :: "int \<Rightarrow> 'w \<Rightarrow> 'w"
  net_stopping :: "'w \<Rightarrow> int \<times> 'w"

definition INET_ADDRSTRLEN :: nat where "INET_ADDRSTRLEN = 16"

definition FAULTLINE_IO_TIMEOUT_MS :: int where "FAULTLINE_IO_TIMEOUT_MS = 5000"
definition FAULTLINE_DEFAULT_HOST :: string where "FAULTLINE_DEFAULT_HOST = ''127.0.0.1''"
definition FAULTLINE_DEFAULT_PORT :: u16 where "FAULTLINE_DEFAULT_PORT = 9000"
definition FAULTLINE_DEFAULT_HEARTBEAT_INTERVAL_MS :: int where "FAULTLINE_DEFAULT_HEARTBEAT_INTERVAL_MS = 2000"
definition FAULTLINE_DEFAULT_HEARTBEAT_TIMEOUT_MS :: int where "FAULTLINE_DEFAULT_HEARTBEAT_TIMEOUT_MS = 6000"

definition faultline_parse_endpoint :: "'w net_io \<Rightarrow> string \<Rightarrow> nat \<Rightarrow> errno + string \<times> u16" where
  "faultline_parse_endpoint io text host_size =
     (if CHR '':'' \<notin> set text then Inl EINVAL
      else
        (let host = takeWhile (\<lambda>c. c \<noteq> CHR '':'') text;
             size = length host in
         if size = 0 \<or> size \<ge> INET_ADDRSTRLEN \<or> size \<ge> host_size then Inl EINVAL
         else
           (case faultline_parse_port (drop (size + 1) text) of
              Inl _ \<Rightarrow> Inl EINVAL
            | Inr port \<Rightarrow>
                (case net_inet_pton io host of
                   None \<Rightarrow> Inl EINVAL
                 | Some _ \<Rightarrow> Inr (host, port)))))"

definition O_NONBLOCK :: int where "O_NONBLOCK = 2048"

definition faultline_set_nonblocking :: "'w net_io \<Rightarrow> int \<Rightarrow> 'w \<Rightarrow> (errno + unit) \<times> 'w" where
  "faultline_set_nonblocking io fd w =
     (case net_getfl io fd w of
        (Inl e, w) \<Rightarrow> (Inl e, w)
      | (Inr flags, w) \<Rightarrow> net_setfl io fd (flags OR O_NONBLOCK) w)"

definition faultline_ignore_sigpipe :: "'w net_io \<Rightarrow> 'w \<Rightarrow> (errno + unit) \<times> 'w" where
  "faultline_ignore_sigpipe io w = net_ignore_sigpipe io w"

text \<open>The reading, -1 if there is none, and the error number that goes with it.\<close>

definition faultline_monotonic_ms :: "'w net_io \<Rightarrow> 'w \<Rightarrow> int \<times> errno \<times> 'w" where
  "faultline_monotonic_ms io w =
     (case net_clock io w of
        (Inl e, w) \<Rightarrow> (- 1, e, w)
      | (Inr (sec, nsec), w) \<Rightarrow> (sec * 1000 + nsec div 1000000, 0, w))"

section \<open>Sockets\<close>

partial_function (option) wait_ready ::
  "'w net_io \<Rightarrow> int \<Rightarrow> poll_flag \<Rightarrow> int \<Rightarrow> 'w \<Rightarrow> ((errno + unit) \<times> 'w) option" where
  "wait_ready io fd events deadline w =
     (case faultline_monotonic_ms io w of
        (now, error, w) \<Rightarrow>
          if now < 0 then Some (Inl error, w)
          else if now \<ge> deadline then Some (Inl ETIMEDOUT, w)
          else
            (case net_poll io [(fd, events)] (deadline - now) w of
               (Inl e, w) \<Rightarrow> if e = EINTR then wait_ready io fd events deadline w else Some (Inl e, w)
             | (Inr (ready, revents), w) \<Rightarrow>
                 if ready = 0 then Some (Inl ETIMEDOUT, w)
                 else if POLLNVAL \<in> hd revents then Some (Inl EBADF, w)
                 else if hd revents \<inter> {events, POLLHUP, POLLERR} \<noteq> {} then Some (Inr (), w)
                 else wait_ready io fd events deadline w))"

definition close_failed_socket :: "'w net_io \<Rightarrow> int \<Rightarrow> errno \<Rightarrow> 'w \<Rightarrow> (errno + int) \<times> 'w" where
  "close_failed_socket io fd error w = (Inl error, net_close io fd w)"

definition make_address :: "'w net_io \<Rightarrow> string \<Rightarrow> u16 \<Rightarrow> errno + sockaddr_in" where
  "make_address io host port =
     (if port = 0 then Inl EINVAL
      else (case net_inet_pton io host of None \<Rightarrow> Inl EINVAL | Some address \<Rightarrow> Inr (address, port)))"

definition faultline_listen :: "'w net_io \<Rightarrow> string \<Rightarrow> u16 \<Rightarrow> int \<Rightarrow> 'w \<Rightarrow> (errno + int) \<times> 'w" where
  "faultline_listen io host port backlog w =
     (case make_address io host port of
        Inl e \<Rightarrow> (Inl e, w)
      | Inr address \<Rightarrow>
          (case net_socket io w of
             (Inl e, w) \<Rightarrow> (Inl e, w)
           | (Inr fd, w) \<Rightarrow>
               (case net_reuse_address io fd w of
                  (Inl e, w) \<Rightarrow> close_failed_socket io fd e w
                | (Inr _, w) \<Rightarrow>
                    (case faultline_set_nonblocking io fd w of
                       (Inl e, w) \<Rightarrow> close_failed_socket io fd e w
                     | (Inr _, w) \<Rightarrow>
                         (case net_bind io fd address w of
                            (Inl e, w) \<Rightarrow> close_failed_socket io fd e w
                          | (Inr _, w) \<Rightarrow>
                              (case net_listen io fd backlog w of
                                 (Inl e, w) \<Rightarrow> close_failed_socket io fd e w
                               | (Inr _, w) \<Rightarrow> (Inr fd, w)))))))"

text \<open>Waiting for a connection in progress, and its outcome.\<close>

definition finish_connect :: "'w net_io \<Rightarrow> int \<Rightarrow> int \<Rightarrow> 'w \<Rightarrow> ((errno + int) \<times> 'w) option" where
  "finish_connect io fd deadline w =
     do {
       (ready, w) \<leftarrow> wait_ready io fd POLLOUT deadline w;
       Some (case ready of
               Inl e \<Rightarrow> close_failed_socket io fd e w
             | Inr _ \<Rightarrow>
                 (case net_so_error io fd w of
                    (Inl e, w) \<Rightarrow> close_failed_socket io fd e w
                  | (Inr error, w) \<Rightarrow> if error \<noteq> 0 then close_failed_socket io fd error w else (Inr fd, w)))
     }"

definition faultline_connect ::
  "'w net_io \<Rightarrow> string \<Rightarrow> u16 \<Rightarrow> int \<Rightarrow> 'w \<Rightarrow> ((errno + int) \<times> 'w) option" where
  "faultline_connect io host port timeout_ms w =
     (if timeout_ms \<le> 0 then Some (Inl EINVAL, w)
      else
        (case make_address io host port of
           Inl e \<Rightarrow> Some (Inl e, w)
         | Inr address \<Rightarrow>
             (case faultline_monotonic_ms io w of
                (now, error, w) \<Rightarrow>
                  if now < 0 then Some (Inl error, w)
                  else
                    (case net_socket io w of
                       (Inl e, w) \<Rightarrow> Some (Inl e, w)
                     | (Inr fd, w) \<Rightarrow>
                         (case faultline_set_nonblocking io fd w of
                            (Inl e, w) \<Rightarrow> Some (close_failed_socket io fd e w)
                          | (Inr _, w) \<Rightarrow>
                              (case net_connect io fd address w of
                                 (Inr _, w) \<Rightarrow> Some (Inr fd, w)
                               | (Inl e, w) \<Rightarrow>
                                   if e \<noteq> EINPROGRESS \<and> e \<noteq> EINTR then Some (close_failed_socket io fd e w)
                                   else finish_connect io fd (now + timeout_ms) w))))))"

section \<open>Transfers\<close>

partial_function (option) send_loop ::
  "'w net_io \<Rightarrow> int \<Rightarrow> int \<Rightarrow> bytes \<Rightarrow> 'w \<Rightarrow> ((errno + unit) \<times> 'w) option" where
  "send_loop io fd deadline data w =
     (if data = [] then Some (Inr (), w)
      else
        do {
          (ready, w) \<leftarrow> wait_ready io fd POLLOUT deadline w;
          (case ready of
             Inl e \<Rightarrow> Some (Inl e, w)
           | Inr _ \<Rightarrow>
               (case net_send io fd data w of
                  (Inr n, w) \<Rightarrow>
                    if n > 0 then send_loop io fd deadline (drop n data) w else Some (Inl EPIPE, w)
                | (Inl e, w) \<Rightarrow>
                    if e \<noteq> EINTR \<and> e \<noteq> EAGAIN then Some (Inl e, w) else send_loop io fd deadline data w))
        })"

definition faultline_send_all ::
  "'w net_io \<Rightarrow> int \<Rightarrow> bytes \<Rightarrow> int \<Rightarrow> 'w \<Rightarrow> ((errno + unit) \<times> 'w) option" where
  "faultline_send_all io fd data timeout_ms w =
     (if fd < 0 \<or> timeout_ms \<le> 0 then Some (Inl EINVAL, w)
      else
        (case faultline_monotonic_ms io w of
           (start, error, w) \<Rightarrow>
             if start < 0 then Some (Inl error, w) else send_loop io fd (start + timeout_ms) data w))"

datatype receive_error = RECEIVE_EOF | RECEIVE_TRUNCATED | RECEIVE_ERROR errno

text \<open>The loop has \<open>data\<close> so far and wants \<open>want\<close> bytes in all.\<close>

partial_function (option) recv_loop ::
  "'w net_io \<Rightarrow> int \<Rightarrow> int \<Rightarrow> nat \<Rightarrow> bytes \<Rightarrow> 'w \<Rightarrow> ((receive_error + bytes) \<times> 'w) option" where
  "recv_loop io fd deadline want data w =
     (if length data \<ge> want then Some (Inr data, w)
      else
        do {
          (ready, w) \<leftarrow> wait_ready io fd POLLIN deadline w;
          (case ready of
             Inl e \<Rightarrow> Some (Inl (RECEIVE_ERROR e), w)
           | Inr _ \<Rightarrow>
               (case net_recv io fd (want - length data) w of
                  (Inr bs, w) \<Rightarrow>
                    if bs \<noteq> [] then recv_loop io fd deadline want (data @ bs) w
                    else Some (Inl (if data = [] then RECEIVE_EOF else RECEIVE_TRUNCATED), w)
                | (Inl e, w) \<Rightarrow>
                    if e \<noteq> EINTR \<and> e \<noteq> EAGAIN then Some (Inl (RECEIVE_ERROR e), w)
                    else recv_loop io fd deadline want data w))
        })"

definition faultline_recv_exact ::
  "'w net_io \<Rightarrow> int \<Rightarrow> nat \<Rightarrow> int \<Rightarrow> 'w \<Rightarrow> ((receive_error + bytes) \<times> 'w) option" where
  "faultline_recv_exact io fd want timeout_ms w =
     (if fd < 0 \<or> timeout_ms \<le> 0 then Some (Inl (RECEIVE_ERROR EINVAL), w)
      else
        (case faultline_monotonic_ms io w of
           (start, error, w) \<Rightarrow>
             if start < 0 then Some (Inl (RECEIVE_ERROR error), w)
             else recv_loop io fd (start + timeout_ms) want [] w))"

section \<open>What the parsers accept\<close>

text \<open>The number a digit string stands for, most significant digit first.\<close>

definition decimal :: "nat list \<Rightarrow> nat" where
  "decimal cs = foldl (\<lambda>v c. v * 10 + (c - 48)) 0 cs"

definition digits :: "nat list \<Rightarrow> bool" where
  "digits cs \<longleftrightarrow> list_all (\<lambda>c. 48 \<le> c \<and> c \<le> 57) cs"

text \<open>
  What a step promises: as long as the number so far is within the limit, it either takes the digit
  exactly, without wrapping, or refuses because the limit would be passed.
\<close>

locale digit_accumulator =
  fixes step :: "'v \<Rightarrow> nat \<Rightarrow> 'v option"
    and val :: "'v \<Rightarrow> nat"
    and good :: "'v \<Rightarrow> bool"
    and limit :: nat
  assumes step_takes: "good v \<Longrightarrow> digit \<le> 9 \<Longrightarrow> val v * 10 + digit \<le> limit \<Longrightarrow>
      \<exists>v'. step v digit = Some v' \<and> good v' \<and> val v' = val v * 10 + digit"
    and step_refuses: "good v \<Longrightarrow> digit \<le> 9 \<Longrightarrow> limit < val v * 10 + digit \<Longrightarrow> step v digit = None"
begin

lemma foldl_decimal_mono: "(a::nat) \<le> foldl (\<lambda>v c. v * 10 + (c - 48)) a cs"
  by (induction cs arbitrary: a) (simp, smt (verit) foldl_Cons le_add1 le_trans mult_le_mono2 nat_mult_1_right numeral_One one_le_numeral)

lemma scan_accepts:
  assumes "good v" "digits cs" "foldl (\<lambda>v c. v * 10 + (c - 48)) (val v) cs \<le> limit"
  shows "\<exists>v'. scan_digits step v cs = Some v' \<and> good v' \<and> val v' = foldl (\<lambda>v c. v * 10 + (c - 48)) (val v) cs"
  using assms
proof (induction cs arbitrary: v)
  case (Cons c cs)
  have "val v * 10 + (c - 48) \<le> limit" using Cons.prems(3) foldl_decimal_mono [of "val v * 10 + (c - 48)" cs] by simp
  then obtain v' where "step v (c - 48) = Some v'" "good v'" "val v' = val v * 10 + (c - 48)"
    using step_takes [of v "c - 48"] Cons.prems(1,2) by (force simp: digits_def)
  then show ?case using Cons.IH [of v'] Cons.prems by (auto simp: digits_def)
qed simp

lemma scan_refuses:
  assumes "good v" "\<not> digits cs \<or> limit < foldl (\<lambda>v c. v * 10 + (c - 48)) (val v) cs" "val v \<le> limit"
  shows "scan_digits step v cs = None"
  using assms
proof (induction cs arbitrary: v)
  case (Cons c cs)
  show ?case
  proof (cases "48 \<le> c \<and> c \<le> 57")
    case digit: True
    show ?thesis
    proof (cases "val v * 10 + (c - 48) \<le> limit")
      case True
      then obtain v' where v': "step v (c - 48) = Some v'" "good v'" "val v' = val v * 10 + (c - 48)"
        using step_takes [of v "c - 48"] Cons.prems(1) digit by force
      then have "scan_digits step v' cs = None"
        using Cons.prems True digit by (intro Cons.IH) (auto simp: digits_def)
      then show ?thesis using v' by simp
    next
      case False
      moreover have "c - 48 \<le> 9" using digit by linarith
      ultimately show ?thesis using step_refuses [of v "c - 48"] Cons.prems(1) by (simp add: not_le del: diff_add_assoc)
    qed
  qed auto
qed (simp add: digits_def)

theorem scan_exact:
  assumes "good v" "val v = 0"
  shows "map_option val (scan_digits step v cs) = (if digits cs \<and> decimal cs \<le> limit then Some (decimal cs) else None)"
proof (cases "digits cs \<and> decimal cs \<le> limit")
  case True
  then show ?thesis using scan_accepts [OF assms(1), of cs] assms(2) by (auto simp: decimal_def)
next
  case False
  then have "scan_digits step v cs = None"
    using scan_refuses [OF assms(1), of cs] assms(2) by (auto simp: decimal_def)
  with False show ?thesis by simp
qed

lemma scan_good: "good v \<Longrightarrow> val v = 0 \<Longrightarrow> scan_digits step v cs = Some v' \<Longrightarrow> good v'"
  using scan_accepts [of v cs] scan_refuses [of v cs] by (force simp: decimal_def not_le)

end

text \<open>The steps of the two parsers.\<close>

lemma digit_word: "d \<le> 9 \<Longrightarrow> unat (v :: u32) \<le> 65535 \<Longrightarrow> unat (v * 10 + of_nat d) = unat v * 10 + d"
  by (simp add: unat_word_ariths unat_of_nat take_bit_nat_eq_self)

interpretation port_digits: digit_accumulator port_step unat "\<lambda>v. unat v \<le> 65535" 65535
proof unfold_locales
  fix v :: u32 and d :: nat
  assume v: "unat v \<le> 65535" "d \<le> 9"
  { assume "unat v * 10 + d \<le> 65535"
    then show "\<exists>v'. port_step v d = Some v' \<and> unat v' \<le> 65535 \<and> unat v' = unat v * 10 + d"
      using digit_word [OF v(2,1)] by (auto simp: port_step_def Let_def word_less_nat_alt) }
  { assume "65535 < unat v * 10 + d"
    then show "port_step v d = None"
      using digit_word [OF v(2,1)] by (auto simp: port_step_def Let_def word_less_nat_alt) }
qed

interpretation duration_digits: digit_accumulator duration_step nat "\<lambda>v. 0 \<le> v" "nat INT_MAX"
  by unfold_locales (auto simp: duration_step_def split: if_splits)

lemma parse_port_exact:
  "faultline_parse_port text =
     (if text \<noteq> [] \<and> digits (codes text) \<and> 1 \<le> decimal (codes text) \<and> decimal (codes text) \<le> 65535
      then Inr (of_nat (decimal (codes text))) else Inl EINVAL)"
proof (cases "scan_digits port_step 0 (codes text)")
  case None
  then show ?thesis using port_digits.scan_exact [of 0 "codes text"] by (auto simp: faultline_parse_port_def split: if_splits)
next
  case (Some v)
  then have v: "digits (codes text)" "decimal (codes text) \<le> 65535" "unat v = decimal (codes text)"
    using port_digits.scan_exact [of 0 "codes text"] by (auto split: if_splits)
  have "ucast v = (of_nat (unat v) :: u16)" by simp
  moreover have "v = 0 \<longleftrightarrow> decimal (codes text) = 0" using v(3) unat_eq_zero by metis
  ultimately show ?thesis using Some v by (auto simp: faultline_parse_port_def)
qed

lemma parse_duration_exact:
  "faultline_parse_duration_ms text =
     (if text \<noteq> [] \<and> digits (codes text) \<and> 1 \<le> decimal (codes text) \<and> int (decimal (codes text)) \<le> INT_MAX
      then Inr (int (decimal (codes text))) else Inl EINVAL)"
proof (cases "scan_digits duration_step 0 (codes text)")
  case None
  then show ?thesis using duration_digits.scan_exact [of 0 "codes text"]
    by (auto simp: faultline_parse_duration_ms_def split: if_splits)
next
  case (Some v)
  then have v: "digits (codes text)" "decimal (codes text) \<le> nat INT_MAX" "nat v = decimal (codes text)" "0 \<le> v"
    using duration_digits.scan_exact [of 0 "codes text"] duration_digits.scan_good [OF _ _ Some] by (auto split: if_splits)
  then have "v = int (decimal (codes text))" by simp
  then show ?thesis using Some v by (auto simp: faultline_parse_duration_ms_def)
qed

section \<open>What the network promises\<close>

text \<open>
  A stream socket: \<open>out\<close> is what has been handed to the connection, \<open>input\<close> what is still to come from
  it. A send hands over a prefix of what it is given, a receive takes at most what it is asked for,
  and no other call a transfer makes touches either.
\<close>

definition stream_socket :: "'w net_io \<Rightarrow> int \<Rightarrow> ('w \<Rightarrow> bytes) \<Rightarrow> ('w \<Rightarrow> bytes) \<Rightarrow> bool" where
  "stream_socket io fd out input \<longleftrightarrow>
     (\<forall>b w r w'. net_send io fd b w = (r, w') \<longrightarrow> input w' = input w \<and>
        (case r of Inl _ \<Rightarrow> out w' = out w | Inr n \<Rightarrow> n \<le> length b \<and> out w' = out w @ take n b)) \<and>
     (\<forall>n w r w'. net_recv io fd n w = (r, w') \<longrightarrow> out w' = out w \<and>
        (case r of Inl _ \<Rightarrow> input w' = input w | Inr b \<Rightarrow> length b \<le> n \<and> input w = b @ input w')) \<and>
     (\<forall>w r w'. net_clock io w = (r, w') \<longrightarrow> out w' = out w \<and> input w' = input w) \<and>
     (\<forall>ds t w r w'. net_poll io ds t w = (r, w') \<longrightarrow> out w' = out w \<and> input w' = input w)"

text \<open>
  Time passes: only finitely many calls fit before a deadline. \<open>patience\<close> counts them; a reading of
  the clock that is still before the deadline uses some of it up and no call gives any back.
\<close>

definition time_passes :: "'w net_io \<Rightarrow> int \<Rightarrow> int \<Rightarrow> ('w \<Rightarrow> nat) \<Rightarrow> bool" where
  "time_passes io fd deadline patience \<longleftrightarrow>
     (\<forall>w now e w'. faultline_monotonic_ms io w = (now, e, w') \<longrightarrow>
        (if 0 \<le> now \<and> now < deadline then patience w' < patience w else patience w' \<le> patience w)) \<and>
     (\<forall>ds t w r w'. net_poll io ds t w = (r, w') \<longrightarrow> patience w' \<le> patience w) \<and>
     (\<forall>b w r w'. net_send io fd b w = (r, w') \<longrightarrow> patience w' \<le> patience w) \<and>
     (\<forall>n w r w'. net_recv io fd n w = (r, w') \<longrightarrow> patience w' \<le> patience w)"

lemma streamD:
  assumes "stream_socket io fd out input"
  shows "net_send io fd b w = (Inr n, w') \<Longrightarrow> n \<le> length b \<and> out w' = out w @ take n b \<and> input w' = input w"
    "net_send io fd b w = (Inl e, w') \<Longrightarrow> out w' = out w \<and> input w' = input w"
    "net_recv io fd m w = (Inr bs, w') \<Longrightarrow> length bs \<le> m \<and> input w = bs @ input w' \<and> out w' = out w"
    "net_recv io fd m w = (Inl e, w') \<Longrightarrow> out w' = out w \<and> input w' = input w"
    "net_poll io ds t w = (r, w') \<Longrightarrow> out w' = out w \<and> input w' = input w"
    "faultline_monotonic_ms io w = (now, e', w') \<Longrightarrow> out w' = out w \<and> input w' = input w"
proof -
  note k = assms [unfolded stream_socket_def]
  show "net_send io fd b w = (Inr n, w') \<Longrightarrow> n \<le> length b \<and> out w' = out w @ take n b \<and> input w' = input w"
    "net_send io fd b w = (Inl e, w') \<Longrightarrow> out w' = out w \<and> input w' = input w"
    using k [THEN conjunct1] by fastforce+
  show "net_recv io fd m w = (Inr bs, w') \<Longrightarrow> length bs \<le> m \<and> input w = bs @ input w' \<and> out w' = out w"
    "net_recv io fd m w = (Inl e, w') \<Longrightarrow> out w' = out w \<and> input w' = input w"
    using k [THEN conjunct2, THEN conjunct1] by fastforce+
  show "net_poll io ds t w = (r, w') \<Longrightarrow> out w' = out w \<and> input w' = input w"
    using k by blast
  show "faultline_monotonic_ms io w = (now, e', w') \<Longrightarrow> out w' = out w \<and> input w' = input w"
    using k [THEN conjunct2, THEN conjunct2, THEN conjunct1]
    by (auto simp: faultline_monotonic_ms_def split: prod.splits sum.splits)
qed

section \<open>The loops\<close>

text \<open>Before its deadline a wait returns, having moved no data.\<close>

lemma wait_ready_returns:
  assumes dev: "stream_socket io fd out input" "time_passes io fd deadline patience"
  shows "\<exists>r w'. wait_ready io fd events deadline w = Some (r, w') \<and> out w' = out w \<and> input w' = input w \<and>
    patience w' \<le> patience w \<and> (r = Inr () \<longrightarrow> patience w' < patience w)"
proof (induction "patience w" arbitrary: w rule: less_induct)
  case less
  obtain now e w1 where clock: "faultline_monotonic_ms io w = (now, e, w1)" by (metis prod_cases3)
  obtain r w2 where poll: "net_poll io [(fd, events)] (deadline - now) w1 = (r, w2)" by fastforce
  have frame: "out w1 = out w" "input w1 = input w" "out w2 = out w" "input w2 = input w"
    using streamD(5) [OF dev(1) poll] streamD(6) [OF dev(1) clock] by simp_all
  have left: "patience w1 \<le> patience w" "patience w2 \<le> patience w1"
    using dev(2) clock poll unfolding time_passes_def by (fastforce split: if_splits)+
  show ?case
  proof (cases "0 \<le> now \<and> now < deadline")
    case True
    then have less': "patience w2 < patience w"
      using dev(2) clock left unfolding time_passes_def by (fastforce split: if_splits)
    obtain r' w' where again: "wait_ready io fd events deadline w2 = Some (r', w')" "out w' = out w2" "input w' = input w2"
        "patience w' \<le> patience w2"
      using less [OF less'] by blast
    then have "patience w' < patience w" using less' by simp
    with again show ?thesis using True less' frame
      by (cases r) (auto simp: wait_ready.simps [of _ _ _ _ w] clock poll split: prod.splits)
  next
    case False
    then show ?thesis using frame left by (auto simp: wait_ready.simps [of _ _ _ _ w] clock)
  qed
qed

text \<open>A transfer moves all of its data, or reports an error and has moved a part of it.\<close>

lemma send_loop_returns:
  assumes dev: "stream_socket io fd out input" "time_passes io fd deadline patience"
  shows "\<exists>r w' n. send_loop io fd deadline data w = Some (r, w') \<and> input w' = input w \<and>
    out w' = out w @ take n data \<and> n \<le> length data \<and> (r = Inr () \<longrightarrow> n = length data)"
proof (induction "patience w" arbitrary: w data rule: less_induct)
  case less
  obtain r w1 where wait: "wait_ready io fd POLLOUT deadline w = Some (r, w1)" "out w1 = out w" "input w1 = input w"
      "r = Inr () \<longrightarrow> patience w1 < patience w"
    using wait_ready_returns [OF dev] by blast
  obtain q w2 where send: "net_send io fd data w1 = (q, w2)" by fastforce
  have left: "patience w2 \<le> patience w1" using dev(2) send unfolding time_passes_def by blast
  consider "data = []" | e where "data \<noteq> []" "r = Inl e" | e where "data \<noteq> []" "r = Inr ()" "q = Inl e" | n where "data \<noteq> []" "r = Inr ()" "q = Inr n"
    by (metis old.sum.exhaust old.unit.exhaust)
  then show ?case
  proof cases
    case 1
    then show ?thesis by (auto simp: send_loop.simps)
  next
    case 2
    then have "send_loop io fd deadline data w = Some (Inl e, w1)" by (simp add: send_loop.simps wait)
    then show ?thesis using wait by (intro exI [of _ "Inl e"] exI [of _ w1] exI [of _ 0]) simp
  next
    case (3 e)
    then have frame: "out w2 = out w" "input w2 = input w" using streamD(2) [OF dev(1)] send wait by auto
    have "patience w2 < patience w" using left wait 3 by simp
    from less [OF this] have "\<exists>r w' n. send_loop io fd deadline data w2 = Some (r, w') \<and> input w' = input w \<and>
        out w' = out w @ take n data \<and> n \<le> length data \<and> (r = Inr () \<longrightarrow> n = length data)" by (simp add: frame)
    moreover have "\<exists>n. out w2 = out w @ take n data \<and> n \<le> length data" using frame by (intro exI [of _ 0]) simp
    ultimately show ?thesis using 3 frame by (auto simp: send_loop.simps [of _ _ _ data w] wait send)
  next
    case (4 n)
    then have frame: "n \<le> length data" "out w2 = out w @ take n data" "input w2 = input w"
      using streamD(1) [OF dev(1)] send wait by auto
    show ?thesis
    proof (cases "n = 0")
      case True
      then show ?thesis using 4 frame
        by (intro exI [of _ "Inl EPIPE"] exI [of _ w2] exI [of _ 0]) (simp add: send_loop.simps [of _ _ _ data w] wait send)
    next
      case False
      have "patience w2 < patience w" using left wait 4 by simp
      from less [OF this] obtain r' w' m where again: "send_loop io fd deadline (drop n data) w2 = Some (r', w')"
          "input w' = input w2" "out w' = out w2 @ take m (drop n data)" "m \<le> length (drop n data)" "r' = Inr () \<longrightarrow> m = length (drop n data)"
        by blast
      have "out w' = out w @ take (n + m) data" using again(3) frame(2) by (simp add: take_add)
      with again show ?thesis using False 4 frame
        by (intro exI [of _ r'] exI [of _ w'] exI [of _ "n + m"]) (auto simp: send_loop.simps [of _ _ _ data w] wait send)
    qed
  qed
qed

fun received :: "nat \<Rightarrow> receive_error + bytes \<Rightarrow> bytes \<Rightarrow> bool" where
  "received want (Inr bs) got = (bs = got \<and> length got = want)"
| "received want (Inl RECEIVE_EOF) got = (got = [] \<and> want \<noteq> 0)"
| "received want (Inl RECEIVE_TRUNCATED) got = (got \<noteq> [] \<and> length got < want)"
| "received want (Inl (RECEIVE_ERROR e)) got = (length got < want)"

lemma recv_loop_returns:
  assumes dev: "stream_socket io fd out input" "time_passes io fd deadline patience"
    and "length data \<le> want"
  shows "\<exists>r w' got. recv_loop io fd deadline want data w = Some (r, w') \<and> out w' = out w \<and> input w = got @ input w' \<and>
    received want r (data @ got)"
  using assms(3)
proof (induction "patience w" arbitrary: w data rule: less_induct)
  case less
  obtain r w1 where wait: "wait_ready io fd POLLIN deadline w = Some (r, w1)" "out w1 = out w" "input w1 = input w"
      "r = Inr () \<longrightarrow> patience w1 < patience w"
    using wait_ready_returns [OF dev] by blast
  obtain q w2 where recv: "net_recv io fd (want - length data) w1 = (q, w2)" by fastforce
  have left: "patience w2 \<le> patience w1" using dev(2) recv unfolding time_passes_def by blast
  consider "length data = want" | e where "length data < want" "r = Inl e"
    | e where "length data < want" "r = Inr ()" "q = Inl e" | bs where "length data < want" "r = Inr ()" "q = Inr bs"
    using less.prems by (metis le_neq_implies_less old.sum.exhaust old.unit.exhaust)
  then show ?case
  proof cases
    case 1
    then show ?thesis by (auto simp: recv_loop.simps)
  next
    case (2 e)
    then have "recv_loop io fd deadline want data w = Some (Inl (RECEIVE_ERROR e), w1)" by (simp add: recv_loop.simps wait)
    then show ?thesis using wait 2 by simp
  next
    case (3 e)
    then have frame: "out w2 = out w" "input w2 = input w" using streamD(4) [OF dev(1)] recv wait by auto
    show ?thesis
    proof (cases "e \<noteq> EINTR \<and> e \<noteq> EAGAIN")
      case True
      then have "recv_loop io fd deadline want data w = Some (Inl (RECEIVE_ERROR e), w2)"
        using 3 by (simp add: recv_loop.simps wait recv)
      then show ?thesis using 3 frame by simp
    next
      case False
      then have same: "recv_loop io fd deadline want data w = recv_loop io fd deadline want data w2"
        using 3 by (auto simp: recv_loop.simps [of _ _ _ _ data w] wait recv)
      have "patience w2 < patience w" using left wait 3 by simp
      from less.hyps [OF this less.prems] show ?thesis unfolding same frame .
    qed
  next
    case (4 bs)
    then have frame: "length bs \<le> want - length data" "input w = bs @ input w2" "out w2 = out w"
      using streamD(3) [OF dev(1)] recv wait by auto
    show ?thesis
    proof (cases "bs = []")
      case True
      have "recv_loop io fd deadline want data w = Some (Inl (if data = [] then RECEIVE_EOF else RECEIVE_TRUNCATED), w2)"
        using 4 True by (simp add: recv_loop.simps [of _ _ _ _ data w] wait recv)
      then show ?thesis using 4 frame True by auto
    next
      case False
      then have same: "recv_loop io fd deadline want data w = recv_loop io fd deadline want (data @ bs) w2"
        using 4 by (simp add: recv_loop.simps [of _ _ _ _ data w] wait recv)
      have "patience w2 < patience w" using left wait 4 by simp
      moreover have "length (data @ bs) \<le> want" using frame(1) 4 by simp
      ultimately obtain r' w' got where again: "recv_loop io fd deadline want (data @ bs) w2 = Some (r', w')"
          "out w' = out w2" "input w2 = got @ input w'"
          "received want r' ((data @ bs) @ got)"
        using less.hyps by blast
      show ?thesis unfolding same using again frame
        by (intro exI [of _ r'] exI [of _ w'] exI [of _ "bs @ got"]) simp
    qed
  qed
qed

section \<open>A network in memory\<close>

text \<open>
  A network that meets the contracts: a socket takes and gives at most 7 bytes at a time, everything is
  always ready, each reading of the clock takes a millisecond, and the first transfers are refused
  with \<^verbatim>\<open>EAGAIN\<close>.
\<close>

record memory_net =
  mn_out :: bytes
  mn_input :: bytes
  mn_time :: nat
  mn_busy :: nat

definition busy :: "(memory_net \<Rightarrow> (errno + 'a) \<times> memory_net) \<Rightarrow> memory_net \<Rightarrow> (errno + 'a) \<times> memory_net" where
  "busy f w = (if mn_busy w > 0 then (Inl EAGAIN, w\<lparr> mn_busy := mn_busy w - 1 \<rparr>) else f w)"

definition memory_net_io :: "memory_net net_io" where
  "memory_net_io =
     \<lparr> net_clock = (\<lambda>w. (Inr (0, int (mn_time w) * 1000000), w\<lparr> mn_time := Suc (mn_time w) \<rparr>)),
       net_poll = (\<lambda>ds t w. (Inr (length ds, map (\<lambda>(fd, events). {events}) ds), w)),
       net_send = (\<lambda>fd b. busy (\<lambda>w. (Inr (min 7 (length b)), w\<lparr> mn_out := mn_out w @ take (min 7 (length b)) b \<rparr>))),
       net_recv = (\<lambda>fd n. busy (\<lambda>w. (Inr (take (min n 7) (mn_input w)), w\<lparr> mn_input := drop (min n 7) (mn_input w) \<rparr>))),
       net_inet_pton = (\<lambda>host. if host = ''127.0.0.1'' then Some [127, 0, 0, 1] else None),
       net_getfl = (\<lambda>fd w. (Inr 2, w)), net_setfl = (\<lambda>fd flags w. (Inr (), w)), net_ignore_sigpipe = (\<lambda>w. (Inr (), w)),
       net_socket = (\<lambda>w. (Inr 3, w)), net_reuse_address = (\<lambda>fd w. (Inr (), w)), net_bind = (\<lambda>fd a w. (Inr (), w)),
       net_listen = (\<lambda>fd n w. (Inr (), w)), net_connect = (\<lambda>fd a w. (Inl EINPROGRESS, w)), net_so_error = (\<lambda>fd w. (Inr 0, w)),
       net_accept = (\<lambda>fd w. (Inl EAGAIN, w)), net_close = (\<lambda>fd w. w), net_stopping = (\<lambda>w. (0, w)) \<rparr>"

lemma memory_net_stream: "stream_socket memory_net_io fd mn_out mn_input"
  by (auto simp: stream_socket_def memory_net_io_def busy_def)

lemma memory_net_time: "time_passes memory_net_io fd deadline (\<lambda>w. nat (deadline - int (mn_time w)))"
  by (auto simp: time_passes_def memory_net_io_def busy_def faultline_monotonic_ms_def split: if_splits)

section \<open>Whole transfers\<close>

lemma send_all_exact:
  assumes "stream_socket io fd out input" "\<And>deadline. time_passes io fd deadline (patience deadline)"
  shows "\<exists>r w' n. faultline_send_all io fd data timeout_ms w = Some (r, w') \<and> input w' = input w \<and>
    out w' = out w @ take n data \<and> (r = Inr () \<longrightarrow> n = length data)"
proof -
  obtain start e w1 where clock: "faultline_monotonic_ms io w = (start, e, w1)" by (metis prod_cases3)
  have frame: "out w1 = out w" "input w1 = input w" using streamD(6) [OF assms(1) clock] by simp_all
  consider "fd < 0 \<or> timeout_ms \<le> 0" | "\<not> (fd < 0 \<or> timeout_ms \<le> 0)" "start < 0" |
    "\<not> (fd < 0 \<or> timeout_ms \<le> 0)" "\<not> start < 0" by blast
  then show ?thesis
  proof cases
    case 1
    then show ?thesis by (intro exI [of _ "Inl EINVAL"] exI [of _ w] exI [of _ 0]) (auto simp: faultline_send_all_def)
  next
    case 2
    then show ?thesis using frame
      by (intro exI [of _ "Inl e"] exI [of _ w1] exI [of _ 0]) (simp add: faultline_send_all_def clock)
  next
    case 3
    then have "faultline_send_all io fd data timeout_ms w = send_loop io fd (start + timeout_ms) data w1"
      by (simp add: faultline_send_all_def clock)
    then show ?thesis using send_loop_returns [OF assms(1) assms(2) [of "start + timeout_ms"], of data w1]
      unfolding frame by metis
  qed
qed

lemma recv_exact_exact:
  assumes "stream_socket io fd out input" "\<And>deadline. time_passes io fd deadline (patience deadline)"
  shows "\<exists>r w' got. faultline_recv_exact io fd want timeout_ms w = Some (r, w') \<and> out w' = out w \<and> input w = got @ input w' \<and>
    (want \<noteq> 0 \<longrightarrow> received want r got)"
proof -
  obtain start e w1 where clock: "faultline_monotonic_ms io w = (start, e, w1)" by (metis prod_cases3)
  have frame: "out w1 = out w" "input w1 = input w" using streamD(6) [OF assms(1) clock] by simp_all
  consider "fd < 0 \<or> timeout_ms \<le> 0" | "\<not> (fd < 0 \<or> timeout_ms \<le> 0)" "start < 0" |
    "\<not> (fd < 0 \<or> timeout_ms \<le> 0)" "\<not> start < 0" by blast
  then show ?thesis
  proof cases
    case 1
    then show ?thesis
      by (intro exI [of _ "Inl (RECEIVE_ERROR EINVAL)"] exI [of _ w] exI [of _ "[]"]) (auto simp: faultline_recv_exact_def)
  next
    case 2
    then show ?thesis using frame
      by (intro exI [of _ "Inl (RECEIVE_ERROR e)"] exI [of _ w1] exI [of _ "[]"]) (simp add: faultline_recv_exact_def clock)
  next
    case 3
    then have "faultline_recv_exact io fd want timeout_ms w = recv_loop io fd (start + timeout_ms) want [] w1"
      by (simp add: faultline_recv_exact_def clock)
    then show ?thesis using recv_loop_returns [OF assms(1) assms(2) [of "start + timeout_ms"], of "[]" want w1]
      unfolding frame by (metis append_Nil le0 list.size(3))
  qed
qed

section \<open>Properties\<close>


text \<open>Claim C36. A transfer returns and is exact. On a stream socket, if time passes, sending returns: on
  success exactly the data has been handed over, on an error a prefix of it. Receiving returns: on
  success exactly the bytes asked for were taken off the stream, a clean end means that none came,
  a truncated read that some but not all came, and an error that not all came.\<close>

theorem transfers_exact:
  assumes "stream_socket io fd out input" "\<And>deadline. time_passes io fd deadline (patience deadline)"
  shows "(\<exists>r w' n. faultline_send_all io fd data timeout_ms w = Some (r, w') \<and> input w' = input w \<and>
      out w' = out w @ take n data \<and> (r = Inr () \<longrightarrow> n = length data)) \<and>
    (\<exists>r w' got. faultline_recv_exact io fd want timeout_ms w = Some (r, w') \<and> out w' = out w \<and> input w = got @ input w' \<and>
      (want \<noteq> 0 \<longrightarrow> received want r got))"
  using send_all_exact [OF assms] recv_exact_exact [OF assms] by blast

theorem transfers_exact_witness:
  "\<exists>r w' n. faultline_send_all memory_net_io 3 [1, 2, 3, 4, 5, 6, 7, 8, 9] 100 \<lparr> mn_out = [], mn_input = [9], mn_time = 1, mn_busy = 2 \<rparr> = Some (r, w') \<and>
    mn_input w' = [9] \<and> mn_out w' = take n [1, 2, 3, 4, 5, 6, 7, 8, 9] \<and> (r = Inr () \<longrightarrow> n = length [1, 2, 3, 4, 5, 6, 7, 8, 9 :: u8])"
  using transfers_exact [OF memory_net_stream memory_net_time, where fd = 3 and timeout_ms = 100 and data = "[1, 2, 3, 4, 5, 6, 7, 8, 9]"
      and w = "\<lparr> mn_out = [], mn_input = [9], mn_time = 1, mn_busy = 2 \<rparr>", THEN conjunct1] by (simp del: One_nat_def length_Cons)

end
