(* ===== verification/Protocol.thy ===== *)
theory Protocol
  imports Message Bytes
begin

text \<open>
  The wire codec of \<^verbatim>\<open>src/common/protocol.c\<close>: twelve header bytes and a payload whose layout depends on
  the message type. An encoder returns the bytes it writes, given the capacity of the output; a
  decoder takes the bytes available and returns the message with the number of bytes consumed. The
  lemmas show that the two are inverse to each other in both directions, that a proper prefix of a
  frame is reported as incomplete and never misread, and that a stream of frames splits uniquely.
\<close>

section \<open>Byte order\<close>

definition write_u16_be :: "u16 \<Rightarrow> bytes" where
  "write_u16_be value = [ucast (drop_bit 8 value), ucast value]"

definition write_u32_be :: "u32 \<Rightarrow> bytes" where
  "write_u32_be value =
     [ucast (drop_bit 24 value), ucast (drop_bit 16 value), ucast (drop_bit 8 value), ucast value]"

definition read_u16_be :: "bytes \<Rightarrow> nat \<Rightarrow> u16" where
  "read_u16_be b i = push_bit 8 (ucast (b ! i)) OR ucast (b ! (i + 1))"

definition read_u32_be :: "bytes \<Rightarrow> nat \<Rightarrow> u32" where
  "read_u32_be b i =
     push_bit 24 (ucast (b ! i)) OR push_bit 16 (ucast (b ! (i + 1))) OR
     push_bit 8 (ucast (b ! (i + 2))) OR ucast (b ! (i + 3))"

definition write_u64_be :: "u64 \<Rightarrow> bytes" where
  "write_u64_be value = write_u32_be (ucast (drop_bit 32 value)) @ write_u32_be (ucast value)"

definition read_u64_be :: "bytes \<Rightarrow> nat \<Rightarrow> u64" where
  "read_u64_be b i = push_bit 32 (ucast (read_u32_be b i)) OR ucast (read_u32_be b (i + 4))"

text \<open>The same layout as the log's fields, so the lemmas on those apply.\<close>

lemma be_fields:
  "write_u16_be = put_u16" "write_u32_be = put_u32" "write_u64_be = put_u64"
  "read_u16_be = get_u16" "read_u32_be = get_u32" "read_u64_be = get_u64"
  by (simp_all add: fun_eq_iff write_u16_be_def write_u32_be_def write_u64_be_def read_u16_be_def
      read_u32_be_def read_u64_be_def put_u16_def put_u32_def put_u64_def get_u16_def get_u32_def get_u64_def)

section \<open>Headers\<close>

definition header_bytes :: "faultline_header \<Rightarrow> bytes" where
  "header_bytes header =
     write_u32_be (h_magic header) @ write_u16_be (h_version header) @
     write_u16_be (h_message_type header) @ write_u32_be (h_payload_length header)"

definition faultline_header_encode :: "nat \<Rightarrow> faultline_header \<Rightarrow> protocol_error + bytes" where
  "faultline_header_encode wire_size header =
     (if wire_size < FAULTLINE_HEADER_SIZE then Inl PROTOCOL_BUFFER_TOO_SMALL
      else
        (case validate_header header of
           Some e \<Rightarrow> Inl e
         | None \<Rightarrow> Inr (header_bytes header)))"

definition faultline_header_decode :: "bytes \<Rightarrow> protocol_error + faultline_header" where
  "faultline_header_decode wire =
     (if length wire < FAULTLINE_HEADER_SIZE then Inl PROTOCOL_BUFFER_TOO_SMALL
      else
        (let decoded = \<lparr> h_magic = read_u32_be wire 0, h_version = read_u16_be wire 4,
                         h_message_type = read_u16_be wire 6, h_payload_length = read_u32_be wire 8 \<rparr> in
         case validate_header decoded of
           Some e \<Rightarrow> Inl e
         | None \<Rightarrow> Inr decoded))"

section \<open>Encoding\<close>

definition write_identity :: "faultline_job_identity \<Rightarrow> bytes" where
  "write_identity identity =
     write_u64_be (i_job_id identity) @ write_u32_be (i_worker_id identity) @
     write_u64_be (i_attempt identity)"

definition read_identity :: "bytes \<Rightarrow> nat \<Rightarrow> faultline_job_identity" where
  "read_identity b i =
     \<lparr> i_job_id = read_u64_be b i, i_worker_id = read_u32_be b (i + 8), i_attempt = read_u64_be b (i + 12) \<rparr>"

definition write_job_summary :: "faultline_job_summary \<Rightarrow> bytes" where
  "write_job_summary entry =
     write_u64_be (sm_job_id entry) @ write_u16_be (sm_task_type entry) @ write_u16_be (sm_state entry) @
     write_u32_be (sm_worker_id entry) @ write_u64_be (sm_attempt entry) @
     write_u32_be (sm_retry_count entry) @ write_u32_be (sm_max_retries entry) @
     write_u16_be (sm_failure entry) @ write_u32_be (sm_result_size entry)"

definition write_worker_summary :: "faultline_worker_summary \<Rightarrow> bytes" where
  "write_worker_summary entry =
     write_u32_be (ws_worker_id entry) @ write_u16_be (ws_state entry) @
     write_u64_be (ws_heartbeat_age_ms entry) @ write_u64_be (ws_job_id entry) @
     write_u64_be (ws_attempt entry)"

definition stats_fields :: "faultline_stats_payload \<Rightarrow> u64 list" where
  "stats_fields s =
     [stat_jobs_submitted_total s, stat_jobs_queued s, stat_jobs_assigned s, stat_jobs_running s,
      stat_jobs_completed_total s, stat_jobs_failed_total s, stat_job_attempts_total s,
      stat_job_retries_total s, stat_completed_latency_avg_ms s, stat_workers_retained s,
      stat_workers_alive s, stat_workers_expired s, stat_workers_dead s, stat_workers_busy s,
      stat_workers_idle s, stat_session_uptime_ms s, stat_session_jobs_submitted s,
      stat_session_jobs_completed s, stat_session_jobs_failed s, stat_session_job_retries s,
      stat_startup_jobs_recovered s, stat_startup_interrupted_jobs s, stat_startup_duration_ms s,
      stat_heartbeat_timeout_ms s]"

fun encode_payload :: "faultline_message \<Rightarrow> bytes" where
  "encode_payload (MSG_WORKER_REGISTER_ACK w) = write_u32_be w"
| "encode_payload (MSG_HEARTBEAT w) = write_u32_be w"
| "encode_payload (MSG_JOB_SUBMIT p) =
     write_u16_be (sub_task_type p) @ write_u32_be (sub_max_retries p) @
     write_u32_be (word_of_nat (sub_argument_size p)) @ take (sub_argument_size p) (sub_arguments p)"
| "encode_payload (MSG_JOB_SUBMIT_ACK i) = write_u64_be i"
| "encode_payload (MSG_JOB_ASSIGN p) =
     write_identity (asg_identity p) @ write_u16_be (asg_task_type p) @
     write_u32_be (word_of_nat (asg_argument_size p)) @ take (asg_argument_size p) (asg_arguments p)"
| "encode_payload (MSG_JOB_STARTED i) = write_identity i"
| "encode_payload (MSG_JOB_COMPLETED p) =
     write_identity (cmp_identity p) @ write_u32_be (word_of_nat (cmp_result_size p)) @
     take (cmp_result_size p) (cmp_result p)"
| "encode_payload (MSG_JOB_FAILED p) = write_identity (fail_identity p) @ write_u16_be (fail_failure p)"
| "encode_payload (MSG_JOB_STATUS_REQUEST i) = write_u64_be i"
| "encode_payload (MSG_JOB_STATUS_RESPONSE p) =
     write_u64_be (st_job_id p) @ write_u16_be (st_state p) @ write_u32_be (st_worker_id p) @
     write_u64_be (st_attempt p) @ write_u32_be (st_retry_count p) @ write_u32_be (st_max_retries p) @
     write_u16_be (st_failure p) @ write_u32_be (word_of_nat (st_result_size p)) @
     take (st_result_size p) (st_result p)"
| "encode_payload (MSG_JOB_STATUS_NOT_FOUND i) = write_u64_be i"
| "encode_payload (MSG_JOBS_RESPONSE es) =
     write_u32_be (word_of_nat (length es)) @ concat (map write_job_summary es)"
| "encode_payload (MSG_WORKERS_RESPONSE p) =
     write_u32_be (word_of_nat (length (wl_entries p))) @ write_u32_be (wl_heartbeat_timeout_ms p) @
     concat (map write_worker_summary (wl_entries p))"
| "encode_payload (MSG_STATS_RESPONSE p) = concat (map write_u64_be (stats_fields p))"
| "encode_payload _ = []"

definition faultline_message_encode :: "nat \<Rightarrow> faultline_message \<Rightarrow> protocol_error + bytes" where
  "faultline_message_encode wire_size message =
     (case validate_message message of
        Inl e \<Rightarrow> Inl e
      | Inr payload_length \<Rightarrow>
          if wire_size < FAULTLINE_HEADER_SIZE + payload_length then Inl PROTOCOL_BUFFER_TOO_SMALL
          else
            (case faultline_header_encode wire_size
                    \<lparr> h_magic = FAULTLINE_PROTOCOL_MAGIC, h_version = FAULTLINE_PROTOCOL_VERSION,
                      h_message_type = message_type message,
                      h_payload_length = word_of_nat payload_length \<rparr> of
               Inl e \<Rightarrow> Inl e
             | Inr header \<Rightarrow> Inr (header @ encode_payload message)))"

section \<open>Decoding\<close>

definition read_job_summary :: "bytes \<Rightarrow> nat \<Rightarrow> faultline_job_summary" where
  "read_job_summary b i =
     \<lparr> sm_job_id = read_u64_be b i, sm_task_type = read_u16_be b (i + 8),
       sm_state = read_u16_be b (i + 10), sm_worker_id = read_u32_be b (i + 12),
       sm_attempt = read_u64_be b (i + 16), sm_retry_count = read_u32_be b (i + 24),
       sm_max_retries = read_u32_be b (i + 28), sm_failure = read_u16_be b (i + 32),
       sm_result_size = read_u32_be b (i + 34) \<rparr>"

definition read_worker_summary :: "bytes \<Rightarrow> nat \<Rightarrow> faultline_worker_summary" where
  "read_worker_summary b i =
     \<lparr> ws_worker_id = read_u32_be b i, ws_state = read_u16_be b (i + 4),
       ws_heartbeat_age_ms = read_u64_be b (i + 6), ws_job_id = read_u64_be b (i + 14),
       ws_attempt = read_u64_be b (i + 22) \<rparr>"

definition read_stats :: "bytes \<Rightarrow> faultline_stats_payload" where
  "read_stats b =
     \<lparr> stat_jobs_submitted_total = read_u64_be b 0, stat_jobs_queued = read_u64_be b 8,
       stat_jobs_assigned = read_u64_be b 16, stat_jobs_running = read_u64_be b 24,
       stat_jobs_completed_total = read_u64_be b 32, stat_jobs_failed_total = read_u64_be b 40,
       stat_job_attempts_total = read_u64_be b 48, stat_job_retries_total = read_u64_be b 56,
       stat_completed_latency_avg_ms = read_u64_be b 64, stat_workers_retained = read_u64_be b 72,
       stat_workers_alive = read_u64_be b 80, stat_workers_expired = read_u64_be b 88,
       stat_workers_dead = read_u64_be b 96, stat_workers_busy = read_u64_be b 104,
       stat_workers_idle = read_u64_be b 112, stat_session_uptime_ms = read_u64_be b 120,
       stat_session_jobs_submitted = read_u64_be b 128, stat_session_jobs_completed = read_u64_be b 136,
       stat_session_jobs_failed = read_u64_be b 144, stat_session_job_retries = read_u64_be b 152,
       stat_startup_jobs_recovered = read_u64_be b 160, stat_startup_interrupted_jobs = read_u64_be b 168,
       stat_startup_duration_ms = read_u64_be b 176, stat_heartbeat_timeout_ms = read_u64_be b 184 \<rparr>"

text \<open>The list responses check their count, the outer length and the frame before reading entries.\<close>

definition decode_list ::
  "bool \<Rightarrow> faultline_header \<Rightarrow> bytes \<Rightarrow> protocol_error + faultline_message" where
  "decode_list jobs header wire =
     (let payload = drop FAULTLINE_HEADER_SIZE wire;
          minimum = (if jobs then FAULTLINE_JOBS_PREFIX_SIZE else FAULTLINE_WORKERS_PREFIX_SIZE);
          count = unat (read_u32_be payload 0);
          limit = (if jobs then FAULTLINE_JOBS_MAX_ENTRIES else FAULTLINE_WORKERS_MAX_ENTRIES);
          stride = (if jobs then FAULTLINE_JOB_SUMMARY_SIZE else FAULTLINE_WORKER_SUMMARY_SIZE) in
      if count > limit then Inl PROTOCOL_INVALID_LIST_COUNT
      else if unat (h_payload_length header) \<noteq> minimum + count * stride
      then Inl PROTOCOL_INVALID_PAYLOAD_LENGTH
      else if \<not> jobs \<and> read_u32_be payload 4 = 0 then Inl PROTOCOL_INVALID_HEARTBEAT_TIMEOUT
      else if length wire < FAULTLINE_HEADER_SIZE + unat (h_payload_length header)
      then Inl PROTOCOL_BUFFER_TOO_SMALL
      else if jobs
      then Inr (MSG_JOBS_RESPONSE (map (\<lambda>i. read_job_summary payload (minimum + i * stride)) [0..<count]))
      else Inr (MSG_WORKERS_RESPONSE \<lparr> wl_heartbeat_timeout_ms = read_u32_be payload 4,
             wl_entries = map (\<lambda>i. read_worker_summary payload (minimum + i * stride)) [0..<count] \<rparr>))"

definition decode_fields :: "faultline_header \<Rightarrow> bytes \<Rightarrow> protocol_error + faultline_message" where
  "decode_fields header wire =
     (let ty = h_message_type header; payload = drop FAULTLINE_HEADER_SIZE wire in
      if ty = 4 then Inr (MSG_WORKER_REGISTER_ACK (read_u32_be payload 0))
      else if ty = 5 then Inr (MSG_HEARTBEAT (read_u32_be payload 0))
      else if ty = 6 then Inr (MSG_JOB_SUBMIT
        \<lparr> sub_task_type = read_u16_be payload 0, sub_max_retries = read_u32_be payload 2,
          sub_argument_size = unat (read_u32_be payload 6), sub_arguments = [] \<rparr>)
      else if ty = 7 then Inr (MSG_JOB_SUBMIT_ACK (read_u64_be payload 0))
      else if ty = 8 then Inr (MSG_JOB_ASSIGN
        \<lparr> asg_identity = read_identity payload 0, asg_task_type = read_u16_be payload 20,
          asg_argument_size = unat (read_u32_be payload 22), asg_arguments = [] \<rparr>)
      else if ty = 9 then Inr (MSG_JOB_STARTED (read_identity payload 0))
      else if ty = 10 then Inr (MSG_JOB_COMPLETED
        \<lparr> cmp_identity = read_identity payload 0, cmp_result_size = unat (read_u32_be payload 20),
          cmp_result = [] \<rparr>)
      else if ty = 11 then Inr (MSG_JOB_FAILED
        \<lparr> fail_identity = read_identity payload 0, fail_failure = read_u16_be payload 20 \<rparr>)
      else if ty = 12 then Inr (MSG_JOB_STATUS_REQUEST (read_u64_be payload 0))
      else if ty = 13 then Inr (MSG_JOB_STATUS_RESPONSE
        \<lparr> st_job_id = read_u64_be payload 0, st_state = read_u16_be payload 8,
          st_worker_id = read_u32_be payload 10, st_attempt = read_u64_be payload 14,
          st_retry_count = read_u32_be payload 22, st_max_retries = read_u32_be payload 26,
          st_failure = read_u16_be payload 30, st_result_size = unat (read_u32_be payload 32),
          st_result = [] \<rparr>)
      else if ty = 14 then Inr (MSG_JOB_STATUS_NOT_FOUND (read_u64_be payload 0))
      else if ty = 16 then decode_list True header wire
      else if ty = 18 then decode_list False header wire
      else if ty = 20 then Inr (MSG_STATS_RESPONSE (read_stats payload))
      else if ty = 1 then Inr (MSG_PING 0)
      else if ty = 2 then Inr (MSG_PONG 0)
      else if ty = 3 then Inr (MSG_WORKER_REGISTER 0)
      else if ty = 15 then Inr (MSG_JOBS_REQUEST 0)
      else if ty = 17 then Inr (MSG_WORKERS_REQUEST 0)
      else Inr (MSG_STATS_REQUEST 0))"

text \<open>The copy of the variable bytes into the array the switch selected.\<close>

fun set_message_data :: "bytes \<Rightarrow> faultline_message \<Rightarrow> faultline_message" where
  "set_message_data b (MSG_JOB_SUBMIT p) = MSG_JOB_SUBMIT (p\<lparr> sub_arguments := b \<rparr>)"
| "set_message_data b (MSG_JOB_ASSIGN p) = MSG_JOB_ASSIGN (p\<lparr> asg_arguments := b \<rparr>)"
| "set_message_data b (MSG_JOB_COMPLETED p) = MSG_JOB_COMPLETED (p\<lparr> cmp_result := b \<rparr>)"
| "set_message_data b (MSG_JOB_STATUS_RESPONSE p) = MSG_JOB_STATUS_RESPONSE (p\<lparr> st_result := b \<rparr>)"
| "set_message_data b m = m"

definition faultline_message_decode :: "bytes \<Rightarrow> protocol_error + faultline_message \<times> nat" where
  "faultline_message_decode wire =
     (case faultline_header_decode wire of
        Inl e \<Rightarrow> Inl e
      | Inr header \<Rightarrow>
          (case message_payload_bounds (h_message_type header) of
             Inl e \<Rightarrow> Inl e
           | Inr (minimum, maximum) \<Rightarrow>
               (let payload_length = unat (h_payload_length header) in
                if payload_length < minimum \<or> minimum = maximum \<and> payload_length \<noteq> minimum
                then Inl PROTOCOL_INVALID_PAYLOAD_LENGTH
                else if payload_length > maximum then Inl PROTOCOL_PAYLOAD_TOO_LARGE
                else if length wire < FAULTLINE_HEADER_SIZE + minimum then Inl PROTOCOL_BUFFER_TOO_SMALL
                else
                  (case decode_fields header wire of
                     Inl e \<Rightarrow> Inl e
                   | Inr decoded \<Rightarrow>
                       (case validate_message decoded of
                          Inl e \<Rightarrow> Inl e
                        | Inr expected_size \<Rightarrow>
                            if payload_length \<noteq> expected_size then Inl PROTOCOL_INVALID_PAYLOAD_LENGTH
                            else if length wire < FAULTLINE_HEADER_SIZE + expected_size
                            then Inl PROTOCOL_BUFFER_TOO_SMALL
                            else Inr (set_message_data
                                        (take (expected_size - minimum)
                                           (drop minimum (drop FAULTLINE_HEADER_SIZE wire))) decoded,
                                      FAULTLINE_HEADER_SIZE + expected_size))))))"

section \<open>Headers are read back\<close>

lemmas be_simps = be_fields length_put

lemma length_header_bytes [simp]: "length (header_bytes h) = FAULTLINE_HEADER_SIZE"
  by (simp add: header_bytes_def be_simps FAULTLINE_HEADER_SIZE_def)

lemma header_decode_bytes:
  "validate_header h = None \<Longrightarrow> faultline_header_decode (header_bytes h @ r) = Inr h"
  by (cases h) (simp add: faultline_header_decode_def header_bytes_def be_simps FAULTLINE_HEADER_SIZE_def)

lemma header_decode_Inr:
  assumes "faultline_header_decode wire = Inr h"
  shows "FAULTLINE_HEADER_SIZE \<le> length wire \<and> validate_header h = None \<and> header_bytes h = take FAULTLINE_HEADER_SIZE wire"
proof -
  have len: "12 \<le> length wire"
    using assms by (auto simp: faultline_header_decode_def FAULTLINE_HEADER_SIZE_def split: if_splits)
  have "header_bytes h = put_u32 (get_u32 wire 0) @ put_u16 (get_u16 wire 4) @ put_u16 (get_u16 wire 6) @ put_u32 (get_u32 wire 8)"
    using assms by (auto simp: faultline_header_decode_def header_bytes_def be_fields Let_def split: if_splits option.splits)
  also have "\<dots> = take 12 wire"
    using len take_take_drop [of 4 0 wire 2] take_take_drop [of 6 0 wire 2] take_take_drop [of 8 0 wire 4]
    by (simp add: put_get_u16 put_get_u32 flip: append_assoc)
  finally show ?thesis using assms len
    by (auto simp: faultline_header_decode_def FAULTLINE_HEADER_SIZE_def Let_def split: if_splits option.splits)
qed

lemma header_decode_take:
  "FAULTLINE_HEADER_SIZE \<le> k \<Longrightarrow> faultline_header_decode (take k wire) = faultline_header_decode wire"
  by (auto simp: faultline_header_decode_def be_simps FAULTLINE_HEADER_SIZE_def)

section \<open>Payloads are read back\<close>

text \<open>The size field of variable data is the number of bytes held.\<close>

fun message_shape :: "faultline_message \<Rightarrow> bool" where
  "message_shape (MSG_JOB_SUBMIT p) = (sub_argument_size p = length (sub_arguments p))"
| "message_shape (MSG_JOB_ASSIGN p) = (asg_argument_size p = length (asg_arguments p))"
| "message_shape (MSG_JOB_COMPLETED p) = (cmp_result_size p = length (cmp_result p))"
| "message_shape (MSG_JOB_STATUS_RESPONSE p) = (st_result_size p = length (st_result p))"
| "message_shape _ = True"

lemma length_write_summaries [simp]:
  "length (write_identity i) = 20" "length (write_job_summary e) = FAULTLINE_JOB_SUMMARY_SIZE"
  "length (write_worker_summary w) = FAULTLINE_WORKER_SUMMARY_SIZE"
  by (simp_all add: write_identity_def write_job_summary_def write_worker_summary_def be_simps protocol_sizes)

lemma length_encode_payload:
  "message_shape m \<Longrightarrow> length (encode_payload m) = payload_minimum m + message_data_size m"
  by (cases m) (simp_all add: payload_minimum_def message_payload_minimum_def protocol_sizes be_simps
      length_concat_const [where n = 8] length_concat_const [where n = FAULTLINE_JOB_SUMMARY_SIZE]
      length_concat_const [where n = FAULTLINE_WORKER_SUMMARY_SIZE] stats_fields_def)

lemma read_identity_write: "read_identity (write_identity i @ r) 0 = i"
  by (simp add: read_identity_def write_identity_def be_simps)

lemma read_identity_take: "k \<ge> n + 20 \<Longrightarrow> read_identity (take k b) n = read_identity b n"
  by (simp add: read_identity_def be_simps)

lemma read_summaries_write:
  "read_job_summary (a @ write_job_summary e @ r) (length a) = e"
  "read_worker_summary (a @ write_worker_summary w @ r) (length a) = w"
  by (simp_all add: read_job_summary_def write_job_summary_def read_worker_summary_def
      write_worker_summary_def be_simps)

lemma read_stats_write: "read_stats (concat (map put_u64 (stats_fields s)) @ r) = s"
  by (cases s) (simp add: read_stats_def stats_fields_def be_simps)

lemma decode_jobs_encode:
  assumes "length es \<le> FAULTLINE_JOBS_MAX_ENTRIES"
    "unat (h_payload_length h) = FAULTLINE_JOBS_PREFIX_SIZE + length es * FAULTLINE_JOB_SUMMARY_SIZE"
  shows "decode_list True h (header_bytes h' @ encode_payload (MSG_JOBS_RESPONSE es) @ r) = Inr (MSG_JOBS_RESPONSE es)"
proof -
  have "length es < 2 ^ 32" using assms(1) by (simp add: protocol_sizes)
  then show ?thesis
    using assms read_entries [of read_job_summary write_job_summary FAULTLINE_JOB_SUMMARY_SIZE
        "put_u32 (word_of_nat (length es))" es r]
    by (simp add: decode_list_def read_summaries_write be_simps FAULTLINE_JOBS_PREFIX_SIZE_def
        length_concat_const [where n = FAULTLINE_JOB_SUMMARY_SIZE])
qed

lemma decode_workers_encode:
  assumes "length (wl_entries p) \<le> FAULTLINE_WORKERS_MAX_ENTRIES" "wl_heartbeat_timeout_ms p \<noteq> 0"
    "unat (h_payload_length h) = FAULTLINE_WORKERS_PREFIX_SIZE + length (wl_entries p) * FAULTLINE_WORKER_SUMMARY_SIZE"
  shows "decode_list False h (header_bytes h' @ encode_payload (MSG_WORKERS_RESPONSE p) @ r) = Inr (MSG_WORKERS_RESPONSE p)"
proof -
  have "length (wl_entries p) < 2 ^ 32" using assms(1) by (simp add: protocol_sizes)
  then show ?thesis
    using assms read_entries [of read_worker_summary write_worker_summary FAULTLINE_WORKER_SUMMARY_SIZE
        "put_u32 (word_of_nat (length (wl_entries p))) @ put_u32 (wl_heartbeat_timeout_ms p)" "wl_entries p" r]
    by (simp add: decode_list_def read_summaries_write be_simps FAULTLINE_WORKERS_PREFIX_SIZE_def
        length_concat_const [where n = FAULTLINE_WORKER_SUMMARY_SIZE])
qed

lemma decode_fields_encode:
  assumes "validate_message m = Inr n" "message_shape m"
    and "h_message_type h = message_type m" "unat (h_payload_length h) = n"
  shows "decode_fields h (header_bytes h' @ encode_payload m @ r) = Inr (set_message_data [] m)"
proof -
  have bound: "message_data_size m < 2 ^ 32"
    using assms(1) payload_bound [of m]
    by (simp add: validate_message_Inr_iff FAULTLINE_MESSAGE_MAX_FRAME_SIZE_def protocol_sizes)
  show ?thesis
  proof (cases m)
    case (MSG_JOB_SUBMIT p)
    then show ?thesis using assms bound by (cases p) (simp add: decode_fields_def be_simps)
  next
    case (MSG_JOB_ASSIGN p)
    then show ?thesis using assms bound
      by (cases p) (simp add: decode_fields_def be_simps read_identity_write)
  next
    case (MSG_JOB_COMPLETED p)
    then show ?thesis using assms bound
      by (cases p) (simp add: decode_fields_def be_simps read_identity_write)
  next
    case (MSG_JOB_FAILED p)
    then show ?thesis using assms by (cases p) (simp add: decode_fields_def be_simps read_identity_write)
  next
    case (MSG_JOB_STATUS_RESPONSE p)
    then show ?thesis using assms bound by (cases p) (simp add: decode_fields_def be_simps)
  next
    case (MSG_JOBS_RESPONSE es)
    then show ?thesis
      using assms decode_jobs_encode [of es h h' r]
      by (auto simp: decode_fields_def validate_message_Inr_iff validate_jobs_def payload_minimum_def
          message_payload_minimum_def simp del: encode_payload.simps split: if_splits)
  next
    case (MSG_WORKERS_RESPONSE p)
    then show ?thesis
      using assms decode_workers_encode [of p h h' r]
      by (auto simp: decode_fields_def validate_message_Inr_iff validate_workers_def payload_minimum_def
          message_payload_minimum_def simp del: encode_payload.simps split: if_splits)
  qed (use assms in \<open>simp_all add: decode_fields_def be_simps read_identity_write read_stats_write
      validate_message_Inr_iff split: if_splits\<close>)
qed

section \<open>Frames\<close>

definition message_header :: "faultline_message \<Rightarrow> nat \<Rightarrow> faultline_header" where
  "message_header m n =
     \<lparr> h_magic = FAULTLINE_PROTOCOL_MAGIC, h_version = FAULTLINE_PROTOCOL_VERSION,
       h_message_type = message_type m, h_payload_length = word_of_nat n \<rparr>"

lemma payload_length_small:
  "validate_message m = Inr n \<Longrightarrow> n + FAULTLINE_HEADER_SIZE \<le> FAULTLINE_MESSAGE_MAX_FRAME_SIZE \<and> n < 2 ^ 32"
  using payload_bound [of m]
  by (auto simp: validate_message_Inr_iff FAULTLINE_MESSAGE_MAX_FRAME_SIZE_def protocol_sizes)

lemma message_header_valid: "validate_message m = Inr n \<Longrightarrow> validate_header (message_header m n) = None"
  using payload_length_small [of m n]
  by (auto simp: validate_header_def message_header_def message_payload_bounds_def message_minimum
      FAULTLINE_MAX_PAYLOAD_SIZE_def word_less_nat_alt FAULTLINE_MESSAGE_MAX_FRAME_SIZE_def protocol_sizes)

lemma message_encode_Inr_iff [outcome_simps]:
  "faultline_message_encode cap m = Inr wire \<longleftrightarrow>
     (\<exists>n. validate_message m = Inr n \<and> FAULTLINE_HEADER_SIZE + n \<le> cap \<and>
        wire = header_bytes (message_header m n) @ encode_payload m)"
  using message_header_valid
  by (auto simp: faultline_message_encode_def faultline_header_encode_def message_header_def
      split: sum.splits if_splits)

lemma set_message_data_same:
  "message_shape m \<Longrightarrow>
     set_message_data (drop (payload_minimum m) (encode_payload m)) (set_message_data [] m) = m"
  by (cases m) (auto simp: payload_minimum_def message_payload_minimum_def protocol_sizes be_simps)

lemma validate_job_status_result [simp]: "validate_job_status (p\<lparr> st_result := b \<rparr>) = validate_job_status p"
  by (cases p) (simp only: validate_job_status_def faultline_job_status_payload.simps)

lemma set_message_data_checks [simp]:
  "message_type (set_message_data b m) = message_type m"
  "check_message_fields (set_message_data b m) = check_message_fields m"
  "message_identity (set_message_data b m) = message_identity m"
  "message_data_size (set_message_data b m) = message_data_size m"
  "payload_minimum (set_message_data b m) = payload_minimum m"
  by (cases m; simp add: payload_minimum_def)+

lemma validate_set_message_data [simp]: "validate_message (set_message_data b m) = validate_message m"
  unfolding validate_message_def set_message_data_checks by (rule refl)

text \<open>What the decoder does once it has the header of a valid message.\<close>

lemma message_decode_at_header:
  assumes "faultline_header_decode wire = Inr (message_header m n)" "validate_message m = Inr n"
  shows "faultline_message_decode wire =
    (if length wire < FAULTLINE_HEADER_SIZE + payload_minimum m then Inl PROTOCOL_BUFFER_TOO_SMALL
     else
       (case decode_fields (message_header m n) wire of
          Inl e \<Rightarrow> Inl e
        | Inr decoded \<Rightarrow>
            (case validate_message decoded of
               Inl e \<Rightarrow> Inl e
             | Inr expected_size \<Rightarrow>
                 if n \<noteq> expected_size then Inl PROTOCOL_INVALID_PAYLOAD_LENGTH
                 else if length wire < FAULTLINE_HEADER_SIZE + expected_size then Inl PROTOCOL_BUFFER_TOO_SMALL
                 else Inr (set_message_data (take (expected_size - payload_minimum m)
                             (drop (payload_minimum m) (drop FAULTLINE_HEADER_SIZE wire))) decoded,
                           FAULTLINE_HEADER_SIZE + expected_size))))"
proof -
  have "unat (h_payload_length (message_header m n)) = n" "h_message_type (message_header m n) = message_type m"
    using payload_length_small [OF assms(2)] by (simp_all add: message_header_def)
  moreover have "payload_minimum m \<le> n" "n \<le> payload_minimum m + message_payload_extra (message_type m)"
    using assms(2) by (auto simp: validate_message_Inr_iff)
  ultimately show ?thesis
    by (simp add: faultline_message_decode_def message_payload_bounds_def message_minimum assms(1))
      linarith
qed

lemma message_decode_encode:
  assumes "message_shape m" "faultline_message_encode cap m = Inr wire"
  shows "faultline_message_decode (wire @ rest) = Inr (m, length wire)"
proof -
  obtain n where n: "validate_message m = Inr n"
    and wire: "wire = header_bytes (message_header m n) @ encode_payload m"
    using assms(2) by (auto simp: message_encode_Inr_iff)
  have len: "length (encode_payload m) = n" "payload_minimum m \<le> n"
    using length_encode_payload [OF assms(1)] n by (auto simp: validate_message_Inr_iff)
  have "decode_fields (message_header m n) (wire @ rest) = Inr (set_message_data [] m)"
    using decode_fields_encode [OF n assms(1)] payload_length_small [OF n]
    by (simp add: wire message_header_def)
  moreover have "faultline_header_decode (wire @ rest) = Inr (message_header m n)"
    using header_decode_bytes [OF message_header_valid [OF n]] by (simp add: wire)
  moreover have "take (n - payload_minimum m) (drop (payload_minimum m) (drop FAULTLINE_HEADER_SIZE (wire @ rest))) =
      drop (payload_minimum m) (encode_payload m)"
    using len by (simp add: wire)
  ultimately show ?thesis
    using message_decode_at_header [OF _ n] len set_message_data_same [OF assms(1)] n
    by (simp add: wire)
qed

section \<open>Accepted frames are canonical\<close>

lemma write_read_identity: "20 \<le> length b \<Longrightarrow> write_identity (read_identity b 0) = take 20 b"
  by (simp add: write_identity_def read_identity_def be_simps put_get_u32 put_get_u64 merge_slices)

lemma write_read_summaries:
  "i + FAULTLINE_JOB_SUMMARY_SIZE \<le> length b \<Longrightarrow>
     write_job_summary (read_job_summary b i) = take FAULTLINE_JOB_SUMMARY_SIZE (drop i b)"
  "i + FAULTLINE_WORKER_SUMMARY_SIZE \<le> length b \<Longrightarrow>
     write_worker_summary (read_worker_summary b i) = take FAULTLINE_WORKER_SUMMARY_SIZE (drop i b)"
  by (simp_all add: write_job_summary_def read_job_summary_def write_worker_summary_def
      read_worker_summary_def be_simps put_get_u16 put_get_u32 put_get_u64 merge_slices protocol_sizes)

lemma write_read_stats:
  "FAULTLINE_STATS_PAYLOAD_SIZE \<le> length b \<Longrightarrow>
     concat (map put_u64 (stats_fields (read_stats b))) = take FAULTLINE_STATS_PAYLOAD_SIZE b"
  by (simp add: stats_fields_def read_stats_def be_simps put_get_u64 merge_slices protocol_sizes)

lemma write_read_entries:
  assumes "k + c * n \<le> length b" "\<And>i. i + n \<le> length b \<Longrightarrow> wr (rd b i) = take n (drop i b)"
  shows "concat (map (\<lambda>i. wr (rd b (k + i * n))) [0..<c]) = take (c * n) (drop k (b :: bytes))"
proof -
  have "wr (rd b (k + i * n)) = take n (drop (k + i * n) b)" if "i < c" for i
  proof (rule assms(2))
    have "Suc i * n \<le> c * n" using that by (intro mult_le_mono1) simp
    then show "k + i * n + n \<le> length b" using assms(1) by simp
  qed
  then have "map (\<lambda>i. wr (rd b (k + i * n))) [0..<c] = map (\<lambda>i. take n (drop (k + i * n) b)) [0..<c]"
    by simp
  then show ?thesis by (simp only: concat_slices)
qed

lemma decode_list_Inr:
  assumes "decode_list jobs h wire = Inr d" "FAULTLINE_HEADER_SIZE \<le> length wire"
  shows "encode_payload d = take (unat (h_payload_length h)) (drop FAULTLINE_HEADER_SIZE wire) \<and>
    message_type d = (if jobs then 16 else 18) \<and> set_message_data b d = d \<and> message_shape d"
proof (cases jobs)
  case True
  let ?p = "drop FAULTLINE_HEADER_SIZE wire"
  let ?c = "unat (get_u32 ?p 0)"
  have d: "d = MSG_JOBS_RESPONSE (map (\<lambda>i. read_job_summary ?p (4 + i * FAULTLINE_JOB_SUMMARY_SIZE)) [0..<?c])"
    and n: "unat (h_payload_length h) = 4 + ?c * FAULTLINE_JOB_SUMMARY_SIZE" "unat (h_payload_length h) \<le> length ?p"
    using assms True by (auto simp: decode_list_def Let_def be_fields FAULTLINE_JOBS_PREFIX_SIZE_def split: if_splits)
  have "encode_payload d = take 4 ?p @ take (?c * FAULTLINE_JOB_SUMMARY_SIZE) (drop 4 ?p)"
    using n write_read_entries [of 4 ?c FAULTLINE_JOB_SUMMARY_SIZE ?p write_job_summary read_job_summary]
    by (simp add: d be_simps comp_def put_get_u32 write_read_summaries)
  then show ?thesis using True d n by (simp add: merge_slices)
next
  case False
  let ?p = "drop FAULTLINE_HEADER_SIZE wire"
  let ?c = "unat (get_u32 ?p 0)"
  have d: "d = MSG_WORKERS_RESPONSE \<lparr> wl_heartbeat_timeout_ms = get_u32 ?p 4,
      wl_entries = map (\<lambda>i. read_worker_summary ?p (8 + i * FAULTLINE_WORKER_SUMMARY_SIZE)) [0..<?c] \<rparr>"
    and n: "unat (h_payload_length h) = 8 + ?c * FAULTLINE_WORKER_SUMMARY_SIZE" "unat (h_payload_length h) \<le> length ?p"
    using assms False by (auto simp: decode_list_def Let_def be_fields FAULTLINE_WORKERS_PREFIX_SIZE_def split: if_splits)
  have "encode_payload d = take 4 ?p @ take 4 (drop 4 ?p) @ take (?c * FAULTLINE_WORKER_SUMMARY_SIZE) (drop 8 ?p)"
    using n write_read_entries [of 8 ?c FAULTLINE_WORKER_SUMMARY_SIZE ?p write_worker_summary read_worker_summary]
    by (simp add: d be_simps comp_def put_get_u32 write_read_summaries)
  then show ?thesis using False d n by (simp add: merge_slices)
qed

lemma decode_fields_canonical:
  assumes "decode_fields h wire = Inr d" "validate_message d = Inr n"
    and "FAULTLINE_HEADER_SIZE + payload_minimum d \<le> length wire"
    and "FAULTLINE_HEADER_SIZE + n \<le> length wire" "unat (h_payload_length h) = n"
    and "message_payload_minimum (h_message_type h) \<noteq> None"
  shows "message_type d = h_message_type h \<and>
    (let m = set_message_data (take (n - payload_minimum d) (drop (payload_minimum d) (drop FAULTLINE_HEADER_SIZE wire))) d in
     message_shape m \<and> encode_payload m = take n (drop FAULTLINE_HEADER_SIZE wire))"
proof (cases "h_message_type h = 16 \<or> h_message_type h = 18")
  case True
  then show ?thesis
    using assms decode_list_Inr [of _ h wire d] by (auto simp: decode_fields_def)
next
  case False
  define b where "b = drop FAULTLINE_HEADER_SIZE wire"
  have n: "n = payload_minimum d + message_data_size d" "n \<le> length b" "payload_minimum d \<le> length b"
    using assms by (auto simp: validate_message_Inr_iff b_def)
  have ty: "message_type d = h_message_type h"
    using assms(1,6) False by (auto simp: decode_fields_def Let_def message_payload_minimum_def split: if_splits)
  have "message_shape (set_message_data (take (n - payload_minimum d) (drop (payload_minimum d) b)) d) \<and>
    encode_payload (set_message_data (take (n - payload_minimum d) (drop (payload_minimum d) b)) d) = take n b"
    using False assms(1) [unfolded decode_fields_def Let_def, folded b_def] n ty [symmetric]
    by (cases d)
      (auto simp: message_payload_minimum_def payload_minimum_def protocol_sizes be_simps
       put_get_u16 put_get_u32 put_get_u64 merge_slices write_read_identity
       write_read_stats [unfolded protocol_sizes] split: if_splits)
  then show ?thesis using ty by (simp add: b_def Let_def)
qed

lemma message_decode_Inr:
  assumes "faultline_message_decode wire = Inr (m, k)"
  shows "message_shape m \<and> k \<le> length wire \<and> faultline_message_encode k m = Inr (take k wire)"
proof -
  obtain h minimum d n where h: "faultline_header_decode wire = Inr h"
    and minimum: "message_payload_minimum (h_message_type h) = Some minimum"
      "FAULTLINE_HEADER_SIZE + minimum \<le> length wire"
    and d: "decode_fields h wire = Inr d" "validate_message d = Inr n"
    and n: "unat (h_payload_length h) = n" "FAULTLINE_HEADER_SIZE + n \<le> length wire"
    and m: "m = set_message_data (take (n - minimum) (drop minimum (drop FAULTLINE_HEADER_SIZE wire))) d"
    and k: "k = FAULTLINE_HEADER_SIZE + n"
    using assms by (auto simp: faultline_message_decode_def message_payload_bounds_def Let_def
        split: sum.splits option.splits if_splits)
  have "message_type d = h_message_type h"
    using d(1) minimum(1) decode_list_Inr [of _ h wire d undefined] minimum(2)
    by (auto simp: decode_fields_def Let_def message_payload_minimum_def split: if_splits)
  then have min: "payload_minimum d = minimum" using minimum(1) by (simp add: payload_minimum_def)
  note canon = decode_fields_canonical [OF d _ n(2,1), unfolded min Let_def, folded m]
  have h': "validate_header h = None" "header_bytes h = take FAULTLINE_HEADER_SIZE wire"
    using header_decode_Inr [OF h] by auto
  have "message_header m n = h"
    using canon minimum h'(1) n(1)
    by (cases h) (auto simp: message_header_def validate_header_def m split: if_splits)
  then show ?thesis
    using canon minimum h'(2) n(2) d(2) k m
    by (auto simp: message_encode_Inr_iff take_add)
qed

lemma read_stats_take: "FAULTLINE_STATS_PAYLOAD_SIZE \<le> k \<Longrightarrow> read_stats (take k b) = read_stats b"
  by (simp add: read_stats_def be_simps protocol_sizes)

lemma known_message_type:
  "message_payload_minimum ty = Some minimum \<Longrightarrow>
     ty = 1 \<or> ty = 2 \<or> ty = 3 \<or> ty = 4 \<or> ty = 5 \<or> ty = 6 \<or> ty = 7 \<or> ty = 8 \<or> ty = 9 \<or> ty = 10 \<or>
     ty = 11 \<or> ty = 12 \<or> ty = 13 \<or> ty = 14 \<or> ty = 15 \<or> ty = 16 \<or> ty = 17 \<or> ty = 18 \<or> ty = 19 \<or> ty = 20"
  by (rule ccontr) (simp add: message_payload_minimum_def)

lemma decode_fields_take:
  assumes "message_payload_minimum (h_message_type h) = Some minimum" "FAULTLINE_HEADER_SIZE + minimum \<le> k"
    and "h_message_type h \<noteq> 16" "h_message_type h \<noteq> 18"
  shows "decode_fields h (take k wire) = decode_fields h wire"
proof -
  define b where "b = drop FAULTLINE_HEADER_SIZE wire"
  obtain j where j: "k = FAULTLINE_HEADER_SIZE + j" using assms(2) by (metis add_leE le_Suc_ex)
  then have payload: "drop FAULTLINE_HEADER_SIZE (take k wire) = take j b" "minimum \<le> j"
    using assms(2) by (simp_all add: drop_take b_def)
  show ?thesis
    using known_message_type [OF assms(1)] assms(1,3,4) payload(2)
    unfolding decode_fields_def Let_def payload(1) b_def [symmetric]
    by (elim disjE)
      (simp_all add: message_payload_minimum_def be_simps protocol_sizes read_identity_take
        read_stats_take [unfolded FAULTLINE_STATS_PAYLOAD_SIZE_def])
qed

lemma decode_list_take:
  assumes "decode_list jobs h wire = Inr d" "k < FAULTLINE_HEADER_SIZE + unat (h_payload_length h)"
    and "FAULTLINE_HEADER_SIZE + (if jobs then FAULTLINE_JOBS_PREFIX_SIZE else FAULTLINE_WORKERS_PREFIX_SIZE) \<le> k"
  shows "decode_list jobs h (take k wire) = Inl PROTOCOL_BUFFER_TOO_SMALL"
proof -
  have "drop FAULTLINE_HEADER_SIZE (take k wire) = take (k - FAULTLINE_HEADER_SIZE) (drop FAULTLINE_HEADER_SIZE wire)"
    by (simp add: drop_take)
  then show ?thesis using assms
    by (auto simp: decode_list_def Let_def be_simps FAULTLINE_JOBS_PREFIX_SIZE_def FAULTLINE_WORKERS_PREFIX_SIZE_def
        split: if_splits)
qed

lemma message_decode_prefix:
  assumes "message_shape m" "faultline_message_encode cap m = Inr wire" "k < length wire"
  shows "faultline_message_decode (take k wire) = Inl PROTOCOL_BUFFER_TOO_SMALL"
proof -
  obtain n where n: "validate_message m = Inr n"
    and wire: "wire = header_bytes (message_header m n) @ encode_payload m"
    using assms(2) by (auto simp: message_encode_Inr_iff)
  have len: "length wire = FAULTLINE_HEADER_SIZE + n"
    using length_encode_payload [OF assms(1)] n by (auto simp: validate_message_Inr_iff wire)
  have hdr: "unat (h_payload_length (message_header m n)) = n" "h_message_type (message_header m n) = message_type m"
    using payload_length_small [OF n] by (auto simp: message_header_def)
  have fields: "decode_fields (message_header m n) wire = Inr (set_message_data [] m)"
    using decode_fields_encode [OF n assms(1) hdr(2,1), of "message_header m n" "[]"] by (simp add: wire)
  show ?thesis
  proof (cases "FAULTLINE_HEADER_SIZE \<le> k")
    case False
    then have "length (take k wire) < FAULTLINE_HEADER_SIZE" by simp
    then show ?thesis by (simp add: faultline_message_decode_def faultline_header_decode_def)
  next
    case True
    then have head: "faultline_header_decode (take k wire) = Inr (message_header m n)"
      using header_decode_bytes [OF message_header_valid [OF n]] by (simp add: header_decode_take wire)
    show ?thesis
    proof (cases "FAULTLINE_HEADER_SIZE + payload_minimum m \<le> k")
      case False
      then have "length (take k wire) < FAULTLINE_HEADER_SIZE + payload_minimum m" by simp
      then show ?thesis using message_decode_at_header [OF head n] by (simp del: length_take)
    next
      case True
      have "decode_fields (message_header m n) (take k wire) = Inl PROTOCOL_BUFFER_TOO_SMALL \<or>
        decode_fields (message_header m n) (take k wire) = Inr (set_message_data [] m)"
      proof (cases "message_type m = 16 \<or> message_type m = 18")
        case True
        then show ?thesis
          using fields decode_list_take [of _ "message_header m n" wire _ k] assms(3) len hdr
            \<open>FAULTLINE_HEADER_SIZE + payload_minimum m \<le> k\<close>
          by (auto simp: decode_fields_def payload_minimum_def message_payload_minimum_def)
      next
        case False
        then show ?thesis using decode_fields_take [of "message_header m n"] hdr True fields
          by (simp add: message_minimum)
      qed
      then show ?thesis
        using message_decode_at_header [OF head n] True n len assms(3) by auto
    qed
  qed
qed

section \<open>Streams of frames\<close>

definition sendable :: "faultline_message \<Rightarrow> bool" where
  "sendable m \<longleftrightarrow> message_shape m \<and> (\<exists>n. validate_message m = Inr n)"

definition frame :: "faultline_message \<Rightarrow> bytes" where
  "frame m = (case faultline_message_encode FAULTLINE_MESSAGE_MAX_FRAME_SIZE m of Inl _ \<Rightarrow> [] | Inr wire \<Rightarrow> wire)"

lemma sendable_frame:
  "sendable m \<Longrightarrow> faultline_message_encode FAULTLINE_MESSAGE_MAX_FRAME_SIZE m = Inr (frame m)"
proof -
  assume "sendable m"
  then obtain n where n: "validate_message m = Inr n" by (auto simp: sendable_def)
  then have "\<exists>wire. faultline_message_encode FAULTLINE_MESSAGE_MAX_FRAME_SIZE m = Inr wire"
    using payload_length_small [OF n] by (simp add: message_encode_Inr_iff add.commute)
  then show ?thesis by (auto simp: frame_def)
qed

interpretation frames: prefix_codec frame faultline_message_decode sendable
  by unfold_locales (metis message_decode_encode sendable_def sendable_frame)

section \<open>Properties\<close>

text \<open>Claim C9. Encoding and decoding are inverse: a frame produced for a message whose size
  fields match its data decodes, whatever bytes follow, to that message and the frame's length.\<close>

theorem message_roundtrip:
  assumes "message_shape m" "faultline_message_encode wire_size m = Inr wire"
  shows "faultline_message_decode (wire @ rest) = Inr (m, length wire)"
  using assms by (rule message_decode_encode)

definition sample_submit :: faultline_message where
  "sample_submit = MSG_JOB_SUBMIT \<lparr> sub_task_type = 3, sub_max_retries = 2, sub_argument_size = 2,
     sub_arguments = [0x34, 0x30] \<rparr>"

lemma sample_submit_valid: "validate_message sample_submit = Inr 12"
  by (simp add: validate_message_Inr_iff sample_submit_def valid_task_def payload_minimum_def
      message_payload_minimum_def message_payload_extra_def protocol_sizes)

lemma sample_submit_encode: "faultline_message_encode 64 sample_submit =
  Inr [0x46, 0x4c, 0x49, 0x4e, 0, 1, 0, 6, 0, 0, 0, 12, 0, 3, 0, 0, 0, 2, 0, 0, 0, 2, 0x34, 0x30]"
proof -
  have "header_bytes (message_header sample_submit 12) = [0x46, 0x4c, 0x49, 0x4e, 0, 1, 0, 6, 0, 0, 0, 12]"
    "encode_payload sample_submit = [0, 3, 0, 0, 0, 2, 0, 0, 0, 2, 0x34, 0x30]"
    by (simp_all add: message_header_def header_bytes_def sample_submit_def FAULTLINE_PROTOCOL_MAGIC_def
        FAULTLINE_PROTOCOL_VERSION_def write_u16_be_def write_u32_be_def)
  then show ?thesis
    by (simp add: message_encode_Inr_iff sample_submit_valid FAULTLINE_HEADER_SIZE_def)
qed

theorem message_roundtrip_witness:
  "message_shape sample_submit \<and>
   faultline_message_decode [0x46, 0x4c, 0x49, 0x4e, 0, 1, 0, 6, 0, 0, 0, 12, 0, 3, 0, 0, 0, 2, 0, 0, 0, 2,
     0x34, 0x30, 0xff] = Inr (sample_submit, 24)"
  using message_roundtrip [OF _ sample_submit_encode, of "[0xff]"] by (simp add: sample_submit_def)

text \<open>Claim C10. Only canonical frames are accepted: whatever the decoder accepts lies inside the
  available bytes and is, byte for byte, the encoding of the message it returns.\<close>

theorem decoded_is_canonical:
  assumes "faultline_message_decode wire = Inr (m, consumed)"
  shows "message_shape m \<and> consumed \<le> length wire \<and>
    faultline_message_encode consumed m = Inr (take consumed wire)"
  using assms by (rule message_decode_Inr)

theorem decoded_is_canonical_witness:
  "faultline_message_decode (take 24 [0x46, 0x4c, 0x49, 0x4e, 0, 1, 0, 6, 0, 0, 0, 12, 0, 3, 0, 0, 0, 2, 0, 0, 0, 2,
     0x34, 0x30, 0xff]) = Inr (sample_submit, 24) \<and>
   faultline_message_encode 24 sample_submit = Inr [0x46, 0x4c, 0x49, 0x4e, 0, 1, 0, 6, 0, 0, 0, 12, 0, 3, 0, 0, 0, 2,
     0, 0, 0, 2, 0x34, 0x30]"
proof -
  have "message_shape sample_submit" by (simp add: sample_submit_def)
  from message_decode_encode [OF this sample_submit_encode, of "[]"]
  have "faultline_message_decode [0x46, 0x4c, 0x49, 0x4e, 0, 1, 0, 6, 0, 0, 0, 12, 0, 3, 0, 0, 0, 2, 0, 0, 0, 2,
     0x34, 0x30] = Inr (sample_submit, 24)" by simp
  with decoded_is_canonical [OF this] show ?thesis by simp
qed

text \<open>Claim C11. A connection never acts on part of a frame: every proper prefix of a frame is
  reported as needing more bytes, and no other error and no message comes of it.\<close>

theorem partial_frame_waits:
  assumes "message_shape m" "faultline_message_encode wire_size m = Inr wire" "k < length wire"
  shows "faultline_message_decode (take k wire) = Inl PROTOCOL_BUFFER_TOO_SMALL"
  using assms by (rule message_decode_prefix)

theorem partial_frame_waits_witness:
  "faultline_message_decode [0x46, 0x4c, 0x49, 0x4e, 0, 1, 0, 6, 0, 0, 0, 12, 0, 3, 0, 0, 0, 2, 0, 0, 0, 2, 0x34] =
     Inl PROTOCOL_BUFFER_TOO_SMALL"
  using partial_frame_waits [OF _ sample_submit_encode, of 23] by (simp add: sample_submit_def)



end
