(* ===== verification/Coordinator_Main.thy ===== *)
theory Coordinator_Main
  imports Coordinator_Stats Net Protocol
begin

text \<open>
  The coordinator process (\<^verbatim>\<open>src/coordinator/main.c\<close>): the connections, the handlers of their messages,
  the expiry of silent workers, the dispatch of pending jobs, the event loop, and the start and the
  shutdown of the process. The sockets and the clock are a \<^typ>\<open>'w net_io\<close>, the log file a
  \<^typ>\<open>'w faultline_wal_writer_io\<close> over the same world. Log lines are left out, as no decision
  depends on them. An operation returns \<open>None\<close> when a retried system call never returns.
\<close>

section \<open>Connections\<close>

definition MAX_CLIENTS :: nat where "MAX_CLIENTS = 64"
definition CLIENT_FRAME_CAPACITY :: nat where "CLIENT_FRAME_CAPACITY = FAULTLINE_MESSAGE_MAX_FRAME_SIZE"

abbreviation (input) EXIT_SUCCESS :: int where "EXIT_SUCCESS \<equiv> 0"
abbreviation (input) EXIT_FAILURE :: int where "EXIT_FAILURE \<equiv> 1"

datatype client_phase = READING_MESSAGE | WRITING_REPLY

text \<open>
  \<open>c_input\<close> holds the bytes received so far and \<open>c_output\<close> the encoded reply, so \<^verbatim>\<open>received\<close> and
  \<^verbatim>\<open>output_size\<close> are their lengths.
\<close>

record client =
  c_fd :: int
  c_phase :: client_phase
  c_worker_id :: u32
  c_job_client :: bool
  c_input :: bytes
  c_output :: bytes
  c_expected :: nat
  c_sent :: nat
  c_reply_type :: u16
  c_last_progress_ms :: int

definition zero_client :: client where
  "zero_client = \<lparr> c_fd = 0, c_phase = READING_MESSAGE, c_worker_id = 0, c_job_client = False, c_input = [], c_output = [],
     c_expected = 0, c_sent = 0, c_reply_type = 0, c_last_progress_ms = 0 \<rparr>"

type_synonym 'w served = "(client \<times> faultline_coordinator_store \<times> 'w) option"

text \<open>A lost connection gives up the attempt of its worker and marks the worker dead.\<close>

definition detach_worker ::
  "'w net_io \<Rightarrow> 'w faultline_wal_writer_io \<Rightarrow> client \<Rightarrow> faultline_coordinator_store \<Rightarrow> 'w \<Rightarrow>
     (faultline_coordinator_store \<times> 'w) option" where
  "detach_worker net io client store w =
     do {
       (store, w) \<leftarrow>
         (if faultline_scheduler_active (st_jobs store) (c_worker_id client) \<noteq> None \<and> st_failure store = STORE_FAILURE_NONE
          then
            (case faultline_monotonic_ms net w of
               (now, _, w) \<Rightarrow>
                 do {
                   (_, store, w) \<leftarrow> faultline_store_worker_lost io store (c_worker_id client) now w;
                   Some (store, w)
                 })
          else Some (store, w));
       (case faultline_worker_mark_dead (st_workers store) (c_worker_id client) (c_fd client) of
          Inl _ \<Rightarrow> Some (store, w)
        | Inr workers \<Rightarrow> Some (store\<lparr> st_workers := workers \<rparr>, w))
     }"

definition close_client ::
  "'w net_io \<Rightarrow> 'w faultline_wal_writer_io \<Rightarrow> client \<Rightarrow> faultline_coordinator_store \<Rightarrow> 'w \<Rightarrow> 'w served" where
  "close_client net io client store w =
     do {
       (store, w) \<leftarrow>
         (if c_worker_id client \<noteq> FAULTLINE_WORKER_ID_UNASSIGNED then detach_worker net io client store w
          else Some (store, w));
       Some (client\<lparr> c_fd := - 1, c_worker_id := FAULTLINE_WORKER_ID_UNASSIGNED \<rparr>, store, net_close net (c_fd client) w)
     }"

definition reset_input :: "client \<Rightarrow> client" where
  "reset_input client = client\<lparr> c_input := [], c_expected := FAULTLINE_HEADER_SIZE, c_phase := READING_MESSAGE \<rparr>"

section \<open>Replies\<close>

definition queue_message ::
  "'w net_io \<Rightarrow> 'w faultline_wal_writer_io \<Rightarrow> client \<Rightarrow> faultline_coordinator_store \<Rightarrow> faultline_message \<Rightarrow> 'w \<Rightarrow> 'w served" where
  "queue_message net io client store message w =
     (case faultline_message_encode CLIENT_FRAME_CAPACITY message of
        Inl _ \<Rightarrow> close_client net io client store w
      | Inr output \<Rightarrow>
          (let client = client\<lparr> c_output := output \<rparr> in
           case faultline_monotonic_ms net w of
             (now, _, w) \<Rightarrow>
               if now < 0 then close_client net io client store w
               else
                 Some (client\<lparr> c_sent := 0, c_reply_type := message_type message, c_last_progress_ms := now,
                               c_phase := WRITING_REPLY \<rparr>, store, w)))"

definition queue_reply ::
  "'w net_io \<Rightarrow> 'w faultline_wal_writer_io \<Rightarrow> client \<Rightarrow> faultline_coordinator_store \<Rightarrow> (u32 \<Rightarrow> faultline_message) \<Rightarrow> u32 \<Rightarrow> 'w \<Rightarrow>
     'w served" where
  "queue_reply net io client store reply worker_id w = queue_message net io client store (reply worker_id) w"

definition job_summary :: "faultline_job \<Rightarrow> faultline_job_summary" where
  "job_summary job =
     \<lparr> sm_job_id = j_id job, sm_task_type = task_code (j_task_type job), sm_state = state_code (j_state job),
       sm_worker_id = j_worker_id job, sm_attempt = j_attempt job, sm_retry_count = j_retry_count job,
       sm_max_retries = j_max_retries job, sm_failure = failure_code (j_failure job),
       sm_result_size = of_nat (length (j_result job)) \<rparr>"

text \<open>The entries are ordered by \<^verbatim>\<open>compare_job_summaries\<close> and \<^verbatim>\<open>compare_worker_summaries\<close>: by identifier.\<close>

definition jobs_listing :: "faultline_coordinator_store \<Rightarrow> faultline_message" where
  "jobs_listing store = MSG_JOBS_RESPONSE (sort_key sm_job_id (map job_summary (s_jobs (st_jobs store))))"

definition worker_summary :: "faultline_scheduler \<Rightarrow> int \<Rightarrow> faultline_worker \<Rightarrow> faultline_worker_summary" where
  "worker_summary jobs now worker =
     (let active = (if w_state worker = WORKER_ALIVE then faultline_scheduler_active jobs (w_id worker) else None) in
      \<lparr> ws_worker_id = w_id worker,
        ws_state = (if w_state worker = WORKER_ALIVE then WORKER_VIEW_ALIVE else WORKER_VIEW_DEAD),
        ws_heartbeat_age_ms = of_int (now - w_last_heartbeat_ms worker),
        ws_job_id = (case active of None \<Rightarrow> 0 | Some job \<Rightarrow> j_id job),
        ws_attempt = (case active of None \<Rightarrow> 0 | Some job \<Rightarrow> j_attempt job) \<rparr>)"

fun worker_summaries ::
  "faultline_scheduler \<Rightarrow> int \<Rightarrow> faultline_worker list \<Rightarrow> faultline_worker_summary list option" where
  "worker_summaries jobs now [] = Some []"
| "worker_summaries jobs now (worker # workers) =
     (if w_state worker = WORKER_UNUSED then worker_summaries jobs now workers
      else if w_last_heartbeat_ms worker < 0 \<or> now < w_last_heartbeat_ms worker then None
      else
        (case worker_summaries jobs now workers of
           None \<Rightarrow> None
         | Some entries \<Rightarrow> Some (worker_summary jobs now worker # entries)))"

definition workers_listing :: "faultline_coordinator_store \<Rightarrow> int \<Rightarrow> int \<Rightarrow> faultline_message option" where
  "workers_listing store now heartbeat_timeout_ms =
     (case worker_summaries (st_jobs store) now (r_workers (st_workers store)) of
        None \<Rightarrow> None
      | Some entries \<Rightarrow>
          Some (MSG_WORKERS_RESPONSE
            \<lparr> wl_heartbeat_timeout_ms = of_int heartbeat_timeout_ms, wl_entries = sort_key ws_worker_id entries \<rparr>))"

definition queue_listing ::
  "'w net_io \<Rightarrow> 'w faultline_wal_writer_io \<Rightarrow> client \<Rightarrow> faultline_coordinator_store \<Rightarrow> bool \<Rightarrow> int \<Rightarrow> 'w \<Rightarrow> 'w served" where
  "queue_listing net io client store jobs_request heartbeat_timeout_ms w =
     (case faultline_monotonic_ms net w of
        (now, _, w) \<Rightarrow>
          if now < 0 then close_client net io client store w
          else
            (let client = client\<lparr> c_job_client := True \<rparr> in
             if jobs_request then queue_message net io client store (jobs_listing store) w
             else
               (case workers_listing store now heartbeat_timeout_ms of
                  None \<Rightarrow> close_client net io client store w
                | Some reply \<Rightarrow> queue_message net io client store reply w)))"

definition job_status :: "faultline_job \<Rightarrow> faultline_job_status_payload" where
  "job_status job =
     \<lparr> st_job_id = j_id job, st_state = state_code (j_state job), st_worker_id = j_worker_id job,
       st_attempt = j_attempt job, st_retry_count = j_retry_count job, st_max_retries = j_max_retries job,
       faultline_job_status_payload.st_failure = failure_code (j_failure job),
       st_result_size = length (j_result job), st_result = j_result job \<rparr>"

definition status_reply :: "faultline_coordinator_store \<Rightarrow> u64 \<Rightarrow> faultline_message" where
  "status_reply store i =
     (case faultline_scheduler_find (st_jobs store) i of
        None \<Rightarrow> MSG_JOB_STATUS_NOT_FOUND i
      | Some job \<Rightarrow> MSG_JOB_STATUS_RESPONSE (job_status job))"

section \<open>Messages\<close>

definition handle_register ::
  "'w net_io \<Rightarrow> 'w faultline_wal_writer_io \<Rightarrow> client \<Rightarrow> faultline_coordinator_store \<Rightarrow> 'w \<Rightarrow> 'w served" where
  "handle_register net io client store w =
     (if c_job_client client then close_client net io client store w
      else
        (case faultline_monotonic_ms net w of
           (now, _, w) \<Rightarrow>
             do {
               (registered, store, w) \<leftarrow> faultline_store_register io store (c_fd client) now w;
               (case registered of
                  Inl STORE_FATAL \<Rightarrow> Some (client, store, w)
                | Inl _ \<Rightarrow> close_client net io client store w
                | Inr worker_id \<Rightarrow>
                    queue_reply net io (client\<lparr> c_worker_id := worker_id \<rparr>) store MSG_WORKER_REGISTER_ACK worker_id w)
             }))"

definition handle_heartbeat ::
  "'w net_io \<Rightarrow> 'w faultline_wal_writer_io \<Rightarrow> client \<Rightarrow> faultline_coordinator_store \<Rightarrow> u32 \<Rightarrow> int \<Rightarrow> 'w \<Rightarrow> 'w served" where
  "handle_heartbeat net io client store worker_id now w =
     (if c_worker_id client = FAULTLINE_WORKER_ID_UNASSIGNED \<or> worker_id \<noteq> c_worker_id client
      then close_client net io client store w
      else
        (case faultline_worker_heartbeat (st_workers store) worker_id (c_fd client) now of
           Inl _ \<Rightarrow> close_client net io client store w
         | Inr workers \<Rightarrow> Some (reset_input client, store\<lparr> st_workers := workers \<rparr>, w)))"

definition handle_submit ::
  "'w net_io \<Rightarrow> 'w faultline_wal_writer_io \<Rightarrow> client \<Rightarrow> faultline_coordinator_store \<Rightarrow> faultline_job_submit_payload \<Rightarrow> 'w \<Rightarrow>
     'w served" where
  "handle_submit net io client store submit w =
     (if c_worker_id client \<noteq> 0 then close_client net io client store w
      else
        (case faultline_monotonic_ms net w of
           (now, _, w) \<Rightarrow>
             do {
               (accepted, store, w) \<leftarrow> faultline_store_submit io store submit now w;
               (case accepted of
                  Inl STORE_FATAL \<Rightarrow> Some (client, store, w)
                | Inl _ \<Rightarrow> close_client net io client store w
                | Inr job_id \<Rightarrow>
                    queue_message net io (client\<lparr> c_job_client := True \<rparr>) store (MSG_JOB_SUBMIT_ACK job_id) w)
             }))"

definition handle_report ::
  "'w net_io \<Rightarrow> 'w faultline_wal_writer_io \<Rightarrow> client \<Rightarrow> faultline_coordinator_store \<Rightarrow> faultline_message \<Rightarrow> 'w \<Rightarrow> 'w served" where
  "handle_report net io client store message w =
     (case faultline_monotonic_ms net w of
        (now, _, w) \<Rightarrow>
          do {
            (reported, store, w) \<leftarrow> faultline_store_report io store (c_worker_id client) message now w;
            (case reported of
               Inl STORE_FATAL \<Rightarrow> Some (client, store, w)
             | Inl _ \<Rightarrow> close_client net io client store w
             | Inr _ \<Rightarrow> Some (reset_input client, store, w))
          })"

definition handle_stats ::
  "'w net_io \<Rightarrow> 'w faultline_wal_writer_io \<Rightarrow> client \<Rightarrow> faultline_coordinator_store \<Rightarrow> int \<Rightarrow> faultline_stats_session \<Rightarrow> 'w \<Rightarrow>
     'w served" where
  "handle_stats net io client store heartbeat_timeout_ms session w =
     (let client = client\<lparr> c_job_client := True \<rparr> in
      case faultline_monotonic_ms net w of
        (now, _, w) \<Rightarrow>
          (case faultline_stats_snapshot session store now heartbeat_timeout_ms of
             None \<Rightarrow> close_client net io client store w
           | Some stats \<Rightarrow> queue_message net io client store (MSG_STATS_RESPONSE stats) w))"

definition handle_message ::
  "'w net_io \<Rightarrow> 'w faultline_wal_writer_io \<Rightarrow> client \<Rightarrow> faultline_coordinator_store \<Rightarrow> faultline_message \<Rightarrow> int \<Rightarrow> int \<Rightarrow>
     faultline_stats_session \<Rightarrow> 'w \<Rightarrow> 'w served" where
  "handle_message net io client store message now heartbeat_timeout_ms session w =
     (case message of
        MSG_PING _ \<Rightarrow> queue_reply net io client store MSG_PONG 0 w
      | MSG_WORKER_REGISTER _ \<Rightarrow> handle_register net io client store w
      | MSG_HEARTBEAT worker_id \<Rightarrow> handle_heartbeat net io client store worker_id now w
      | MSG_JOB_SUBMIT submit \<Rightarrow> handle_submit net io client store submit w
      | MSG_JOB_STATUS_REQUEST i \<Rightarrow>
          queue_message net io (client\<lparr> c_job_client := True \<rparr>) store (status_reply store i) w
      | MSG_JOB_STARTED _ \<Rightarrow> handle_report net io client store message w
      | MSG_JOB_COMPLETED _ \<Rightarrow> handle_report net io client store message w
      | MSG_JOB_FAILED _ \<Rightarrow> handle_report net io client store message w
      | MSG_JOBS_REQUEST _ \<Rightarrow> queue_listing net io client store True heartbeat_timeout_ms w
      | MSG_WORKERS_REQUEST _ \<Rightarrow> queue_listing net io client store False heartbeat_timeout_ms w
      | MSG_STATS_REQUEST _ \<Rightarrow> handle_stats net io client store heartbeat_timeout_ms session w
      | _ \<Rightarrow> close_client net io client store w)"

text \<open>The message types a connection may send, given what it already is.\<close>

definition message_allowed :: "client \<Rightarrow> u16 \<Rightarrow> bool" where
  "message_allowed client ty \<longleftrightarrow>
     ty = FAULTLINE_MSG_PING \<or>
     ty = FAULTLINE_MSG_WORKER_REGISTER \<and> \<not> c_job_client client \<or>
     (ty = FAULTLINE_MSG_JOB_SUBMIT \<or> ty = FAULTLINE_MSG_JOB_STATUS_REQUEST \<or> ty = FAULTLINE_MSG_JOBS_REQUEST \<or>
      ty = FAULTLINE_MSG_WORKERS_REQUEST \<or> ty = FAULTLINE_MSG_STATS_REQUEST) \<and> c_worker_id client = 0 \<or>
     (ty = FAULTLINE_MSG_HEARTBEAT \<or> ty = FAULTLINE_MSG_JOB_STARTED \<or> ty = FAULTLINE_MSG_JOB_COMPLETED \<or>
      ty = FAULTLINE_MSG_JOB_FAILED) \<and> c_worker_id client \<noteq> 0"

text \<open>What follows once all the expected bytes are there: the second half of \<^verbatim>\<open>read_message\<close>.\<close>

definition take_frame ::
  "'w net_io \<Rightarrow> 'w faultline_wal_writer_io \<Rightarrow> client \<Rightarrow> faultline_coordinator_store \<Rightarrow> int \<Rightarrow> int \<Rightarrow> faultline_stats_session \<Rightarrow> 'w \<Rightarrow>
     'w served" where
  "take_frame net io client store now heartbeat_timeout_ms session w =
     (if length (c_input client) = FAULTLINE_HEADER_SIZE \<and>
        (case faultline_header_decode (c_input client) of
           Inl _ \<Rightarrow> True
         | Inr header \<Rightarrow> \<not> message_allowed client (h_message_type header))
      then close_client net io client store w
      else
        (case faultline_message_decode (c_input client) of
           Inl PROTOCOL_BUFFER_TOO_SMALL \<Rightarrow>
             (case faultline_header_decode (c_input client) of
                Inl _ \<Rightarrow> close_client net io client store w
              | Inr header \<Rightarrow>
                  if unat (h_payload_length header) > CLIENT_FRAME_CAPACITY - FAULTLINE_HEADER_SIZE
                  then close_client net io client store w
                  else Some (client\<lparr> c_expected := FAULTLINE_HEADER_SIZE + unat (h_payload_length header) \<rparr>, store, w))
         | Inl _ \<Rightarrow> close_client net io client store w
         | Inr (message, _) \<Rightarrow> handle_message net io client store message now heartbeat_timeout_ms session w))"

definition read_message ::
  "'w net_io \<Rightarrow> 'w faultline_wal_writer_io \<Rightarrow> client \<Rightarrow> faultline_coordinator_store \<Rightarrow> int \<Rightarrow> int \<Rightarrow> faultline_stats_session \<Rightarrow> 'w \<Rightarrow>
     'w served" where
  "read_message net io client store now heartbeat_timeout_ms session w =
     (case net_recv net (c_fd client) (c_expected client - length (c_input client)) w of
        (Inl e, w) \<Rightarrow>
          if e \<noteq> EAGAIN \<and> e \<noteq> EINTR then close_client net io client store w else Some (client, store, w)
      | (Inr bs, w) \<Rightarrow>
          if bs = [] then close_client net io client store w
          else
            (let client = client\<lparr> c_input := c_input client @ bs, c_last_progress_ms := now \<rparr> in
             if length (c_input client) < c_expected client then Some (client, store, w)
             else take_frame net io client store now heartbeat_timeout_ms session w))"

definition write_reply ::
  "'w net_io \<Rightarrow> 'w faultline_wal_writer_io \<Rightarrow> client \<Rightarrow> faultline_coordinator_store \<Rightarrow> int \<Rightarrow> 'w \<Rightarrow> 'w served" where
  "write_reply net io client store now w =
     (case net_send net (c_fd client) (drop (c_sent client) (c_output client)) w of
        (Inl e, w) \<Rightarrow>
          if e \<noteq> EAGAIN \<and> e \<noteq> EINTR then close_client net io client store w else Some (client, store, w)
      | (Inr count, w) \<Rightarrow>
          if count = 0 then close_client net io client store w
          else
            (let client = client\<lparr> c_sent := c_sent client + count, c_last_progress_ms := now \<rparr> in
             Some (if c_sent client = length (c_output client) then reset_input client else client, store, w)))"

section \<open>The event loop\<close>

text \<open>The batch of at most \<open>n\<close> connections.\<close>

fun accept_batch :: "nat \<Rightarrow> 'w net_io \<Rightarrow> int \<Rightarrow> client list \<Rightarrow> int \<Rightarrow> 'w \<Rightarrow> client list \<times> 'w" where
  "accept_batch 0 net listener clients now w = (clients, w)"
| "accept_batch (Suc n) net listener clients now w =
     (case net_stopping net w of
        (stopping, w) \<Rightarrow>
          if stopping \<noteq> 0 then (clients, w)
          else
            (case net_accept net listener w of
               (Inl e, w) \<Rightarrow> if e = EINTR then accept_batch n net listener clients now w else (clients, w)
             | (Inr fd, w) \<Rightarrow>
                 (let slot = first_index (\<lambda>client. c_fd client < 0) clients in
                  if slot = length clients then accept_batch n net listener clients now (net_close net fd w)
                  else
                    (case faultline_set_nonblocking net fd w of
                       (Inl _, w) \<Rightarrow> accept_batch n net listener clients now (net_close net fd w)
                     | (Inr _, w) \<Rightarrow>
                         accept_batch n net listener
                           (clients[slot := zero_client\<lparr> c_fd := fd, c_phase := READING_MESSAGE,
                              c_expected := FAULTLINE_HEADER_SIZE, c_last_progress_ms := now \<rparr>]) now w))))"

definition accept_clients :: "'w net_io \<Rightarrow> int \<Rightarrow> client list \<Rightarrow> int \<Rightarrow> 'w \<Rightarrow> client list \<times> 'w" where
  "accept_clients net listener clients now w = accept_batch MAX_CLIENTS net listener clients now w"

fun poll_timeout_from :: "int \<Rightarrow> faultline_worker list \<Rightarrow> int \<Rightarrow> int \<Rightarrow> int" where
  "poll_timeout_from wait_ms [] now timeout_ms = wait_ms"
| "poll_timeout_from wait_ms (worker # workers) now timeout_ms =
     (if w_state worker = WORKER_ALIVE
      then
        (let remaining = timeout_ms - (now - w_last_heartbeat_ms worker) in
         if remaining \<le> 0 then 0 else poll_timeout_from (min remaining wait_ms) workers now timeout_ms)
      else poll_timeout_from wait_ms workers now timeout_ms)"

definition heartbeat_poll_timeout :: "faultline_worker_registry \<Rightarrow> int \<Rightarrow> int \<Rightarrow> int" where
  "heartbeat_poll_timeout registry now timeout_ms = poll_timeout_from 1000 (r_workers registry) now timeout_ms"

text \<open>A connection a job can be sent to: an idle live worker with no reply and no partial frame pending.\<close>

definition dispatchable :: "client \<Rightarrow> faultline_coordinator_store \<Rightarrow> int \<Rightarrow> int \<Rightarrow> bool" where
  "dispatchable client store now timeout_ms \<longleftrightarrow>
     (case faultline_worker_find (st_workers store) (c_worker_id client) of
        None \<Rightarrow> False
      | Some worker \<Rightarrow>
          0 \<le> c_fd client \<and> w_state worker = WORKER_ALIVE \<and> w_fd worker = c_fd client \<and>
          \<not> faultline_worker_timed_out (Some worker) now timeout_ms \<and>
          c_phase client = READING_MESSAGE \<and> c_input client = [] \<and>
          faultline_scheduler_active (st_jobs store) (c_worker_id client) = None)"

text \<open>The loop over the connections, by their slots.\<close>

fun schedule_each ::
  "'w net_io \<Rightarrow> 'w faultline_wal_writer_io \<Rightarrow> int \<Rightarrow> nat list \<Rightarrow> client list \<Rightarrow> faultline_coordinator_store \<Rightarrow> 'w \<Rightarrow>
     (int \<times> client list \<times> faultline_coordinator_store \<times> 'w) option" where
  "schedule_each net io timeout_ms [] clients store w =
     Some (if st_failure store = STORE_FAILURE_NONE then EXIT_SUCCESS else EXIT_FAILURE, clients, store, w)"
| "schedule_each net io timeout_ms (i # slots) clients store w =
     (if q_count (s_pending (st_jobs store)) = 0 then schedule_each net io timeout_ms [] clients store w
      else
        (case net_stopping net w of
           (stopping, w) \<Rightarrow>
             if stopping \<noteq> 0 \<or> st_failure store \<noteq> STORE_FAILURE_NONE
             then schedule_each net io timeout_ms [] clients store w
             else
               (case faultline_monotonic_ms net w of
                  (now, _, w) \<Rightarrow>
                    if now < 0 then Some (EXIT_FAILURE, clients, store, w)
                    else if \<not> dispatchable (clients ! i) store now timeout_ms
                    then schedule_each net io timeout_ms slots clients store w
                    else
                      do {
                        (assigned, store, w) \<leftarrow> faultline_store_assign io store (c_worker_id (clients ! i)) now w;
                        (case assigned of
                           Inl _ \<Rightarrow> Some (EXIT_FAILURE, clients, store, w)
                         | Inr assignment \<Rightarrow>
                             do {
                               (client, store, w) \<leftarrow> queue_message net io (clients ! i) store assignment w;
                               schedule_each net io timeout_ms slots (clients[i := client]) store w
                             })
                      })))"

definition schedule_jobs ::
  "'w net_io \<Rightarrow> 'w faultline_wal_writer_io \<Rightarrow> client list \<Rightarrow> faultline_coordinator_store \<Rightarrow> int \<Rightarrow> 'w \<Rightarrow>
     (int \<times> client list \<times> faultline_coordinator_store \<times> 'w) option" where
  "schedule_jobs net io clients store timeout_ms w = schedule_each net io timeout_ms [0..<MAX_CLIENTS] clients store w"

text \<open>One connection after a poll: expire it, read from it or write to it, and give up one that makes no progress.\<close>

definition serve_client ::
  "'w net_io \<Rightarrow> 'w faultline_wal_writer_io \<Rightarrow> int \<Rightarrow> faultline_stats_session \<Rightarrow> int \<Rightarrow> poll_flag set \<Rightarrow> client \<Rightarrow>
     faultline_coordinator_store \<Rightarrow> 'w \<Rightarrow> 'w served" where
  "serve_client net io heartbeat_timeout_ms session now events client store w =
     (if c_fd client < 0 then Some (client, store, w)
      else if faultline_worker_timed_out (faultline_worker_find (st_workers store) (c_worker_id client)) now heartbeat_timeout_ms
      then close_client net io client store w
      else if POLLNVAL \<in> events then close_client net io client store w
      else
        do {
          (client, store, w) \<leftarrow>
            (if c_phase client = READING_MESSAGE \<and> events \<inter> {POLLIN, POLLHUP, POLLERR} \<noteq> {}
             then read_message net io client store now heartbeat_timeout_ms session w
             else if c_phase client = WRITING_REPLY \<and> events \<inter> {POLLOUT, POLLHUP, POLLERR} \<noteq> {}
             then write_reply net io client store now w
             else Some (client, store, w));
          (if 0 \<le> c_fd client \<and>
             (c_worker_id client = FAULTLINE_WORKER_ID_UNASSIGNED \<or> c_phase client = WRITING_REPLY \<or> c_input client \<noteq> []) \<and>
             now - c_last_progress_ms client \<ge> FAULTLINE_IO_TIMEOUT_MS
           then close_client net io client store w
           else Some (client, store, w))
        })"

text \<open>The loop over the connections: the status, and the last clock reading \<open>now\<close>.\<close>

fun serve_each ::
  "'w net_io \<Rightarrow> 'w faultline_wal_writer_io \<Rightarrow> int \<Rightarrow> faultline_stats_session \<Rightarrow> poll_flag set list \<Rightarrow> nat list \<Rightarrow> int \<Rightarrow>
     client list \<Rightarrow> faultline_coordinator_store \<Rightarrow> 'w \<Rightarrow>
     (int \<times> int \<times> client list \<times> faultline_coordinator_store \<times> 'w) option" where
  "serve_each net io heartbeat_timeout_ms session revents [] now clients store w = Some (EXIT_SUCCESS, now, clients, store, w)"
| "serve_each net io heartbeat_timeout_ms session revents (i # slots) now clients store w =
     (case net_stopping net w of
        (stopping, w) \<Rightarrow>
          if stopping \<noteq> 0 \<or> st_failure store \<noteq> STORE_FAILURE_NONE then Some (EXIT_SUCCESS, now, clients, store, w)
          else
            (case faultline_monotonic_ms net w of
               (now, _, w) \<Rightarrow>
                 if now < 0 then Some (EXIT_FAILURE, now, clients, store, w)
                 else
                   do {
                     (client, store, w) \<leftarrow>
                       serve_client net io heartbeat_timeout_ms session now (revents ! (i + 1)) (clients ! i) store w;
                     serve_each net io heartbeat_timeout_ms session revents slots now (clients[i := client]) store w
                   }))"

text \<open>Accepting and scheduling, at the end of a turn. A turn ends with the status of a process that stops, or \<open>None\<close>.\<close>

definition finish_turn ::
  "'w net_io \<Rightarrow> 'w faultline_wal_writer_io \<Rightarrow> int \<Rightarrow> int \<Rightarrow> poll_flag set \<Rightarrow> int \<Rightarrow> client list \<Rightarrow> faultline_coordinator_store \<Rightarrow> 'w \<Rightarrow>
     (int option \<times> client list \<times> faultline_coordinator_store \<times> 'w) option" where
  "finish_turn net io listener heartbeat_timeout_ms events now clients store w =
     (if events \<inter> {POLLERR, POLLHUP, POLLNVAL} \<noteq> {} then Some (Some EXIT_FAILURE, clients, store, w)
      else
        (case (if POLLIN \<in> events then accept_clients net listener clients now w else (clients, w)) of
           (clients, w) \<Rightarrow>
             (case net_stopping net w of
                (stopping, w) \<Rightarrow>
                  if stopping \<noteq> 0 then Some (None, clients, store, w)
                  else
                    (case faultline_monotonic_ms net w of
                       (now, _, w) \<Rightarrow>
                         if now < 0 then Some (Some EXIT_FAILURE, clients, store, w)
                         else
                           do {
                             (status, clients, store, w) \<leftarrow> schedule_jobs net io clients store heartbeat_timeout_ms w;
                             Some (if status \<noteq> EXIT_SUCCESS then Some EXIT_FAILURE else None, clients, store, w)
                           }))))"

definition coordinator_turn ::
  "'w net_io \<Rightarrow> 'w faultline_wal_writer_io \<Rightarrow> int \<Rightarrow> int \<Rightarrow> faultline_stats_session \<Rightarrow> client list \<Rightarrow> faultline_coordinator_store \<Rightarrow>
     'w \<Rightarrow> (int option \<times> client list \<times> faultline_coordinator_store \<times> 'w) option" where
  "coordinator_turn net io listener heartbeat_timeout_ms session clients store w =
     (case faultline_monotonic_ms net w of
        (now, _, w) \<Rightarrow>
          if now < 0 then Some (Some EXIT_FAILURE, clients, store, w)
          else
            (case net_poll net
                ((listener, POLLIN) # map (\<lambda>client. (c_fd client, if c_phase client = READING_MESSAGE then POLLIN else POLLOUT)) clients)
                (heartbeat_poll_timeout (st_workers store) now heartbeat_timeout_ms) w of
               (Inl e, w) \<Rightarrow> Some (if e = EINTR then None else Some EXIT_FAILURE, clients, store, w)
             | (Inr (_, revents), w) \<Rightarrow>
                 (case faultline_monotonic_ms net w of
                    (now, _, w) \<Rightarrow>
                      if now < 0 then Some (Some EXIT_FAILURE, clients, store, w)
                      else
                        do {
                          (status, now, clients, store, w) \<leftarrow>
                            serve_each net io heartbeat_timeout_ms session revents [0..<MAX_CLIENTS] now clients store w;
                          (if st_failure store \<noteq> STORE_FAILURE_NONE \<or> status \<noteq> EXIT_SUCCESS
                           then Some (Some EXIT_FAILURE, clients, store, w)
                           else finish_turn net io listener heartbeat_timeout_ms (hd revents) now clients store w)
                        })))"

partial_function (option) serve_loop ::
  "'w net_io \<Rightarrow> 'w faultline_wal_writer_io \<Rightarrow> int \<Rightarrow> int \<Rightarrow> faultline_stats_session \<Rightarrow> client list \<Rightarrow> faultline_coordinator_store \<Rightarrow>
     'w \<Rightarrow> (int \<times> client list \<times> faultline_coordinator_store \<times> 'w) option" where
  "serve_loop net io listener heartbeat_timeout_ms session clients store w =
     (case net_stopping net w of
        (stopping, w) \<Rightarrow>
          if stopping \<noteq> 0 \<or> st_failure store \<noteq> STORE_FAILURE_NONE then Some (EXIT_SUCCESS, clients, store, w)
          else
            do {
              (outcome, clients, store, w) \<leftarrow> coordinator_turn net io listener heartbeat_timeout_ms session clients store w;
              (case outcome of
                 Some status \<Rightarrow> Some (status, clients, store, w)
               | None \<Rightarrow> serve_loop net io listener heartbeat_timeout_ms session clients store w)
            })"

definition close_sockets :: "'w net_io \<Rightarrow> client list \<Rightarrow> 'w \<Rightarrow> 'w" where
  "close_sockets net clients w = fold (\<lambda>client w. if 0 \<le> c_fd client then net_close net (c_fd client) w else w) clients w"

definition no_clients :: "client list" where
  "no_clients = replicate MAX_CLIENTS (zero_client\<lparr> c_fd := - 1 \<rparr>)"

definition run_coordinator ::
  "'w net_io \<Rightarrow> 'w faultline_wal_writer_io \<Rightarrow> int \<Rightarrow> int \<Rightarrow> faultline_coordinator_store \<Rightarrow> 'w \<Rightarrow>
     (int \<times> faultline_coordinator_store \<times> 'w) option" where
  "run_coordinator net io listener heartbeat_timeout_ms store w =
     (case faultline_monotonic_ms net w of
        (now, _, w) \<Rightarrow>
          (case faultline_stats_begin store now of
             None \<Rightarrow> Some (EXIT_FAILURE, store, w)
           | Some session \<Rightarrow>
               do {
                 (status, clients, store, w) \<leftarrow>
                   serve_loop net io listener heartbeat_timeout_ms session no_clients store w;
                 Some (if st_failure store = STORE_FAILURE_NONE then status else EXIT_FAILURE, store,
                       close_sockets net clients w)
               }))"

section \<open>The process\<close>

record coordinator_options =
  o_port :: "u16 option"
  o_heartbeat_timeout_ms :: "int option"
  o_wal :: "string option"
  o_init_wal :: bool

definition no_options :: coordinator_options where
  "no_options = \<lparr> o_port = None, o_heartbeat_timeout_ms = None, o_wal = None, o_init_wal = False \<rparr>"

text \<open>The arguments after the program's name; \<open>None\<close> is the usage error. An option that was seen has a value.\<close>

function parse_options :: "coordinator_options \<Rightarrow> string list \<Rightarrow> coordinator_options option" where
  "parse_options opts [] = Some opts"
| "parse_options opts (arg # args) =
     (if args \<noteq> [] \<and> arg = ''--port'' \<and> o_port opts = None \<and> \<not> isl (faultline_parse_port (hd args))
      then parse_options (opts\<lparr> o_port := Some (projr (faultline_parse_port (hd args))) \<rparr>) (tl args)
      else if args \<noteq> [] \<and> arg = ''--heartbeat-timeout-ms'' \<and> o_heartbeat_timeout_ms opts = None \<and>
        \<not> isl (faultline_parse_duration_ms (hd args))
      then parse_options (opts\<lparr> o_heartbeat_timeout_ms := Some (projr (faultline_parse_duration_ms (hd args))) \<rparr>) (tl args)
      else if args \<noteq> [] \<and> arg = ''--wal'' \<and> o_wal opts = None \<and> hd args \<noteq> ''''
      then parse_options (opts\<lparr> o_wal := Some (hd args) \<rparr>) (tl args)
      else if arg = ''--init-wal'' \<and> \<not> o_init_wal opts then parse_options (opts\<lparr> o_init_wal := True \<rparr>) args
      else None)"
  by pat_completeness auto
termination by (relation "measure (\<lambda>(opts, args). length args)") auto

text \<open>
  \<open>run_process\<close> starts after the store is initialised: open it, listen, serve, and close both. The
  process returns its exit status.
\<close>

definition run_process ::
  "'w net_io \<Rightarrow> 'w faultline_wal_writer_io \<Rightarrow> coordinator_options \<Rightarrow> 'w \<Rightarrow> (int \<times> faultline_coordinator_store \<times> 'w) option" where
  "run_process net io opts w =
     (let port = (case o_port opts of None \<Rightarrow> FAULTLINE_DEFAULT_PORT | Some port \<Rightarrow> port);
          heartbeat_timeout_ms = (case o_heartbeat_timeout_ms opts of None \<Rightarrow> FAULTLINE_DEFAULT_HEARTBEAT_TIMEOUT_MS | Some ms \<Rightarrow> ms);
          wal_path = (case o_wal opts of None \<Rightarrow> ''faultline.wal'' | Some path \<Rightarrow> path) in
      case faultline_monotonic_ms net w of
        (now, _, w) \<Rightarrow>
          do {
            (opened, store, w) \<leftarrow> faultline_store_open_with_io io faultline_store_init wal_path (o_init_wal opts) now w;
            (status, store, w) \<leftarrow>
              (case opened of
                 Inl _ \<Rightarrow> Some (EXIT_FAILURE, store, w)
               | Inr _ \<Rightarrow>
                   (case net_stopping net w of
                      (stopping, w) \<Rightarrow>
                        if stopping \<noteq> 0 then Some (EXIT_SUCCESS, store, w)
                        else
                          (case faultline_listen net FAULTLINE_DEFAULT_HOST port (int MAX_CLIENTS) w of
                             (Inl _, w) \<Rightarrow> Some (EXIT_FAILURE, store, w)
                           | (Inr listener, w) \<Rightarrow>
                               do {
                                 (status, store, w) \<leftarrow> run_coordinator net io listener heartbeat_timeout_ms store w;
                                 Some (status, store, net_close net listener w)
                               })));
            (case faultline_store_close io store w of
               (closed, store, w) \<Rightarrow> Some (if isl closed then EXIT_FAILURE else status, store, w))
          })"

text \<open>\<open>catch_signals\<close> stands for the calls that install \<^verbatim>\<open>request_stop\<close> for SIGINT and SIGTERM.\<close>

definition coordinator_main ::
  "'w net_io \<Rightarrow> 'w faultline_wal_writer_io \<Rightarrow> ('w \<Rightarrow> (errno + unit) \<times> 'w) \<Rightarrow> string list \<Rightarrow> 'w \<Rightarrow> (int \<times> 'w) option" where
  "coordinator_main net io catch_signals args w =
     (if args = [''--help''] then Some (EXIT_SUCCESS, w)
      else
        (case parse_options no_options args of
           None \<Rightarrow> Some (EXIT_FAILURE, w)
         | Some opts \<Rightarrow>
             (case catch_signals w of
                (Inl _, w) \<Rightarrow> Some (EXIT_FAILURE, w)
              | (Inr _, w) \<Rightarrow>
                  (case faultline_ignore_sigpipe net w of
                     (Inl _, w) \<Rightarrow> Some (EXIT_FAILURE, w)
                   | (Inr _, w) \<Rightarrow>
                       (case os_allocate io w of
                          (allocated, w) \<Rightarrow>
                            if \<not> allocated then Some (EXIT_FAILURE, w)
                            else
                              do {
                                (status, _, w) \<leftarrow> run_process net io opts w;
                                Some (status, w)
                              })))))"

end
