(* ===== verification/Coordinator_Loop.thy ===== *)
theory Coordinator_Loop
  imports Coordinator_Main
begin

text \<open>
  The invariants of the coordinator's event loop.
\<close>

section \<open>What the operations of the store change\<close>

text \<open>The workers with an active attempt, and the live workers with their connections.\<close>

definition active_workers :: "faultline_scheduler \<Rightarrow> u32 set" where
  "active_workers s = j_worker_id ` {j \<in> set (s_jobs s). job_active j}"

definition live_links :: "faultline_worker_registry \<Rightarrow> (u32 \<times> int) set" where
  "live_links r = (\<lambda>v. (w_id v, w_fd v)) ` {v \<in> set (r_workers r). worker_alive v}"

text \<open>
  A usable store after an operation: a failure is latched exactly for a fatal result, a result other
  than success changes neither jobs nor workers, and success gives what the operation promises.
\<close>

definition store_effect :: "faultline_coordinator_store \<Rightarrow> store_error + 'a \<Rightarrow> faultline_coordinator_store \<Rightarrow> ('a \<Rightarrow> bool) \<Rightarrow> bool" where
  "store_effect store out store' P \<longleftrightarrow>
     st_opened store' = st_opened store \<and>
     (case out of
        Inl e \<Rightarrow> st_jobs store' = st_jobs store \<and> st_workers store' = st_workers store \<and>
          (st_failure store' \<noteq> STORE_FAILURE_NONE \<longleftrightarrow> e = STORE_FATAL)
      | Inr x \<Rightarrow> st_failure store' = STORE_FAILURE_NONE \<and> P x)"

lemma store_append_effect:
  assumes "store_append io store payload w = Some (out, store', w')" "st_failure store = STORE_FAILURE_NONE"
  shows "st_jobs store' = st_jobs store \<and> st_workers store' = st_workers store \<and> st_scratch store' = st_scratch store \<and>
    st_opened store' = st_opened store \<and> (st_failure store' = STORE_FAILURE_NONE \<longleftrightarrow> \<not> isl out)"
  using assms by (auto simp: store_append_def store_fail_def bind_eq_Some_conv Let_def split: if_splits)

lemma commit_job_effect:
  assumes "commit_job io (store\<lparr> st_scratch := s \<rparr>) i type w = Some (out, store', w')" "st_failure store = STORE_FAILURE_NONE"
  shows "store_effect store out store' (\<lambda>_. st_jobs store' = s \<and> st_workers store' = st_workers store) \<and> (out = Inl STORE_FATAL \<or> out = Inr ())"
proof (cases "faultline_scheduler_find s i")
  case None
  then show ?thesis using assms by (auto simp: commit_job_def store_effect_def)
next
  case (Some job)
  then obtain out1 store1 where append: "store_append io (store\<lparr> st_scratch := s \<rparr>) (JOB_SNAPSHOT type job) w = Some (out1, store1, w')"
    and out: "(out, store') = (case out1 of Inl _ \<Rightarrow> (Inl STORE_FATAL, store1)
      | Inr _ \<Rightarrow> (Inr (), store1\<lparr> st_jobs := st_scratch store1, st_last_job_time_ms := j_updated_at_ms job \<rparr>))"
    using assms by (fastforce simp: commit_job_def bind_eq_Some_conv split: sum.splits)
  show ?thesis using store_append_effect [OF append] assms(2) out by (cases out1) (auto simp: store_effect_def)
qed

lemma job_time_effect:
  assumes "job_time store now = Inl store'" "st_failure store = STORE_FAILURE_NONE"
  shows "store_effect store (Inl STORE_FATAL) store' P"
  using assms job_time_Inl [OF assms(1)] by (simp add: store_effect_def)

lemma active_workers_append: "\<not> job_active j \<Longrightarrow> s_jobs s' = s_jobs s @ [j] \<Longrightarrow> active_workers s' = active_workers s"
  by (auto simp: active_workers_def)

lemma active_workers_update:
  assumes "s_jobs s' = (s_jobs s)[i := c]" "job_active c \<Longrightarrow> j_worker_id c \<in> W"
  shows "active_workers s' \<subseteq> active_workers s \<union> W"
proof
  fix x assume "x \<in> active_workers s'"
  then obtain j where j: "j \<in> set ((s_jobs s)[i := c])" "job_active j" "x = j_worker_id j" using assms(1) by (auto simp: active_workers_def)
  then show "x \<in> active_workers s \<union> W"
    using set_list_update_cases [OF j(1)] assms(2) by (auto simp: active_workers_def)
qed

lemma submit_effect:
  assumes "faultline_store_submit io store submit now w = Some (out, store', w')" "usable store" "sched_wf (st_jobs store)"
  shows "store_effect store out store' (\<lambda>i. i \<noteq> 0 \<and> sched_wf (st_jobs store') \<and> st_workers store' = st_workers store \<and>
    active_workers (st_jobs store') = active_workers (st_jobs store))"
proof (cases "job_time store now")
  case (Inl store1)
  then show ?thesis using assms job_time_effect [OF Inl] by (auto simp: faultline_store_submit_def usable_def)
next
  case (Inr time)
  show ?thesis
  proof (cases "faultline_scheduler_submit (st_jobs store) submit time")
    case (Inl e)
    then show ?thesis using assms Inr by (auto simp: faultline_store_submit_def usable_def store_effect_def Let_def split: if_splits)
  next
    case found: (Inr p)
    obtain i s where p: "p = (i, s)" by fastforce
    obtain r store1 w1 where commit: "commit_job io (store\<lparr> st_scratch := s \<rparr>) i WAL_JOB_CREATED w = Some (r, store1, w1)"
      using assms Inr found p by (auto simp: faultline_store_submit_def Let_def bind_eq_Some_conv)
    have "store' = store1" "out = (case r of Inl _ \<Rightarrow> Inl STORE_FATAL | Inr _ \<Rightarrow> Inr i)"
      using assms Inr found p commit by (cases r; auto simp: faultline_store_submit_def Let_def)+
    moreover have "i \<noteq> 0 \<and> sched_wf s \<and> active_workers s = active_workers (st_jobs store)"
      using submit_Inr [OF assms(3) found [unfolded p] job_time_bound [OF Inr]]
      by (metis active_workers_append job_active_def job_state.distinct(1,3))
    ultimately show ?thesis using commit_job_effect [OF commit] assms(2)
      by (cases r) (auto simp: store_effect_def usable_def)
  qed
qed

lemma assign_effect:
  assumes "faultline_store_assign io store worker now w = Some (out, store', w')" "usable store" "sched_wf (st_jobs store)"
  shows "store_effect store out store' (\<lambda>m. sched_wf (st_jobs store') \<and> st_workers store' = st_workers store \<and>
    active_workers (st_jobs store') \<subseteq> insert worker (active_workers (st_jobs store)) \<and>
    (\<exists>c. m = assignment_message c worker \<and> worker \<noteq> 0 \<and> job_wf c \<and> j_state c = JOB_ASSIGNED))"
proof (cases "case faultline_worker_find (st_workers store) worker of None \<Rightarrow> False | Some v \<Rightarrow> w_state v = WORKER_ALIVE")
  case alive: True
  show ?thesis
  proof (cases "job_time store now")
    case (Inl store1)
    then show ?thesis using assms alive job_time_effect [OF Inl] by (auto simp: faultline_store_assign_def usable_def)
  next
    case (Inr time)
    show ?thesis
    proof (cases "faultline_scheduler_assign (st_jobs store) worker time")
      case (Inl e)
      then show ?thesis using assms alive Inr
        by (auto simp: faultline_store_assign_def usable_def store_effect_def Let_def split: if_splits)
    next
      case found: (Inr p)
      obtain m s where p: "p = (m, s)" by fastforce
      obtain r store1 w1 where commit: "commit_job io (store\<lparr> st_scratch := s \<rparr>) (assigned_job_id m) WAL_JOB_ASSIGNED w = Some (r, store1, w1)"
        using assms alive Inr found p by (auto simp: faultline_store_assign_def Let_def bind_eq_Some_conv)
      have out: "store' = store1" "out = (case r of Inl _ \<Rightarrow> Inl STORE_FATAL | Inr _ \<Rightarrow> Inr m)"
        using assms alive Inr found p commit by (cases r; auto simp: faultline_store_assign_def Let_def)+
      obtain k c where c: "worker \<noteq> 0" "Scheduler.find_slot (st_jobs store) k < length (s_jobs (st_jobs store))"
        "faultline_job_assign (s_jobs (st_jobs store) ! Scheduler.find_slot (st_jobs store) k) worker time = Inr c" "m = assignment_message c worker"
        "s_jobs s = (s_jobs (st_jobs store))[Scheduler.find_slot (st_jobs store) k := c]" "sched_wf s"
        using assign_Inr [OF assms(3) found [unfolded p] job_time_bound [OF Inr]] by metis
      have "j_worker_id c = worker" "j_state c = JOB_ASSIGNED" using c(3) by (auto simp: job_assign_Inr_iff)
      moreover have "job_wf c" using sched_wf_job [OF c(6)] c(2,5) by (metis length_list_update nth_list_update_eq nth_mem)
      ultimately show ?thesis using commit_job_effect [OF commit] assms(2) out c active_workers_update [OF c(5), of "{worker}"]
        by (cases r) (auto simp: store_effect_def usable_def)
    qed
  qed
qed (use assms in \<open>auto simp: faultline_store_assign_def usable_def store_effect_def\<close>)

lemma report_effect:
  assumes "faultline_store_report io store worker r now w = Some (out, store', w')" "usable store" "sched_wf (st_jobs store)"
  shows "store_effect store out store' (\<lambda>_. sched_wf (st_jobs store') \<and> st_workers store' = st_workers store \<and>
    active_workers (st_jobs store') \<subseteq> active_workers (st_jobs store))"
proof (cases "\<exists>v j. faultline_worker_find (st_workers store) worker = Some v \<and> w_state v = WORKER_ALIVE \<and>
    faultline_scheduler_active (st_jobs store) worker = Some j")
  case True
  then obtain v j where found: "faultline_worker_find (st_workers store) worker = Some v" "w_state v = WORKER_ALIVE"
    "faultline_scheduler_active (st_jobs store) worker = Some j" by blast
  show ?thesis
  proof (cases "job_time store now")
    case (Inl store1)
    then show ?thesis using assms found job_time_effect [OF Inl] by (auto simp: faultline_store_report_def usable_def)
  next
    case (Inr time)
    show ?thesis
    proof (cases "faultline_scheduler_report (st_jobs store) worker r time")
      case (Inl e)
      then show ?thesis using assms found Inr
        by (auto simp: faultline_store_report_def usable_def store_effect_def Let_def split: if_splits)
    next
      case reported: (Inr s)
      then obtain type where commit: "commit_job io (store\<lparr> st_scratch := s \<rparr>) (j_id j) type w = Some (out, store', w')"
        using assms found Inr by (auto simp: faultline_store_report_def Let_def)
      obtain i c where c: "s_jobs s = (s_jobs (st_jobs store))[i := c]" "sched_wf s" "i < length (s_jobs (st_jobs store))"
        "job_active (s_jobs (st_jobs store) ! i)" "job_step (s_jobs (st_jobs store) ! i) c"
        using report_Inr [OF assms(3) reported job_time_bound [OF Inr]] by metis
      have "j_worker_id c \<in> active_workers (st_jobs store)" if "job_active c"
        using active_step_worker [OF c(5,4) that] c(3,4) by (auto simp: active_workers_def)
      then have "active_workers s \<subseteq> active_workers (st_jobs store)"
        using active_workers_update [OF c(1), of "active_workers (st_jobs store)"] by simp
      then show ?thesis using commit_job_effect [OF commit] assms(2) c(2) by (auto simp: store_effect_def usable_def)
    qed
  qed
qed (use assms in \<open>auto simp: faultline_store_report_def usable_def store_effect_def split: option.splits if_splits\<close>)

lemma lost_effect:
  assumes "faultline_store_worker_lost io store worker now w = Some (out, store', w')" "usable store" "sched_wf (st_jobs store)"
    and "faultline_scheduler_active (st_jobs store) worker = Some j"
  shows "store_effect store out store' (\<lambda>_. sched_wf (st_jobs store') \<and> st_workers store' = st_workers store \<and>
      active_workers (st_jobs store') \<subseteq> active_workers (st_jobs store) - {worker}) \<and> (out = Inl STORE_FATAL \<or> out = Inr ())"
proof (cases "job_time store now")
  case (Inl store1)
  then show ?thesis using assms job_time_effect [OF Inl]
    by (auto simp: faultline_store_worker_lost_def commit_worker_loss_def usable_def)
next
  case (Inr time)
  show ?thesis
  proof (cases "faultline_scheduler_worker_lost (st_jobs store) worker time")
    case (Inl e)
    then show ?thesis using assms Inr
      by (auto simp: faultline_store_worker_lost_def commit_worker_loss_def usable_def store_effect_def Let_def)
  next
    case lost: (Inr s)
    let ?js = "s_jobs (st_jobs store)"
    obtain type where commit: "commit_job io (store\<lparr> st_scratch := s \<rparr>) (j_id j) type w = Some (out, store', w')"
      using assms Inr lost by (auto simp: faultline_store_worker_lost_def commit_worker_loss_def Let_def)
    obtain i where i: "i < length ?js" "job_active (?js ! i)" "j_worker_id (?js ! i) = worker"
      "s_jobs s = ?js[i := failed_job (?js ! i) FAILURE_WORKER_LOST time]" "sched_wf s"
      using worker_lost_Inr [OF assms(3) lost job_time_bound [OF Inr]] by metis
    have "x \<noteq> worker \<and> x \<in> active_workers (st_jobs store)" if x: "x \<in> active_workers s" for x
    proof -
      obtain k where k: "k < length ?js" "job_active (s_jobs s ! k)" "x = j_worker_id (s_jobs s ! k)"
        using x i(4) by (auto simp: active_workers_def in_set_conv_nth)
      have "k \<noteq> i" using k(1,2) i(1,4) failed_not_active by (metis nth_list_update_eq)
      then have "s_jobs s ! k = ?js ! k" using i(4) by simp
      moreover have "slots_distinct job_active j_worker_id ?js" using assms(3) by (simp add: sched_wf_def)
      ultimately show ?thesis using k i(1-3) \<open>k \<noteq> i\<close> slots_distinctD [of job_active j_worker_id ?js k i]
        by (auto simp: active_workers_def)
    qed
    then have "active_workers s \<subseteq> active_workers (st_jobs store) - {worker}" by blast
    then show ?thesis using commit_job_effect [OF commit] assms(2) i(5) by (auto simp: store_effect_def usable_def)
  qed
qed

subsection \<open>The registry\<close>

lemma live_links_update:
  assumes "slot < length (r_workers r)" "r_workers r' = (r_workers r)[slot := v]" "registry_wf r"
  shows "live_links r' = (if worker_alive (r_workers r ! slot) then live_links r - {(w_id (r_workers r ! slot), w_fd (r_workers r ! slot))} else live_links r)
     \<union> (if worker_alive v then {(w_id v, w_fd v)} else {})"
proof -
  have used: "slots_distinct worker_used w_id (r_workers r)" using assms(3) by (simp add: registry_wf_def)
  have other: "w_id (r_workers r ! k) \<noteq> w_id (r_workers r ! slot)"
    if "k < length (r_workers r)" "k \<noteq> slot" "worker_alive (r_workers r ! k)" "worker_alive (r_workers r ! slot)" for k
    using slots_distinctD [OF used, of k slot] that assms(1) by (auto simp: worker_used_def worker_alive_def)
  have old: "live_links r = {(w_id (r_workers r ! k), w_fd (r_workers r ! k)) |k. k < length (r_workers r) \<and> worker_alive (r_workers r ! k)}"
    by (auto simp: live_links_def in_set_conv_nth image_def)
  have new: "live_links r' = {(w_id (r_workers r ! k), w_fd (r_workers r ! k)) |k. k < length (r_workers r) \<and> k \<noteq> slot \<and> worker_alive (r_workers r ! k)}
      \<union> (if worker_alive v then {(w_id v, w_fd v)} else {})"
    using assms(1,2) by (auto simp: live_links_def in_set_conv_nth image_def nth_list_update split: if_splits)
  show ?thesis unfolding new old using other by auto
qed

lemma heartbeat_links:
  assumes "registry_wf r" "faultline_worker_heartbeat r i fd now = Inr r'"
  shows "live_links r' = live_links r"
proof (rule heartbeat_Inr [OF assms])
  fix slot
  assume slot: "find_live_connection r i fd = Inr slot" "slot < FAULTLINE_MAX_WORKERS"
    and r': "r' = r\<lparr> r_workers := (r_workers r)[slot := (r_workers r ! slot)\<lparr> w_last_heartbeat_ms := now \<rparr>] \<rparr>"
  let ?v = "r_workers r ! slot"
  have "worker_alive ?v" "?v \<in> set (r_workers r)" using live_connection_Inr [OF assms(1) slot(1)] by simp_all
  then have "(w_id ?v, w_fd ?v) \<in> live_links r" by (auto simp: live_links_def)
  then show ?thesis
    using live_links_update [of slot r r' "?v\<lparr> w_last_heartbeat_ms := now \<rparr>"] slot(2) assms(1) r' \<open>worker_alive ?v\<close>
    by (auto simp: worker_alive_def)
qed

lemma mark_dead_links:
  assumes "registry_wf r" "faultline_worker_mark_dead r i fd = Inr r'"
  shows "live_links r' = live_links r - {(i, fd)}"
proof (rule mark_dead_Inr [OF assms])
  fix slot
  assume slot: "find_live_connection r i fd = Inr slot" "slot < FAULTLINE_MAX_WORKERS"
    and r': "r' = r\<lparr> r_workers := (r_workers r)[slot := (r_workers r ! slot)\<lparr> w_state := WORKER_DEAD, w_fd := - 1 \<rparr>] \<rparr>"
  let ?v = "r_workers r ! slot"
  have "worker_alive ?v" "w_id ?v = i" "w_fd ?v = fd" using live_connection_Inr [OF assms(1) slot(1)] by simp_all
  then show ?thesis
    using live_links_update [of slot r r' "?v\<lparr> w_state := WORKER_DEAD, w_fd := - 1 \<rparr>"] slot(2) assms(1) r'
    by (simp add: worker_alive_def)
qed

text \<open>A live connection is always found, so its worker can be marked dead.\<close>

lemma live_link_found:
  assumes "registry_wf r" "(i, fd) \<in> live_links r"
  obtains slot where "find_live_connection r i fd = Inr slot"
proof -
  obtain k where k: "k < FAULTLINE_MAX_WORKERS" "worker_alive (r_workers r ! k)" "w_id (r_workers r ! k) = i" "w_fd (r_workers r ! k) = fd"
    using assms by (fastforce simp: live_links_def in_set_conv_nth)
  then have "find_slot r i = k" using find_slot_nth [OF assms(1) k(1)] by (auto simp: worker_used_def worker_alive_def)
  moreover have "r_workers r ! k \<in> set (r_workers r)" using k(1) assms(1) by simp
  then have "worker_wf (r_next_worker_id r) (r_workers r ! k)" using assms(1) by (simp add: registry_wf_def)
  then have "0 \<le> fd" using k(2,4) by (simp add: worker_wf_def worker_alive_def)
  ultimately show thesis using that [of k] k by (simp add: find_live_connection_def worker_alive_def)
qed

lemma register_links:
  assumes "registry_wf r" "faultline_worker_register r fd now = Inr (i, r')"
  shows "live_links r' = insert (i, fd) (live_links r)" "i \<notin> fst ` live_links r" "fd \<notin> snd ` live_links r" "i \<noteq> 0" "0 \<le> fd"
proof -
  obtain slot where slot: "slot < FAULTLINE_MAX_WORKERS" "\<not> worker_alive (r_workers r ! slot)" "0 \<le> fd" "i = r_next_worker_id r" "i \<noteq> 0"
    "\<And>w. w \<in> set (r_workers r) \<Longrightarrow> worker_alive w \<Longrightarrow> w_fd w \<noteq> fd"
    "r' = r\<lparr> r_workers := (r_workers r)[slot := \<lparr> w_id = i, w_fd = fd, w_state = WORKER_ALIVE, w_last_heartbeat_ms = now \<rparr>],
       r_next_worker_id := next_id i \<rparr>"
    using register_Inr [OF assms] by metis
  show "live_links r' = insert (i, fd) (live_links r)"
    using live_links_update [of slot r r' "\<lparr> w_id = i, w_fd = fd, w_state = WORKER_ALIVE, w_last_heartbeat_ms = now \<rparr>"] slot assms(1)
    by (simp add: worker_alive_def)
  have "w_id v \<noteq> i" if "v \<in> set (r_workers r)" "worker_alive v" for v
    using that assms(1) slot(4,5) worker_wf_id [of "r_next_worker_id r" v] by (auto simp: registry_wf_def worker_used_def worker_alive_def)
  then show "i \<notin> fst ` live_links r" by (force simp: live_links_def)
  show "fd \<notin> snd ` live_links r" using slot(6) by (force simp: live_links_def)
  show "i \<noteq> 0" "0 \<le> fd" by (rule slot)+
qed

lemma register_effect:
  assumes "faultline_store_register io store fd now w = Some (out, store', w')" "usable store" "registry_wf (st_workers store)"
  shows "store_effect store out store' (\<lambda>i. st_jobs store' = st_jobs store \<and> registry_wf (st_workers store') \<and> i \<noteq> 0 \<and> 0 \<le> fd \<and>
    live_links (st_workers store') = insert (i, fd) (live_links (st_workers store)) \<and>
    i \<notin> fst ` live_links (st_workers store) \<and> fd \<notin> snd ` live_links (st_workers store))"
proof (cases "now < 0")
  case False
  show ?thesis
  proof (cases "faultline_worker_register (st_workers store) fd now")
    case (Inl e)
    then show ?thesis using assms False by (auto simp: faultline_store_register_def usable_def store_effect_def)
  next
    case (Inr p)
    obtain i r' where p: "p = (i, r')" by fastforce
    obtain out1 store1 where append: "store_append io store (WORKER_ID i) w = Some (out1, store1, w')"
      and out: "(out, store') = (case out1 of Inl _ \<Rightarrow> (Inl STORE_FATAL, store1) | Inr _ \<Rightarrow> (Inr i, store1\<lparr> st_workers := r' \<rparr>))"
      using assms False Inr p by (fastforce simp: faultline_store_register_def usable_def bind_eq_Some_conv split: sum.splits)
    show ?thesis
      using store_append_effect [OF append] assms(2) out register_links [OF assms(3) Inr [unfolded p]] register_wf [OF assms(3) Inr [unfolded p]]
      by (cases out1) (auto simp: store_effect_def usable_def)
  qed
qed (use assms in \<open>auto simp: faultline_store_register_def usable_def store_effect_def\<close>)


section \<open>Connections and workers\<close>

text \<open>
  What holds between one connection and the store, \<open>others\<close> being the workers of the other
  connections: as long as the store has not failed, the live workers are exactly those of the
  connections, each with the descriptor of its connection, and only a live worker has an active attempt.
\<close>

definition link :: "client \<Rightarrow> (u32 \<times> int) set" where
  "link client = (if c_worker_id client = 0 then {} else {(c_worker_id client, c_fd client)})"

definition held :: "(u32 \<times> int) set \<Rightarrow> client \<Rightarrow> faultline_coordinator_store \<Rightarrow> bool" where
  "held others client store \<longleftrightarrow>
     st_opened store \<and> sched_wf (st_jobs store) \<and> registry_wf (st_workers store) \<and>
     (c_worker_id client \<noteq> 0 \<longrightarrow> c_worker_id client \<notin> fst ` others) \<and>
     (st_failure store = STORE_FAILURE_NONE \<longrightarrow>
        live_links (st_workers store) = others \<union> link client \<and>
        active_workers (st_jobs store) \<subseteq> fst ` (others \<union> link client))"

lemma held_usable: "held others client store \<Longrightarrow> st_failure store = STORE_FAILURE_NONE \<Longrightarrow> usable store"
  by (simp add: held_def usable_def)

lemma dead_held:
  assumes "st_opened store" "sched_wf (st_jobs store)" "registry_wf (st_workers store)"
    and ok: "st_failure store = STORE_FAILURE_NONE \<Longrightarrow> live_links (st_workers store) = insert (i, fd) others \<and> i \<notin> fst ` others \<and>
      active_workers (st_jobs store) \<subseteq> fst ` others"
    and store': "store' = (case faultline_worker_mark_dead (st_workers store) i fd of Inl _ \<Rightarrow> store | Inr workers \<Rightarrow> store\<lparr> st_workers := workers \<rparr>)"
    and "c_worker_id client = 0"
  shows "held others client store'"
proof (cases "faultline_worker_mark_dead (st_workers store) i fd")
  case (Inl e)
  have "(i, fd) \<notin> live_links (st_workers store)"
  proof
    assume "(i, fd) \<in> live_links (st_workers store)"
    from live_link_found [OF assms(3) this] obtain slot where "find_live_connection (st_workers store) i fd = Inr slot" .
    then show False using Inl by (simp add: faultline_worker_mark_dead_def)
  qed
  then have "st_failure store \<noteq> STORE_FAILURE_NONE" using ok by auto
  then show ?thesis using assms(1-3,6) store' Inl by (simp add: held_def)
next
  case (Inr r)
  have "(i, fd) \<notin> others" if "i \<notin> fst ` others" using that by (force simp: image_def)
  then have "st_failure store = STORE_FAILURE_NONE \<longrightarrow> live_links r = others \<and> active_workers (st_jobs store) \<subseteq> fst ` others"
    using ok mark_dead_links [OF assms(3) Inr] by auto
  then show ?thesis using assms(1,2,6) store' Inr mark_dead_wf [OF assms(3) Inr] by (simp add: held_def link_def)
qed

text \<open>A closing connection has an attempt to give up.\<close>

definition attempt_open :: "client \<Rightarrow> faultline_coordinator_store \<Rightarrow> bool" where
  "attempt_open client store \<longleftrightarrow>
     faultline_scheduler_active (st_jobs store) (c_worker_id client) \<noteq> None \<and> st_failure store = STORE_FAILURE_NONE"

lemma detach_Some:
  assumes "detach_worker net io client store w = Some (store', w')"
  obtains store1 where
    "if attempt_open client store then \<exists>now w0 out. faultline_store_worker_lost io store (c_worker_id client) now w0 = Some (out, store1, w') else store1 = store"
    "store' = (case faultline_worker_mark_dead (st_workers store1) (c_worker_id client) (c_fd client) of
        Inl _ \<Rightarrow> store1 | Inr workers \<Rightarrow> store1\<lparr> st_workers := workers \<rparr>)"
proof -
  let ?lose = "if attempt_open client store
      then (case faultline_monotonic_ms net w of (now, _, w) \<Rightarrow>
        do { (_, store, w) \<leftarrow> faultline_store_worker_lost io store (c_worker_id client) now w; Some (store, w) })
      else Some (store, w)"
  obtain p where p: "?lose = Some p" using assms unfolding detach_worker_def attempt_open_def [symmetric] by (cases ?lose) auto
  obtain store1 w1 where p': "p = (store1, w1)" by fastforce
  have "store' = (case faultline_worker_mark_dead (st_workers store1) (c_worker_id client) (c_fd client) of
      Inl _ \<Rightarrow> store1 | Inr workers \<Rightarrow> store1\<lparr> st_workers := workers \<rparr>) \<and> w1 = w'"
    using assms unfolding detach_worker_def attempt_open_def [symmetric] p p' by (simp split: sum.splits)
  then show thesis using that [of store1] p p'
    by (cases "faultline_monotonic_ms net w") (auto simp: bind_eq_Some_conv split: if_splits)
qed

lemma close_held:
  assumes "close_client net io client store w = Some (client', store', w')" "held others client store"
  shows "held others client' store'" "c_fd client' = - 1" "c_worker_id client' = 0"
proof -
  show "c_fd client' = - 1" and id': "c_worker_id client' = 0" using assms(1) by (auto simp: close_client_def bind_eq_Some_conv)
  show "held others client' store'"
  proof (cases "c_worker_id client = 0")
    case True
    then show ?thesis using assms by (auto simp: close_client_def held_def link_def)
  next
    case worker: False
    then obtain w1 where detach: "detach_worker net io client store w = Some (store', w1)"
      using assms(1) by (auto simp: close_client_def bind_eq_Some_conv)
    from detach_Some [OF detach] obtain store1 where
      store1: "if attempt_open client store then \<exists>now w0 out. faultline_store_worker_lost io store (c_worker_id client) now w0 = Some (out, store1, w1) else store1 = store"
      and store': "store' = (case faultline_worker_mark_dead (st_workers store1) (c_worker_id client) (c_fd client) of
        Inl _ \<Rightarrow> store1 | Inr workers \<Rightarrow> store1\<lparr> st_workers := workers \<rparr>)" by blast
    have base: "st_opened store" "sched_wf (st_jobs store)" "registry_wf (st_workers store)" using assms(2) by (simp_all add: held_def)
    have ok: "live_links (st_workers store) = insert (c_worker_id client, c_fd client) others" "c_worker_id client \<notin> fst ` others"
      "active_workers (st_jobs store) \<subseteq> insert (c_worker_id client) (fst ` others)" "usable store"
      if "st_failure store = STORE_FAILURE_NONE" using assms(2) worker that by (auto simp: held_def link_def usable_def)
    show ?thesis
    proof (cases "attempt_open client store")
      case False
      have idle: "c_worker_id client \<notin> active_workers (st_jobs store)" if "st_failure store = STORE_FAILURE_NONE"
        using False that worker by (auto simp: attempt_open_def active_None_iff active_workers_def)
      show ?thesis by (rule dead_held [OF base _ _ id']) (use ok idle store1 store' False in auto)
    next
      case True
      then obtain now w0 out j where run: "faultline_store_worker_lost io store (c_worker_id client) now w0 = Some (out, store1, w1)"
        and j: "faultline_scheduler_active (st_jobs store) (c_worker_id client) = Some j" and none: "st_failure store = STORE_FAILURE_NONE"
        using store1 by (auto simp: attempt_open_def)
      from lost_effect [OF run ok(4) [OF none] base(2) j]
      have "st_opened store1" "sched_wf (st_jobs store1)" "registry_wf (st_workers store1)" "st_workers store1 = st_workers store"
        "st_failure store1 = STORE_FAILURE_NONE \<longrightarrow> active_workers (st_jobs store1) \<subseteq> active_workers (st_jobs store) - {c_worker_id client}"
        using base by (auto simp: store_effect_def)
      then show ?thesis using ok(1-3) [OF none] store' by (intro dead_held [OF _ _ _ _ _ id', of store1]) auto
    qed
  qed
qed

subsection \<open>The operations of the store\<close>

lemma submit_held:
  assumes "faultline_store_submit io store submit now w = Some (out, store', w')" "held others client store"
  shows "held others client store'"
proof (cases "st_failure store = STORE_FAILURE_NONE")
  case True
  note e = submit_effect [OF assms(1) held_usable [OF assms(2) True]]
  show ?thesis using e assms(2) True by (cases out) (auto simp: held_def store_effect_def)
qed (use assms unusable_same(2) [of store io submit now w] in \<open>simp add: usable_def\<close>)

lemma report_held:
  assumes "faultline_store_report io store worker r now w = Some (out, store', w')" "held others client store"
  shows "held others client store'"
proof (cases "st_failure store = STORE_FAILURE_NONE")
  case True
  note e = report_effect [OF assms(1) held_usable [OF assms(2) True]]
  show ?thesis using e assms(2) True by (cases out) (auto simp: held_def store_effect_def dest: subsetD)
qed (use assms unusable_same(4) [of store io worker r now w] in \<open>simp add: usable_def\<close>)

lemma assign_held:
  assumes "faultline_store_assign io store (c_worker_id client) now w = Some (out, store', w')" "held others client store"
  shows "held others client store'"
proof (cases "st_failure store = STORE_FAILURE_NONE")
  case True
  note e = assign_effect [OF assms(1) held_usable [OF assms(2) True]]
  show ?thesis using e assms(2) True by (cases out) (auto simp: held_def store_effect_def link_def)
qed (use assms unusable_same(3) [of store io "c_worker_id client" now w] in \<open>simp add: usable_def\<close>)

lemma register_held:
  assumes "faultline_store_register io store (c_fd client) now w = Some (out, store', w')" "held others client store"
  shows "case out of Inl _ \<Rightarrow> held others client store' | Inr i \<Rightarrow> c_worker_id client = 0 \<and> held others (client\<lparr> c_worker_id := i \<rparr>) store'"
proof (cases "st_failure store = STORE_FAILURE_NONE")
  case True
  have wf: "registry_wf (st_workers store)" using assms(2) by (simp add: held_def)
  note e = register_effect [OF assms(1) held_usable [OF assms(2) True] wf]
  show ?thesis
  proof (cases out)
    case (Inl x)
    then show ?thesis using e assms(2) True by (auto simp: held_def store_effect_def)
  next
    case (Inr i)
    have "live_links (st_workers store) = others \<union> link client" using assms(2) True by (simp add: held_def)
    moreover have "c_worker_id client = 0"
    proof (rule ccontr)
      assume "c_worker_id client \<noteq> 0"
      then have "c_fd client \<in> snd ` live_links (st_workers store)" using calculation by (simp add: link_def image_Un)
      then show False using e Inr by (simp add: store_effect_def)
    qed
    ultimately show ?thesis using e assms(2) True Inr by (auto simp: held_def store_effect_def link_def)
  qed
qed (use assms unusable_same(1) [of store io "c_fd client" now w] in \<open>auto simp: usable_def\<close>)

lemma heartbeat_held:
  assumes "faultline_worker_heartbeat (st_workers store) i fd now = Inr workers" "held others client store"
  shows "held others client (store\<lparr> st_workers := workers \<rparr>)"
proof -
  have wf: "registry_wf (st_workers store)" using assms(2) by (simp add: held_def)
  show ?thesis using heartbeat_links [OF wf assms(1)] heartbeat_wf [OF wf assms(1)] assms(2) by (simp add: held_def)
qed

text \<open>The handlers that change the store end in one of three ways.\<close>

lemma store_error_cases:
  assumes "(case out of Inl STORE_FATAL \<Rightarrow> a | Inl _ \<Rightarrow> b | Inr x \<Rightarrow> c x) = r"
  obtains (fatal) "out = Inl STORE_FATAL" "a = r" | (refused) e where "out = Inl e" "e \<noteq> STORE_FATAL" "b = r" | (ok) x where "out = Inr x" "c x = r"
  using assms that by (cases out) (auto split: store_error.splits)

section \<open>What every handler keeps\<close>

text \<open>The calls of the network a process makes, as steps of the world.\<close>

inductive net_call :: "'w net_io \<Rightarrow> 'w \<Rightarrow> 'w \<Rightarrow> bool" for net where
  clock: "net_clock net w = (r, w') \<Longrightarrow> net_call net w w'"
| poll: "net_poll net ds timeout w = (p, w') \<Longrightarrow> net_call net w w'"
| sends: "net_send net fd data w = (n, w') \<Longrightarrow> net_call net w w'"
| recvs: "net_recv net fd want w = (b, w') \<Longrightarrow> net_call net w w'"
| getfl: "net_getfl net fd w = (f, w') \<Longrightarrow> net_call net w w'"
| setfl: "net_setfl net fd flags w = (u, w') \<Longrightarrow> net_call net w w'"
| sigpipe: "net_ignore_sigpipe net w = (u, w') \<Longrightarrow> net_call net w w'"
| socket: "net_socket net w = (s, w') \<Longrightarrow> net_call net w w'"
| reuse: "net_reuse_address net fd w = (u, w') \<Longrightarrow> net_call net w w'"
| bind: "net_bind net fd address w = (u, w') \<Longrightarrow> net_call net w w'"
| listen: "net_listen net fd backlog w = (u, w') \<Longrightarrow> net_call net w w'"
| accept: "net_accept net fd w = (s, w') \<Longrightarrow> net_call net w w'"
| closes: "net_close net fd w = w' \<Longrightarrow> net_call net w w'"
| stopping: "net_stopping net w = (n, w') \<Longrightarrow> net_call net w w'"

lemma monotonic_call: "faultline_monotonic_ms net w = (now, e, w') \<Longrightarrow> net_call net w w'"
  by (auto simp: faultline_monotonic_ms_def split: prod.splits sum.splits intro: net_call.clock)

text \<open>
  An invariant of one connection and the store: it survives the calls of the network, changes of the
  connection that keep its descriptor and its worker, the closing of the connection, and the
  operations of the store. Then it survives every handler.
\<close>

locale client_invariant =
  fixes net :: "'w net_io" and io :: "'w faultline_wal_writer_io"
    and I :: "client \<Rightarrow> faultline_coordinator_store \<Rightarrow> 'w \<Rightarrow> bool"
  assumes call_I: "I c s w \<Longrightarrow> net_call net w w' \<Longrightarrow> I c s w'"
    and same_I: "I c s w \<Longrightarrow> c_fd c' = c_fd c \<Longrightarrow> c_worker_id c' = c_worker_id c \<Longrightarrow> I c' s w"
    and close_I: "I c s w \<Longrightarrow> close_client net io c s w = Some (c', s', w') \<Longrightarrow> I c' s' w'"
    and register_I: "I c s w \<Longrightarrow> faultline_store_register io s (c_fd c) now w = Some (out, s', w') \<Longrightarrow>
      (case out of Inl _ \<Rightarrow> I c s' w' | Inr i \<Rightarrow> I (c\<lparr> c_worker_id := i \<rparr>) s' w')"
    and submit_I: "I c s w \<Longrightarrow> faultline_store_submit io s submit now w = Some (submitted, s', w') \<Longrightarrow> I c s' w'"
    and report_I: "I c s w \<Longrightarrow> faultline_store_report io s (c_worker_id c) message now w = Some (reported, s', w') \<Longrightarrow> I c s' w'"
    and assign_I: "I c s w \<Longrightarrow> faultline_store_assign io s (c_worker_id c) now w = Some (assigned, s', w') \<Longrightarrow> I c s' w'"
    and heartbeat_I: "I c s w \<Longrightarrow> faultline_worker_heartbeat (st_workers s) i (c_fd c) now = Inr workers \<Longrightarrow> I c (s\<lparr> st_workers := workers \<rparr>) w"
begin

lemma now_I: "I c s w \<Longrightarrow> faultline_monotonic_ms net w = (now, e, w') \<Longrightarrow> I c s w'"
  by (rule call_I [OF _ monotonic_call])

lemma job_client_I: "I c s w \<Longrightarrow> I (c\<lparr> c_job_client := b \<rparr>) s w"
  by (rule same_I) simp_all

lemma queue_message_I:
  assumes "I c s w" "queue_message net io c s message w = Some (c', s', w')"
  shows "I c' s' w'"
proof (cases "faultline_message_encode CLIENT_FRAME_CAPACITY message")
  case (Inl e)
  then show ?thesis using assms close_I by (simp add: queue_message_def)
next
  case (Inr bs)
  obtain now e w1 where clock: "faultline_monotonic_ms net w = (now, e, w1)" by (metis prod_cases3)
  have h: "I (c\<lparr> c_output := bs \<rparr>) s w1" by (rule same_I [OF now_I [OF assms(1) clock]]) simp_all
  show ?thesis using assms(2) Inr clock close_I [OF h] same_I [OF h, of c']
    by (auto simp: queue_message_def Let_def split: if_splits)
qed

lemma handle_register_I:
  assumes "I c s w" "handle_register net io c s w = Some (c', s', w')"
  shows "I c' s' w'"
proof (cases "c_job_client c")
  case True
  then show ?thesis using assms close_I by (simp add: handle_register_def)
next
  case False
  obtain now e w1 where clock: "faultline_monotonic_ms net w = (now, e, w1)" by (metis prod_cases3)
  obtain out s1 w2 where run: "faultline_store_register io s (c_fd c) now w1 = Some (out, s1, w2)"
    and rest: "(case out of Inl STORE_FATAL \<Rightarrow> Some (c, s1, w2) | Inl _ \<Rightarrow> close_client net io c s1 w2
      | Inr i \<Rightarrow> queue_reply net io (c\<lparr> c_worker_id := i \<rparr>) s1 MSG_WORKER_REGISTER_ACK i w2) = Some (c', s', w')"
    using assms(2) False clock by (auto simp: handle_register_def bind_eq_Some_conv)
  note h = register_I [OF now_I [OF assms(1) clock] run]
  from rest show ?thesis
  proof (cases rule: store_error_cases)
    case fatal
    then show ?thesis using h by simp
  next
    case (refused e)
    then have "I c s1 w2" using h by simp
    then show ?thesis using refused(3) by (rule close_I)
  next
    case (ok i)
    then have "I (c\<lparr> c_worker_id := i \<rparr>) s1 w2" using h by simp
    then show ?thesis using ok(2) unfolding queue_reply_def by (rule queue_message_I)
  qed
qed

lemma handle_submit_I:
  assumes "I c s w" "handle_submit net io c s submit w = Some (c', s', w')"
  shows "I c' s' w'"
proof (cases "c_worker_id c = 0")
  case True
  obtain now e w1 where clock: "faultline_monotonic_ms net w = (now, e, w1)" by (metis prod_cases3)
  obtain out s1 w2 where run: "faultline_store_submit io s submit now w1 = Some (out, s1, w2)"
    and rest: "(case out of Inl STORE_FATAL \<Rightarrow> Some (c, s1, w2) | Inl _ \<Rightarrow> close_client net io c s1 w2
      | Inr i \<Rightarrow> queue_message net io (c\<lparr> c_job_client := True \<rparr>) s1 (MSG_JOB_SUBMIT_ACK i) w2) = Some (c', s', w')"
    using assms(2) True clock by (auto simp: handle_submit_def bind_eq_Some_conv)
  note h = submit_I [OF now_I [OF assms(1) clock] run]
  from rest show ?thesis
  proof (cases rule: store_error_cases)
    case (ok i)
    then show ?thesis using queue_message_I [OF job_client_I [OF h] ok(2)] by simp
  qed (use h close_I [OF h] in auto)
qed (use assms close_I [OF assms(1)] in \<open>simp add: handle_submit_def\<close>)

lemma handle_report_I:
  assumes "I c s w" "handle_report net io c s message w = Some (c', s', w')"
  shows "I c' s' w'"
proof -
  obtain now e w1 where clock: "faultline_monotonic_ms net w = (now, e, w1)" by (metis prod_cases3)
  obtain out s1 w2 where run: "faultline_store_report io s (c_worker_id c) message now w1 = Some (out, s1, w2)"
    and rest: "(case out of Inl STORE_FATAL \<Rightarrow> Some (c, s1, w2) | Inl _ \<Rightarrow> close_client net io c s1 w2
      | Inr _ \<Rightarrow> Some (reset_input c, s1, w2)) = Some (c', s', w')"
    using assms(2) clock by (auto simp: handle_report_def bind_eq_Some_conv)
  note h = report_I [OF now_I [OF assms(1) clock] run]
  have reset: "I (reset_input c) s1 w2" by (rule same_I [OF h]) (simp_all add: reset_input_def)
  from rest show ?thesis by (cases rule: store_error_cases) (use h reset close_I [OF h] in auto)
qed

lemma handle_heartbeat_I:
  assumes "I c s w" "handle_heartbeat net io c s i now w = Some (c', s', w')"
  shows "I c' s' w'"
proof (cases "c_worker_id c = 0 \<or> i \<noteq> c_worker_id c \<or> isl (faultline_worker_heartbeat (st_workers s) i (c_fd c) now)")
  case True
  then have "close_client net io c s w = Some (c', s', w')" using assms(2) by (auto simp: handle_heartbeat_def split: if_splits sum.splits)
  with assms(1) show ?thesis by (rule close_I)
next
  case False
  then obtain workers where beat: "faultline_worker_heartbeat (st_workers s) i (c_fd c) now = Inr workers" by (cases "faultline_worker_heartbeat (st_workers s) i (c_fd c) now") auto
  have "I (reset_input c) (s\<lparr> st_workers := workers \<rparr>) w"
    by (rule same_I [OF heartbeat_I [OF assms(1) beat]]) (simp_all add: reset_input_def)
  then show ?thesis using assms(2) False beat by (simp add: handle_heartbeat_def)
qed

lemma queue_listing_I:
  assumes "I c s w" "queue_listing net io c s jobs_request timeout w = Some (c', s', w')"
  shows "I c' s' w'"
proof -
  obtain now e w1 where clock: "faultline_monotonic_ms net w = (now, e, w1)" by (metis prod_cases3)
  note h = now_I [OF assms(1) clock]
  show ?thesis using assms(2) clock close_I [OF h] close_I [OF job_client_I [OF h, of True]] queue_message_I [OF job_client_I [OF h, of True]]
    by (auto simp: queue_listing_def Let_def split: if_splits option.splits)
qed

lemma handle_stats_I:
  assumes "I c s w" "handle_stats net io c s timeout session w = Some (c', s', w')"
  shows "I c' s' w'"
proof -
  obtain now e w1 where clock: "faultline_monotonic_ms net w = (now, e, w1)" by (metis prod_cases3)
  note h = job_client_I [OF now_I [OF assms(1) clock], of True]
  show ?thesis using assms(2) clock close_I [OF h] queue_message_I [OF h] by (auto simp: handle_stats_def Let_def split: option.splits)
qed

lemma handle_message_I:
  assumes "I c s w" "handle_message net io c s message now timeout session w = Some (c', s', w')"
  shows "I c' s' w'"
  using assms(2) close_I [OF assms(1)] queue_message_I [OF assms(1)] queue_message_I [OF job_client_I [OF assms(1), of True]]
    handle_register_I [OF assms(1)] handle_heartbeat_I [OF assms(1)] handle_submit_I [OF assms(1)] handle_report_I [OF assms(1)]
    queue_listing_I [OF assms(1)] handle_stats_I [OF assms(1)]
  by (cases message) (auto simp: handle_message_def queue_reply_def)

lemma take_frame_I:
  assumes "I c s w" "take_frame net io c s now timeout session w = Some (c', s', w')"
  shows "I c' s' w'"
  using assms(2) close_I [OF assms(1)] handle_message_I [OF assms(1)] same_I [OF assms(1), of c']
  by (auto simp: take_frame_def split: if_splits sum.splits protocol_error.splits)

lemma read_message_I:
  assumes "I c s w" "read_message net io c s now timeout session w = Some (c', s', w')"
  shows "I c' s' w'"
proof -
  obtain r w1 where r: "net_recv net (c_fd c) (c_expected c - length (c_input c)) w = (r, w1)" by fastforce
  note h = call_I [OF assms(1) net_call.recvs [OF r]]
  show ?thesis
  proof (cases r)
    case (Inl e)
    then show ?thesis using assms(2) r h close_I [OF h] by (auto simp: read_message_def split: if_splits)
  next
    case (Inr bs)
    have k: "I (c\<lparr> c_input := c_input c @ bs, c_last_progress_ms := now \<rparr>) s w1" by (rule same_I [OF h]) simp_all
    show ?thesis using assms(2) r Inr k close_I [OF h] take_frame_I [OF k] by (auto simp: read_message_def Let_def split: if_splits)
  qed
qed

lemma write_reply_I:
  assumes "I c s w" "write_reply net io c s now w = Some (c', s', w')"
  shows "I c' s' w'"
proof -
  obtain r w1 where r: "net_send net (c_fd c) (drop (c_sent c) (c_output c)) w = (r, w1)" by fastforce
  note h = call_I [OF assms(1) net_call.sends [OF r]]
  show ?thesis using assms(2) r h close_I [OF h] same_I [OF h, of c']
    by (cases r) (auto simp: write_reply_def Let_def reset_input_def split: if_splits)
qed

lemma serve_client_I:
  assumes "I c s w" "serve_client net io timeout session now events c s w = Some (c', s', w')"
  shows "I c' s' w'"
proof (cases "c_fd c < 0 \<or> faultline_worker_timed_out (faultline_worker_find (st_workers s) (c_worker_id c)) now timeout \<or> POLLNVAL \<in> events")
  case True
  then show ?thesis using assms close_I [OF assms(1)] by (auto simp: serve_client_def split: if_splits)
next
  case False
  let ?act = "if c_phase c = READING_MESSAGE \<and> events \<inter> {POLLIN, POLLHUP, POLLERR} \<noteq> {}
             then read_message net io c s now timeout session w
             else if c_phase c = WRITING_REPLY \<and> events \<inter> {POLLOUT, POLLHUP, POLLERR} \<noteq> {}
             then write_reply net io c s now w
             else Some (c, s, w)"
  obtain c1 s1 w1 where act: "?act = Some (c1, s1, w1)"
    using assms(2) False unfolding serve_client_def by (cases ?act) auto
  then have h: "I c1 s1 w1" using assms(1) read_message_I [OF assms(1)] write_reply_I [OF assms(1)] by (auto split: if_splits)
  show ?thesis using assms(2) False h close_I [OF h] unfolding serve_client_def act by (auto split: if_splits)
qed

end


interpretation links: client_invariant net io "\<lambda>client store w. held others client store" for net io others
proof unfold_locales
  fix c c' :: client and s :: faultline_coordinator_store
  assume "held others c s" "c_fd c' = c_fd c" "c_worker_id c' = c_worker_id c"
  moreover from this have "link c' = link c" by (simp add: link_def)
  ultimately show "held others c' s" by (simp add: held_def)
next
  fix c :: client and s s' :: faultline_coordinator_store and w w' now out
  assume "held others c s" "faultline_store_register io s (c_fd c) now w = Some (out, s', w')"
  then show "case out of Inl _ \<Rightarrow> held others c s' | Inr i \<Rightarrow> held others (c\<lparr> c_worker_id := i \<rparr>) s'"
    using register_held by (fastforce split: sum.splits)
qed (erule close_held submit_held report_held assign_held heartbeat_held | assumption)+

section \<open>All connections\<close>

definition client_links :: "client list \<Rightarrow> (u32 \<times> int) set" where
  "client_links clients = (\<Union>client \<in> set clients. link client)"

definition other_links :: "client list \<Rightarrow> nat \<Rightarrow> (u32 \<times> int) set" where
  "other_links clients i = (\<Union>k \<in> {..<length clients} - {i}. link (clients ! k))"

definition bound :: "client list \<Rightarrow> faultline_coordinator_store \<Rightarrow> bool" where
  "bound clients store \<longleftrightarrow>
     st_opened store \<and> sched_wf (st_jobs store) \<and> registry_wf (st_workers store) \<and>
     (\<forall>i < length clients. c_worker_id (clients ! i) \<noteq> 0 \<longrightarrow> c_worker_id (clients ! i) \<notin> fst ` other_links clients i) \<and>
     (st_failure store = STORE_FAILURE_NONE \<longrightarrow>
        live_links (st_workers store) = client_links clients \<and>
        active_workers (st_jobs store) \<subseteq> fst ` client_links clients)"

lemma other_links_update: "other_links (clients[i := c]) i = other_links clients i"
  by (auto simp: other_links_def)

lemma client_links_other:
  assumes "i < length clients"
  shows "client_links (clients[i := c]) = other_links clients i \<union> link c"
proof -
  have "client_links (clients[i := c]) = (\<Union>k \<in> {..<length clients}. link (clients[i := c] ! k))"
    by (auto simp: client_links_def set_conv_nth)
  also have "{..<length clients} = insert i ({..<length clients} - {i})" using assms by auto
  also have "(\<Union>k \<in> insert i ({..<length clients} - {i}). link (clients[i := c] ! k)) = other_links (clients[i := c]) i \<union> link c"
    by (simp only: UN_insert other_links_def length_list_update nth_list_update_eq [OF assms] Un_commute)
  finally show ?thesis by (simp add: other_links_update)
qed

lemma other_links_update_other:
  assumes "k < length clients" "k \<noteq> i"
  shows "other_links (clients[i := c]) k \<subseteq> other_links clients k \<union> link c"
proof
  fix x assume "x \<in> other_links (clients[i := c]) k"
  then obtain l where l: "l < length clients" "l \<noteq> k" "x \<in> link (clients[i := c] ! l)" by (auto simp: other_links_def)
  then show "x \<in> other_links clients k \<union> link c" by (cases "l = i") (auto simp: other_links_def)
qed

lemma link_other: "k < length clients \<Longrightarrow> k \<noteq> i \<Longrightarrow> link (clients ! k) \<subseteq> other_links clients i"
  by (auto simp: other_links_def)

lemma bound_held:
  assumes "bound clients store" "i < length clients"
  shows "held (other_links clients i) (clients ! i) store"
proof -
  have "client_links clients = other_links clients i \<union> link (clients ! i)"
    using client_links_other [OF assms(2), of "clients ! i"] by simp
  then show ?thesis using assms by (simp add: bound_def held_def)
qed

lemma held_bound:
  assumes "held (other_links clients i) c store'" "bound clients store" "i < length clients"
  shows "bound (clients[i := c]) store'"
proof -
  have "c_worker_id (clients[i := c] ! k) \<notin> fst ` other_links (clients[i := c]) k"
    if k: "k < length clients" "c_worker_id (clients[i := c] ! k) \<noteq> 0" for k
  proof (cases "k = i")
    case True
    then show ?thesis using k assms(1,3) by (simp add: held_def other_links_update)
  next
    case False
    have "c_worker_id (clients ! k) \<notin> fst ` other_links clients k" using k False assms(2) by (simp add: bound_def)
    moreover have "c_worker_id (clients ! k) \<notin> fst ` link c"
    proof
      assume in_c: "c_worker_id (clients ! k) \<in> fst ` link c"
      then have "c_worker_id c = c_worker_id (clients ! k)" "c_worker_id c \<noteq> 0" by (auto simp: link_def split: if_splits)
      moreover have "c_worker_id (clients ! k) \<in> fst ` other_links clients i"
        using link_other [OF k(1) False] calculation by (force simp: link_def split: if_splits)
      ultimately show False using assms(1) by (simp add: held_def)
    qed
    ultimately show ?thesis using other_links_update_other [OF k(1) False, of c] False by auto
  qed
  then show ?thesis using assms(1) client_links_other [OF assms(3), of c] by (simp add: bound_def held_def)
qed

text \<open>A free slot belongs to no worker.\<close>

lemma bound_free:
  assumes "bound clients store" "st_failure store = STORE_FAILURE_NONE" "i < length clients" "c_fd (clients ! i) < 0"
  shows "c_worker_id (clients ! i) = 0"
proof (rule ccontr)
  assume "c_worker_id (clients ! i) \<noteq> 0"
  then have "(c_worker_id (clients ! i), c_fd (clients ! i)) \<in> live_links (st_workers store)"
    using assms(1-3) nth_mem [OF assms(3)] by (auto simp: bound_def client_links_def link_def)
  from live_link_found [OF _ this] assms(1) obtain slot where
    "find_live_connection (st_workers store) (c_worker_id (clients ! i)) (c_fd (clients ! i)) = Inr slot" by (auto simp: bound_def)
  then show False using assms(4) by (simp add: find_live_connection_def)
qed

lemma bound_new:
  assumes "bound clients store" "st_failure store = STORE_FAILURE_NONE" "i < length clients" "c_fd (clients ! i) < 0" "c_worker_id c = 0"
  shows "bound (clients[i := c]) store"
proof (rule held_bound [OF _ assms(1,3)])
  have "link (clients ! i) = {}" "link c = {}" using bound_free [OF assms(1-4)] assms(5) by (simp_all add: link_def)
  then show "held (other_links clients i) c store" using bound_held [OF assms(1,3)] assms(5) by (simp add: held_def)
qed

subsection \<open>One turn of the loops over the connections\<close>

abbreviation new_client :: "int \<Rightarrow> int \<Rightarrow> client" where
  "new_client fd now \<equiv> zero_client\<lparr> c_fd := fd, c_phase := READING_MESSAGE, c_expected := FAULTLINE_HEADER_SIZE, c_last_progress_ms := now \<rparr>"

lemma accept_batch_Suc:
  assumes "accept_batch (Suc n) net listener clients now w = (clients', w')"
  obtains (ends) "clients' = clients"
  | (skips) v where "accept_batch n net listener clients now v = (clients', w')"
  | (takes) i fd v where "i < length clients" "c_fd (clients ! i) < 0" "accept_batch n net listener (clients[i := new_client fd now]) now v = (clients', w')"
proof -
  let ?slot = "first_index (\<lambda>client. c_fd client < 0) clients"
  obtain stop w1 where stop: "net_stopping net w = (stop, w1)" by fastforce
  obtain r w2 where r: "net_accept net listener w1 = (r, w2)" by fastforce
  show thesis
  proof (cases "stop \<noteq> 0 \<or> isl r")
    case True
    then show thesis using assms stop r ends skips by (cases r) (auto split: if_splits)
  next
    case False
    then obtain fd where fd: "r = Inr fd" "stop = 0" by (cases r) auto
    obtain f w3 where f: "faultline_set_nonblocking net fd w2 = (f, w3)" by fastforce
    show thesis
    proof (cases "?slot = length clients \<or> isl f")
      case True
      then show thesis using assms stop r fd f skips by (cases f) (auto simp: Let_def split: if_splits)
    next
      case slot: False
      then have less: "?slot < length clients" using first_index_le [of "\<lambda>client. c_fd client < 0" clients] by linarith
      have "c_fd (clients ! ?slot) < 0" using first_index_holds [OF less] .
      moreover have "accept_batch n net listener (clients[?slot := new_client fd now]) now w3 = (clients', w')"
        using assms stop r fd f slot by (cases f) (simp_all add: Let_def)
      ultimately show thesis using takes less by blast
    qed
  qed
qed

lemma serve_each_Cons:
  assumes "serve_each net io timeout session revents (i # slots) now clients store w = Some (status, now', clients', store', w')"
  obtains (ends) "clients' = clients" "store' = store"
  | (serves) now1 c s v u where "st_failure store = STORE_FAILURE_NONE" "0 \<le> now1"
      "serve_client net io timeout session now1 (revents ! (i + 1)) (clients ! i) store u = Some (c, s, v)"
      "serve_each net io timeout session revents slots now1 (clients[i := c]) s v = Some (status, now', clients', store', w')"
proof -
  obtain stop w1 where stop: "net_stopping net w = (stop, w1)" by fastforce
  obtain now1 e w2 where clock: "faultline_monotonic_ms net w1 = (now1, e, w2)" by (metis prod_cases3)
  show thesis
  proof (cases "stop \<noteq> 0 \<or> st_failure store \<noteq> STORE_FAILURE_NONE \<or> now1 < 0")
    case True
    then show thesis using assms stop clock ends by (auto split: if_splits)
  next
    case False
    then obtain c s v where "serve_client net io timeout session now1 (revents ! (i + 1)) (clients ! i) store w2 = Some (c, s, v)"
      "serve_each net io timeout session revents slots now1 (clients[i := c]) s v = Some (status, now', clients', store', w')"
      using assms stop clock by (auto simp: bind_eq_Some_conv)
    then show thesis using serves [of now1 w2 c s v] False by simp
  qed
qed

lemma schedule_each_Cons:
  assumes "schedule_each net io timeout (i # slots) clients store w = Some (status, clients', store', w')"
  obtains (ends) "clients' = clients" "store' = store"
      "status = 0 \<Longrightarrow> st_failure store = STORE_FAILURE_NONE \<and> (q_count (s_pending (st_jobs store)) = 0 \<or> (\<exists>v. fst (net_stopping net v) \<noteq> 0))"
  | (skips) now v where "0 \<le> now" "\<not> dispatchable (clients ! i) store now timeout"
      "schedule_each net io timeout slots clients store v = Some (status, clients', store', w')"
  | (refused) e now v where "st_failure store = STORE_FAILURE_NONE" "0 \<le> now" "dispatchable (clients ! i) store now timeout"
      "faultline_store_assign io store (c_worker_id (clients ! i)) now v = Some (Inl e, store', w')" "clients' = clients" "status = 1"
  | (assigns) now u m s v c t x where "st_failure store = STORE_FAILURE_NONE" "0 \<le> now" "dispatchable (clients ! i) store now timeout"
      "faultline_store_assign io store (c_worker_id (clients ! i)) now u = Some (Inr m, s, v)"
      "queue_message net io (clients ! i) s m v = Some (c, t, x)"
      "schedule_each net io timeout slots (clients[i := c]) t x = Some (status, clients', store', w')"
proof -
  obtain stop w1 where stop: "net_stopping net w = (stop, w1)" by fastforce
  obtain now e w2 where clock: "faultline_monotonic_ms net w1 = (now, e, w2)" by (metis prod_cases3)
  have stop': "fst (net_stopping net w) = stop" using stop by simp
  show thesis
  proof (cases "q_count (s_pending (st_jobs store)) = 0 \<or> stop \<noteq> 0 \<or> st_failure store \<noteq> STORE_FAILURE_NONE \<or> now < 0")
    case True
    then show thesis using assms stop clock stop' by (intro ends) (auto split: if_splits intro: exI [of _ w])
  next
    case live: False
    show thesis
    proof (cases "dispatchable (clients ! i) store now timeout")
      case False
      then show thesis using assms stop clock live by (intro skips [of now w2]) auto
    next
      case True
      obtain a s v where a: "faultline_store_assign io store (c_worker_id (clients ! i)) now w2 = Some (a, s, v)"
        using assms stop clock live True by (auto simp: bind_eq_Some_conv)
      show thesis
      proof (cases a)
        case (Inl e)
        then show thesis using assms stop clock live True a by (intro refused [of now w2 e]) auto
      next
        case (Inr m)
        then obtain c t x where "queue_message net io (clients ! i) s m v = Some (c, t, x)"
          "schedule_each net io timeout slots (clients[i := c]) t x = Some (status, clients', store', w')"
          using assms stop clock live True a by (auto simp: bind_eq_Some_conv)
        then show thesis using assigns [of now w2 m s v c t x] live True a Inr by simp
      qed
    qed
  qed
qed

text \<open>The loops keep the connections and the store together.\<close>

lemma accept_batch_bound:
  assumes "accept_batch n net listener clients now w = (clients', w')" "bound clients store" "st_failure store = STORE_FAILURE_NONE"
  shows "bound clients' store \<and> length clients' = length clients"
  using assms(1,2)
proof (induction n arbitrary: clients w)
  case (Suc n)
  from Suc.prems(1) show ?case
  proof (cases rule: accept_batch_Suc)
    case (takes i fd v)
    have "bound (clients[i := new_client fd now]) store"
      by (rule bound_new [OF Suc.prems(2) assms(3) takes(1,2)]) (simp add: zero_client_def)
    from Suc.IH [OF takes(3) this] show ?thesis by simp
  qed (use Suc in auto)
qed simp

lemma serve_each_bound:
  assumes "serve_each net io timeout session revents slots now clients store w = Some (status, now', clients', store', w')"
    and "bound clients store" "list_all (\<lambda>i. i < length clients) slots"
  shows "bound clients' store' \<and> length clients' = length clients"
  using assms
proof (induction slots arbitrary: now clients store w)
  case (Cons i slots)
  have i: "i < length clients" using Cons.prems(3) by simp
  from Cons.prems(1) show ?case
  proof (cases rule: serve_each_Cons)
    case (serves now1 c s v u)
    have "bound (clients[i := c]) s" using held_bound [OF links.serve_client_I [OF bound_held [OF Cons.prems(2) i] serves(3)] Cons.prems(2) i] .
    from Cons.IH [OF serves(4) this] Cons.prems(3) show ?thesis by simp
  qed (use Cons.prems in auto)
qed simp

lemma schedule_each_bound:
  assumes "schedule_each net io timeout slots clients store w = Some (status, clients', store', w')"
    and "bound clients store" "list_all (\<lambda>i. i < length clients) slots"
  shows "bound clients' store' \<and> length clients' = length clients"
  using assms
proof (induction slots arbitrary: clients store w)
  case (Cons i slots)
  have i: "i < length clients" using Cons.prems(3) by simp
  note held = bound_held [OF Cons.prems(2) i]
  from Cons.prems(1) show ?case
  proof (cases rule: schedule_each_Cons)
    case (skips now v)
    from Cons.IH [OF skips(3) Cons.prems(2)] Cons.prems(3) show ?thesis by simp
  next
    case (refused e now v)
    have "bound (clients[i := clients ! i]) store'" by (rule held_bound [OF assign_held [OF refused(4) held] Cons.prems(2) i])
    then show ?thesis using refused(5) by simp
  next
    case (assigns now u m s v c t x)
    have "bound (clients[i := c]) t"
      by (rule held_bound [OF links.queue_message_I [OF assign_held [OF assigns(4) held] assigns(5)] Cons.prems(2) i])
    from Cons.IH [OF assigns(6) this] Cons.prems(3) show ?thesis by simp
  qed (use Cons.prems in auto)
qed (auto split: if_splits)


lemma finish_turn_Some:
  assumes "finish_turn net io listener timeout events now clients store w = Some (outcome, clients', store', w')"
  obtains clients1 v v' where "clients1 = clients \<or> accept_clients net listener clients now w = (clients1, v)"
    "clients' = clients1 \<and> store' = store \<or>
     (\<exists>status. schedule_jobs net io clients1 store timeout v' = Some (status, clients', store', w'))"
proof (cases "events \<inter> {POLLERR, POLLHUP, POLLNVAL} \<noteq> {}")
  case True
  then show thesis using assms that [of clients] by (auto simp: finish_turn_def)
next
  case False
  obtain clients1 v where a: "(if POLLIN \<in> events then accept_clients net listener clients now w else (clients, w)) = (clients1, v)" by fastforce
  obtain stop v1 where stop: "net_stopping net v = (stop, v1)" by fastforce
  obtain now1 e v2 where clock: "faultline_monotonic_ms net v1 = (now1, e, v2)" by (metis prod_cases3)
  have a': "clients1 = clients \<or> accept_clients net listener clients now w = (clients1, v)" using a by (auto split: if_splits)
  show thesis
    by (rule that [of clients1 v v2]) (use assms False a a' stop clock in \<open>auto simp: finish_turn_def bind_eq_Some_conv split: if_splits\<close>)
qed

lemma finish_turn_bound:
  assumes "finish_turn net io listener timeout events now clients store w = Some (outcome, clients', store', w')"
    and "bound clients store" "st_failure store = STORE_FAILURE_NONE" "length clients = MAX_CLIENTS"
  shows "bound clients' store' \<and> length clients' = MAX_CLIENTS"
proof -
  obtain clients1 v v' where c: "clients1 = clients \<or> accept_clients net listener clients now w = (clients1, v)"
    and rest: "clients' = clients1 \<and> store' = store \<or>
      (\<exists>status. schedule_jobs net io clients1 store timeout v' = Some (status, clients', store', w'))"
    using finish_turn_Some [OF assms(1)] by metis
  have "bound clients1 store \<and> length clients1 = MAX_CLIENTS"
    using c assms(2-4) accept_batch_bound [of MAX_CLIENTS net listener clients now w clients1 v store] by (auto simp: accept_clients_def)
  then show ?thesis using rest schedule_each_bound [of net io timeout "[0..<MAX_CLIENTS]" clients1 store v' _ clients' store' w']
    by (auto simp: schedule_jobs_def list_all_iff)
qed

lemma turn_Some:
  assumes "coordinator_turn net io listener timeout session clients store w = Some (outcome, clients', store', w')"
  obtains (same) "clients' = clients" "store' = store"
  | (serves) revents now v status now1 clients1 store1 w1 where
      "serve_each net io timeout session revents [0..<MAX_CLIENTS] now clients store v = Some (status, now1, clients1, store1, w1)"
      "clients' = clients1 \<and> store' = store1 \<or>
       st_failure store1 = STORE_FAILURE_NONE \<and>
       finish_turn net io listener timeout (hd revents) now1 clients1 store1 w1 = Some (outcome, clients', store', w')"
proof -
  obtain now e w1 where clock: "faultline_monotonic_ms net w = (now, e, w1)" by (metis prod_cases3)
  obtain p w2 where poll: "net_poll net
      ((listener, POLLIN) # map (\<lambda>client. (c_fd client, if c_phase client = READING_MESSAGE then POLLIN else POLLOUT)) clients)
      (heartbeat_poll_timeout (st_workers store) now timeout) w1 = (p, w2)" by fastforce
  obtain now2 e2 w3 where clock2: "faultline_monotonic_ms net w2 = (now2, e2, w3)" by (metis prod_cases3)
  show thesis
  proof (cases "now < 0 \<or> isl p \<or> now2 < 0")
    case True
    then show thesis using assms clock poll clock2 by (intro same; cases p) (auto simp: coordinator_turn_def split: if_splits)
  next
    case False
    then obtain n revents where p: "p = Inr (n, revents)" by (cases p) auto
    obtain status now1 clients1 store1 v where run:
      "serve_each net io timeout session revents [0..<MAX_CLIENTS] now2 clients store w3 = Some (status, now1, clients1, store1, v)"
      using assms clock poll clock2 False p by (auto simp: coordinator_turn_def bind_eq_Some_conv)
    show thesis by (rule serves [OF run]) (use assms clock poll clock2 False p run in \<open>auto simp: coordinator_turn_def split: if_splits\<close>)
  qed
qed

lemma turn_bound:
  assumes "coordinator_turn net io listener timeout session clients store w = Some (outcome, clients', store', w')"
    and "bound clients store" "length clients = MAX_CLIENTS"
  shows "bound clients' store' \<and> length clients' = MAX_CLIENTS"
  using assms(1)
proof (cases rule: turn_Some)
  case (serves revents now v status now1 clients1 store1 w1)
  have "bound clients1 store1 \<and> length clients1 = MAX_CLIENTS"
    using serve_each_bound [OF serves(1) assms(2)] assms(3) by (simp add: list_all_iff)
  then show ?thesis using serves(2) finish_turn_bound by metis
qed (use assms in simp)

section \<open>What the event loop keeps of the store\<close>

text \<open>
  An invariant of the store alone that survives the calls of the network and the steps of the store
  is an invariant of every connection, and the event loop keeps it.
\<close>

locale store_invariant =
  fixes net :: "'w net_io" and io :: "'w faultline_wal_writer_io"
    and J :: "faultline_coordinator_store \<Rightarrow> 'w \<Rightarrow> bool"
  assumes call_J: "J s w \<Longrightarrow> net_call net w w' \<Longrightarrow> J s w'"
    and step_J: "J s w \<Longrightarrow> store_step io (s, w) (s', w') \<Longrightarrow> J s' w'"
begin

lemma monotonic_J: "J s w \<Longrightarrow> faultline_monotonic_ms net w = (now, e, w') \<Longrightarrow> J s w'"
  by (rule call_J [OF _ monotonic_call])

lemma mark_dead_J:
  assumes "J s w" "s' = (case faultline_worker_mark_dead (st_workers s) i fd of Inl _ \<Rightarrow> s | Inr workers \<Rightarrow> s\<lparr> st_workers := workers \<rparr>)"
  shows "J s' w"
proof (cases "faultline_worker_mark_dead (st_workers s) i fd")
  case (Inr workers)
  from step_J [OF assms(1) store_step.live [OF registry_keep.dead [OF Inr]]] show ?thesis using assms(2) Inr by simp
qed (use assms in simp)

lemma detach_J:
  assumes "J s w" "detach_worker net io c s w = Some (s', w')"
  shows "J s' w'"
proof -
  obtain now e w1 where clock: "faultline_monotonic_ms net w = (now, e, w1)" by (metis prod_cases3)
  let ?lose = "if attempt_open c s
      then (case faultline_monotonic_ms net w of (now, _, w) \<Rightarrow>
        do { (_, store, w) \<leftarrow> faultline_store_worker_lost io s (c_worker_id c) now w; Some (store, w) })
      else Some (s, w)"
  obtain s1 w2 where lose: "?lose = Some (s1, w2)" using assms(2) unfolding detach_worker_def attempt_open_def [symmetric] by (cases ?lose) auto
  have "J s1 w2"
  proof (cases "attempt_open c s")
    case True
    then obtain out where "faultline_store_worker_lost io s (c_worker_id c) now w1 = Some (out, s1, w2)"
      using lose clock by (auto simp: bind_eq_Some_conv)
    from step_J [OF monotonic_J [OF assms(1) clock] store_step.lost [OF this]] show ?thesis .
  qed (use lose assms(1) in simp)
  moreover have "s' = (case faultline_worker_mark_dead (st_workers s1) (c_worker_id c) (c_fd c) of
      Inl _ \<Rightarrow> s1 | Inr workers \<Rightarrow> s1\<lparr> st_workers := workers \<rparr>) \<and> w2 = w'"
    using assms(2) unfolding detach_worker_def attempt_open_def [symmetric] lose by (simp split: sum.splits)
  ultimately show ?thesis using mark_dead_J by simp
qed

lemma close_client_J:
  assumes "J s w" "close_client net io c s w = Some (c', s', w')"
  shows "J s' w'"
proof -
  obtain s1 w1 where d: "(if c_worker_id c \<noteq> 0 then detach_worker net io c s w else Some (s, w)) = Some (s1, w1)"
    and s1: "s' = s1" "w' = net_close net (c_fd c) w1" using assms(2) by (auto simp: close_client_def bind_eq_Some_conv split: if_splits)
  have "J s1 w1" using d assms(1) detach_J [OF assms(1)] by (auto split: if_splits)
  from call_J [OF this net_call.closes [OF refl]] show ?thesis unfolding s1 .
qed

end

sublocale store_invariant \<subseteq> kept: client_invariant net io "\<lambda>client store w. J store w"
proof unfold_locales
  show "case out of Inl _ \<Rightarrow> J s' w' | Inr i \<Rightarrow> J s' w'"
    if "J s w" "faultline_store_register io s (c_fd c) now w = Some (out, s', w')" for c s w now out s' w'
    using step_J [OF that(1) store_step.registered [OF that(2)]] by (simp split: sum.split)
  show "J (s\<lparr> st_workers := workers \<rparr>) w"
    if "J s w" "faultline_worker_heartbeat (st_workers s) i (c_fd c) now = Inr workers" for c s w i now workers
    by (rule step_J [OF that(1) store_step.live [OF registry_keep.heartbeat [OF that(2)]]])
qed ((rule call_J close_client_J step_J [OF _ store_step.submitted] step_J [OF _ store_step.reported] step_J [OF _ store_step.assigned]; assumption) | assumption)+

context store_invariant
begin

lemma set_nonblocking_J:
  assumes "J s w" "faultline_set_nonblocking net fd w = (r, w')"
  shows "J s w'"
proof -
  obtain f w1 where f: "net_getfl net fd w = (f, w1)" by fastforce
  note h = call_J [OF assms(1) net_call.getfl [OF f]]
  show ?thesis using assms(2) f h call_J [OF h net_call.setfl] by (cases f) (auto simp: faultline_set_nonblocking_def)
qed

lemma accept_batch_J:
  assumes "J s w" "accept_batch n net listener clients now w = (clients', w')"
  shows "J s w'"
  using assms
proof (induction n arbitrary: clients w)
  case (Suc n)
  obtain stop w1 where stop: "net_stopping net w = (stop, w1)" by fastforce
  obtain r w2 where r: "net_accept net listener w1 = (r, w2)" by fastforce
  have h1: "J s w1" by (rule call_J [OF Suc.prems(1) net_call.stopping [OF stop]])
  have h2: "J s w2" by (rule call_J [OF h1 net_call.accept [OF r]])
  show ?case
  proof (cases r)
    case (Inl e)
    then show ?thesis using Suc.prems(2) Suc.IH [OF h2] h1 h2 stop r by (auto split: if_splits)
  next
    case (Inr fd)
    obtain f w3 where f: "faultline_set_nonblocking net fd w2 = (f, w3)" by fastforce
    have h3: "J s w3" by (rule set_nonblocking_J [OF h2 f])
    note closed = call_J [OF h2 net_call.closes [OF refl]] call_J [OF h3 net_call.closes [OF refl]]
    show ?thesis using Suc.prems(2) Suc.IH [OF closed(1)] Suc.IH [OF closed(2)] Suc.IH [OF h3] h1 stop r Inr f
      by (cases f) (auto simp: Let_def split: if_splits)
  qed
qed simp

lemma serve_each_J:
  assumes "J s w" "serve_each net io timeout session revents slots now clients s w = Some (status, now', clients', s', w')"
  shows "J s' w'"
  using assms
proof (induction slots arbitrary: now clients s w)
  case (Cons i slots)
  obtain stop w1 where stop: "net_stopping net w = (stop, w1)" by fastforce
  obtain now1 e w2 where clock: "faultline_monotonic_ms net w1 = (now1, e, w2)" by (metis prod_cases3)
  have h1: "J s w1" by (rule call_J [OF Cons.prems(1) net_call.stopping [OF stop]])
  have h2: "J s w2" by (rule monotonic_J [OF h1 clock])
  show ?case
  proof (cases "stop \<noteq> 0 \<or> st_failure s \<noteq> STORE_FAILURE_NONE \<or> now1 < 0")
    case True
    then show ?thesis using Cons.prems(2) stop clock h1 h2 by (auto split: if_splits)
  next
    case False
    then obtain c t v where run: "serve_client net io timeout session now1 (revents ! (i + 1)) (clients ! i) s w2 = Some (c, t, v)"
      and rest: "serve_each net io timeout session revents slots now1 (clients[i := c]) t v = Some (status, now', clients', s', w')"
      using Cons.prems(2) stop clock by (auto simp: bind_eq_Some_conv)
    show ?thesis by (rule Cons.IH [OF kept.serve_client_I [OF h2 run] rest])
  qed
qed simp

lemma schedule_each_J:
  assumes "J s w" "schedule_each net io timeout slots clients s w = Some (status, clients', s', w')"
  shows "J s' w'"
  using assms
proof (induction slots arbitrary: clients s w)
  case (Cons i slots)
  obtain stop w1 where stop: "net_stopping net w = (stop, w1)" by fastforce
  obtain now e w2 where clock: "faultline_monotonic_ms net w1 = (now, e, w2)" by (metis prod_cases3)
  have h1: "J s w1" by (rule call_J [OF Cons.prems(1) net_call.stopping [OF stop]])
  have h2: "J s w2" by (rule monotonic_J [OF h1 clock])
  show ?case
  proof (cases "q_count (s_pending (st_jobs s)) = 0 \<or> stop \<noteq> 0 \<or> st_failure s \<noteq> STORE_FAILURE_NONE \<or> now < 0 \<or>
      \<not> dispatchable (clients ! i) s now timeout")
    case True
    then show ?thesis using Cons.prems Cons.IH [OF h2] stop clock h1 h2 by (auto split: if_splits)
  next
    case False
    obtain a t v where a: "faultline_store_assign io s (c_worker_id (clients ! i)) now w2 = Some (a, t, v)"
      using Cons.prems(2) stop clock False by (auto simp: bind_eq_Some_conv)
    have h3: "J t v" by (rule step_J [OF h2 store_step.assigned [OF a]])
    show ?thesis
    proof (cases a)
      case (Inl e)
      then show ?thesis using Cons.prems(2) stop clock False a h3 by auto
    next
      case (Inr m)
      then obtain c u x where run: "queue_message net io (clients ! i) t m v = Some (c, u, x)"
        and rest: "schedule_each net io timeout slots (clients[i := c]) u x = Some (status, clients', s', w')"
        using Cons.prems(2) stop clock False a by (auto simp: bind_eq_Some_conv)
      show ?thesis by (rule Cons.IH [OF kept.queue_message_I [OF h3 run] rest])
    qed
  qed
qed (auto split: if_splits)

end

end
