(* ===== verification/Log.thy ===== *)
theory Log
  imports Prelude
begin

text \<open>
  The escaping of untrusted bytes in log lines (\<^verbatim>\<open>faultline_log_escape\<close> of \<^verbatim>\<open>src/common/log.c\<close>). A byte
  that is printable and neither a quote nor a backslash stands for itself, every other byte becomes
  a backslash, an x and two hexadecimal digits. The lemmas show that the text is printable, holds no
  quote, fits the buffers the callers provide, and can be read back.
\<close>

unbundle bit_operations_syntax

definition printable :: "u8 \<Rightarrow> bool" where
  "printable byte \<longleftrightarrow> byte \<ge> 0x20 \<and> byte \<le> 0x7e \<and> byte \<noteq> 0x22 \<and> byte \<noteq> 0x5c"

definition hex_char :: "u8 \<Rightarrow> u8" where
  "hex_char n = [0x30, 0x31, 0x32, 0x33, 0x34, 0x35, 0x36, 0x37, 0x38, 0x39, 0x61, 0x62, 0x63, 0x64, 0x65, 0x66] ! unat n"

definition escape_byte :: "u8 \<Rightarrow> bytes" where
  "escape_byte byte =
     (if printable byte then [byte] else [0x5c, 0x78, hex_char (drop_bit 4 byte), hex_char (byte AND 15)])"

definition escape_needed :: "bytes \<Rightarrow> nat" where
  "escape_needed bytes = 1 + sum_list (map (\<lambda>byte. if printable byte then 1 else 4) bytes)"

text \<open>The text without its terminating zero, \<open>None\<close> when the buffer of \<open>capacity\<close> bytes is too small.\<close>

definition faultline_log_escape :: "nat \<Rightarrow> bytes \<Rightarrow> bytes option" where
  "faultline_log_escape capacity bytes =
     (if length bytes > (2 ^ 64 - 2) div 4 then None
      else if escape_needed bytes > capacity then None
      else Some (concat (map escape_byte bytes)))"

section \<open>Reading back\<close>

definition hex_value :: "u8 \<Rightarrow> u8" where
  "hex_value c = (if c \<le> 0x39 then c - 0x30 else c - 0x57)"

fun unescape :: "bytes \<Rightarrow> bytes" where
  "unescape (b # x # h # l # rest) =
     (if b = 0x5c then (push_bit 4 (hex_value h) OR hex_value l) # unescape rest else b # unescape (x # h # l # rest))"
| "unescape (b # rest) = b # unescape rest"
| "unescape [] = []"

lemma hex_nibble: "n < 16 \<Longrightarrow> hex_value (hex_char n) = n \<and> printable (hex_char n)"
proof -
  assume "n < 16"
  then have "unat n < 16" by (simp add: word_less_nat_alt)
  then have "n = of_nat (unat n)" "unat n \<in> set [0..<16]" by auto
  moreover have "\<forall>k \<in> set [0..<16]. hex_value (hex_char (of_nat k)) = of_nat k \<and> printable (hex_char (of_nat k))"
    by code_simp
  ultimately show ?thesis by metis
qed

lemma nibbles: "drop_bit 4 (b :: u8) < 16" "b AND 15 < 16" "push_bit 4 (drop_bit 4 b) OR (b AND 15) = b"
proof -
  have "unat b < 2 ^ LENGTH(8)" by (rule unsigned_less)
  then show "drop_bit 4 b < 16"
    by (simp add: word_less_nat_alt drop_bit_eq_div unat_div)
  have m: "b AND 15 = take_bit 4 b" by (simp add: take_bit_eq_mask mask_eq_exp_minus_1)
  show "b AND 15 < 16" unfolding m by (simp add: take_bit_eq_mod word_less_nat_alt unat_mod)
  show "push_bit 4 (drop_bit 4 b) OR (b AND 15) = b" unfolding m by (rule bit_word_eqI) (auto simp: bit_simps)
qed

lemma escape_code:
  "push_bit 4 (hex_value (hex_char (drop_bit 4 b))) OR hex_value (hex_char (b AND 15)) = b"
  "printable (hex_char (drop_bit 4 b))" "printable (hex_char (b AND 15))"
  using hex_nibble [OF nibbles(1)] hex_nibble [OF nibbles(2)] nibbles(3) [of b] by simp_all

lemma printable_x: "printable 0x78"
  by (simp add: printable_def)

lemma unescape_printable: "printable b \<Longrightarrow> unescape (b # rest) = b # unescape rest"
  by (cases "(b # rest)" rule: unescape.cases) (auto simp: printable_def)

lemma unescape_escape: "unescape (concat (map escape_byte bytes)) = bytes"
  by (induction bytes) (auto simp: escape_byte_def unescape_printable escape_code)

lemma escape_length: "length (concat (map escape_byte bytes)) + 1 = escape_needed bytes"
  by (induction bytes) (auto simp: escape_byte_def escape_needed_def)

lemma escape_needed_bound: "escape_needed bytes \<le> 4 * length bytes + 1"
  by (induction bytes) (auto simp: escape_needed_def)

text \<open>Claim C37. Escaping is total on the callers' buffers, safe and reversible. A buffer of four bytes for
  each byte and one more is enough; the text together with its terminating zero never passes the
  capacity; it holds printable characters only and no quote, so it cannot end the quoted field it is
  logged in; and unescaping gives back the bytes exactly.\<close>

theorem escaping_reversible:
  "(length bytes \<le> (2 ^ 64 - 2) div 4 \<longrightarrow> 4 * length bytes + 1 \<le> capacity \<longrightarrow> faultline_log_escape capacity bytes \<noteq> None) \<and>
   (\<forall>text. faultline_log_escape capacity bytes = Some text \<longrightarrow>
      length text + 1 \<le> capacity \<and> list_all (\<lambda>c. printable c \<or> c = 0x5c) text \<and> unescape text = bytes)"
proof -
  have "list_all (\<lambda>c. printable c \<or> c = 0x5c) (concat (map escape_byte bytes))"
    by (induction bytes) (auto simp: escape_byte_def escape_code printable_x)
  then show ?thesis using escape_length [of bytes] escape_needed_bound [of bytes] unescape_escape [of bytes]
    by (auto simp: faultline_log_escape_def split: if_splits)
qed

theorem escaping_reversible_witness:
  "\<exists>text. faultline_log_escape 16 [0x41, 0x22, 0x0a] = Some text \<and> unescape text = [0x41, 0x22, 0x0a]"
  using escaping_reversible [of "[0x41, 0x22, 0x0a]" 16] by (simp; blast)

end
