(* ===== verification/Task.thy ===== *)
theory Task
  imports Job Net Log
begin

text \<open>
  The built-in tasks a worker runs (\<^verbatim>\<open>include/task.h\<close>, \<^verbatim>\<open>src/worker/task.c\<close>). The cancel flag is read
  through the environment, since another thread may set it between any two reads. The loops count in
  64-bit words as the code does; they are partial, and the lemmas show that the limits on the
  arguments make them return, that no word wraps, and that the results are the mathematical ones.
\<close>

unbundle bit_operations_syntax

section \<open>Data\<close>

definition FAULTLINE_SLEEP_MAX_MS :: u64 where "FAULTLINE_SLEEP_MAX_MS = 86400000"
definition FAULTLINE_PRIME_COUNT_MAX :: u64 where "FAULTLINE_PRIME_COUNT_MAX = 100000000"
definition FAULTLINE_FIBONACCI_MAX :: u64 where "FAULTLINE_FIBONACCI_MAX = 93"

text \<open>The statuses other than OK; OK comes with the bytes of the result.\<close>

datatype task_error = TASK_INVALID_ARGUMENT | TASK_CANCELLED | TASK_SYSTEM_ERROR

record 'w task_io =
  task_net :: "'w net_io"
  task_cancelled :: "'w \<Rightarrow> bool \<times> 'w"
  task_nanosleep :: "int \<Rightarrow> 'w \<Rightarrow> (errno + unit) \<times> 'w"

type_synonym ('a, 'w) task_outcome = "((task_error + 'a) \<times> 'w) option"

section \<open>Arguments\<close>

definition number_step :: "u64 \<Rightarrow> u64 \<Rightarrow> nat \<Rightarrow> u64 option" where
  "number_step limit v digit =
     (if v > limit div 10 \<or> v = limit div 10 \<and> of_nat digit > limit mod 10 then None
      else Some (v * 10 + of_nat digit))"

definition parse_number :: "bytes \<Rightarrow> u64 \<Rightarrow> u64 option" where
  "parse_number bytes limit =
     (if bytes = [] then None else scan_digits (number_step limit) 0 (map unat bytes))"

section \<open>Sleeping\<close>

partial_function (option) sleep_loop :: "'w task_io \<Rightarrow> int \<Rightarrow> 'w \<Rightarrow> (unit, 'w) task_outcome" where
  "sleep_loop io deadline w =
     (case task_cancelled io w of
        (cancelled, w) \<Rightarrow>
          if cancelled then Some (Inl TASK_CANCELLED, w)
          else
            (case faultline_monotonic_ms (task_net io) w of
               (now, _, w) \<Rightarrow>
                 if now < 0 then Some (Inl TASK_SYSTEM_ERROR, w)
                 else if now \<ge> deadline then Some (Inr (), w)
                 else
                   (let remaining = deadline - now;
                        slice_ms = (if remaining > 20 then 20 else remaining) in
                    case task_nanosleep io (slice_ms * 1000000) w of
                      (Inl e, w) \<Rightarrow> if e \<noteq> EINTR then Some (Inl TASK_SYSTEM_ERROR, w) else sleep_loop io deadline w
                    | (Inr _, w) \<Rightarrow> sleep_loop io deadline w)))"

definition run_sleep :: "'w task_io \<Rightarrow> u64 \<Rightarrow> 'w \<Rightarrow> (unit, 'w) task_outcome" where
  "run_sleep io duration w =
     (case faultline_monotonic_ms (task_net io) w of
        (start, _, w) \<Rightarrow>
          if start < 0 then Some (Inl TASK_SYSTEM_ERROR, w)
          else sleep_loop io (start + int (unat duration)) w)"

section \<open>Counting primes\<close>

text \<open>Whether no odd divisor from \<open>divisor\<close> on, up to the square root, divides the candidate.\<close>

partial_function (option) trial_division :: "'w task_io \<Rightarrow> u64 \<Rightarrow> u64 \<Rightarrow> 'w \<Rightarrow> (bool, 'w) task_outcome" where
  "trial_division io candidate divisor w =
     (if divisor \<le> candidate div divisor
      then
        (case task_cancelled io w of
           (cancelled, w) \<Rightarrow>
             if cancelled then Some (Inl TASK_CANCELLED, w)
             else if candidate mod divisor = 0 then Some (Inr False, w)
             else trial_division io candidate (divisor + 2) w)
      else Some (Inr True, w))"

partial_function (option) count_primes :: "'w task_io \<Rightarrow> u64 \<Rightarrow> u64 \<Rightarrow> u64 \<Rightarrow> 'w \<Rightarrow> (u64, 'w) task_outcome" where
  "count_primes io number candidate count w =
     (if candidate \<le> number
      then
        (case task_cancelled io w of
           (cancelled, w) \<Rightarrow>
             if cancelled then Some (Inl TASK_CANCELLED, w)
             else
               do {
                 (prime, w) \<leftarrow> trial_division io candidate 3 w;
                 (case prime of
                    Inl e \<Rightarrow> Some (Inl e, w)
                  | Inr p \<Rightarrow> count_primes io number (candidate + 2) (if p then count + 1 else count) w)
               })
      else Some (Inr count, w))"

section \<open>Fibonacci numbers and the hash\<close>

text \<open>\<open>fibonacci_loop n\<close> is \<open>n\<close> iterations of the loop from the two numbers held.\<close>

primrec fibonacci_loop :: "nat \<Rightarrow> u64 \<Rightarrow> u64 \<Rightarrow> u64" where
  "fibonacci_loop 0 previous current = current"
| "fibonacci_loop (Suc n) previous current = fibonacci_loop n current (previous + current)"

definition fibonacci :: "u64 \<Rightarrow> u64" where
  "fibonacci number = (if number = 0 then 0 else fibonacci_loop (unat number - 1) 0 1)"

definition fnv1a :: "bytes \<Rightarrow> u64" where
  "fnv1a arguments = foldl (\<lambda>hash byte. (hash XOR ucast byte) * 1099511628211) 14695981039346656037 arguments"

section \<open>Printing\<close>

text \<open>The conversions \<^verbatim>\<open>%PRIu64\<close> and \<^verbatim>\<open>%016PRIx64\<close>.\<close>

fun print_decimal :: "nat \<Rightarrow> bytes" where
  "print_decimal n =
     (if n < 10 then [48 + of_nat n] else print_decimal (n div 10) @ [48 + of_nat (n mod 10)])"

declare print_decimal.simps [simp del]

definition print_hex16 :: "u64 \<Rightarrow> bytes" where
  "print_hex16 v = map (\<lambda>i. hex_char (ucast (drop_bit (4 * i) v AND 15))) (rev [0..<16])"

definition slept_prefix :: bytes where
  "slept_prefix = map of_char ''slept_ms=''"

section \<open>Executing a task\<close>

definition task_limit :: "u16 \<Rightarrow> u64 option" where
  "task_limit task_type =
     (if task_type = task_code TASK_SLEEP then Some FAULTLINE_SLEEP_MAX_MS
      else if task_type = task_code TASK_PRIME_COUNT then Some FAULTLINE_PRIME_COUNT_MAX
      else if task_type = task_code TASK_FIBONACCI then Some FAULTLINE_FIBONACCI_MAX
      else if task_type = task_code TASK_HASH then Some 0
      else None)"

text \<open>The text a task prints, before it is checked against the result buffer.\<close>

definition task_text :: "'w task_io \<Rightarrow> u16 \<Rightarrow> u64 \<Rightarrow> bytes \<Rightarrow> 'w \<Rightarrow> (bytes, 'w) task_outcome" where
  "task_text io task_type number arguments w =
     (if task_type = task_code TASK_SLEEP
      then
        do {
          (slept, w) \<leftarrow> run_sleep io number w;
          Some (case slept of Inl e \<Rightarrow> Inl e | Inr _ \<Rightarrow> Inr (slept_prefix @ print_decimal (unat number)), w)
        }
      else if task_type = task_code TASK_PRIME_COUNT
      then
        do {
          (counted, w) \<leftarrow> count_primes io number 3 (if number \<ge> 2 then 1 else 0) w;
          Some (case counted of Inl e \<Rightarrow> Inl e | Inr count \<Rightarrow> Inr (print_decimal (unat count)), w)
        }
      else if task_type = task_code TASK_FIBONACCI
      then Some (Inr (print_decimal (unat (fibonacci number))), w)
      else Some (Inr (print_hex16 (fnv1a arguments)), w))"

definition faultline_task_execute :: "'w task_io \<Rightarrow> u16 \<Rightarrow> bytes \<Rightarrow> 'w \<Rightarrow> (bytes, 'w) task_outcome" where
  "faultline_task_execute io task_type arguments w =
     (if length arguments > FAULTLINE_JOB_MAX_ARGUMENT_SIZE then Some (Inl TASK_INVALID_ARGUMENT, w)
      else
        (case task_cancelled io w of
           (cancelled, w) \<Rightarrow>
             if cancelled then Some (Inl TASK_CANCELLED, w)
             else
               (case task_limit task_type of
                  None \<Rightarrow> Some (Inl TASK_INVALID_ARGUMENT, w)
                | Some limit \<Rightarrow>
                    (case (if task_type = task_code TASK_HASH then Some 0 else parse_number arguments limit) of
                       None \<Rightarrow> Some (Inl TASK_INVALID_ARGUMENT, w)
                     | Some number \<Rightarrow>
                         do {
                           (text, w) \<leftarrow> task_text io task_type number arguments w;
                           (case text of
                              Inl e \<Rightarrow> Some (Inl e, w)
                            | Inr result \<Rightarrow>
                                if length result \<ge> FAULTLINE_JOB_MAX_RESULT_SIZE then Some (Inl TASK_SYSTEM_ERROR, w)
                                else
                                  (case task_cancelled io w of
                                     (cancelled, w) \<Rightarrow>
                                       if cancelled then Some (Inl TASK_CANCELLED, w) else Some (Inr result, w)))
                         }))))"

section \<open>Numbers\<close>

lemma unat_u64_less: "unat (v :: u64) < 2 ^ 64"
proof -
  have "unat v < 2 ^ LENGTH(64)" by (rule unsigned_less)
  then show ?thesis by simp
qed

lemma above_limit_iff:
  assumes "digit \<le> 9"
  shows "v > limit div 10 \<or> v = limit div 10 \<and> digit > limit mod 10 \<longleftrightarrow> limit < v * 10 + (digit :: nat)"
proof -
  define q r where "q = limit div 10" and "r = limit mod 10"
  then have "limit = q * 10 + r" "r \<le> 9" by simp_all
  then show ?thesis unfolding q_def [symmetric] r_def [symmetric] using assms by (cases v q rule: linorder_cases) auto
qed

lemma number_step_iff:
  assumes "digit \<le> 9"
  shows "v > limit div 10 \<or> v = limit div 10 \<and> of_nat digit > limit mod 10 \<longleftrightarrow> unat (limit :: u64) < unat v * 10 + digit"
proof -
  have "unat (of_nat digit :: u64) = digit" using assms by (simp add: unat_of_nat take_bit_nat_eq_self)
  then have "v > limit div 10 \<or> v = limit div 10 \<and> of_nat digit > limit mod 10 \<longleftrightarrow>
      unat v > unat limit div 10 \<or> unat v = unat limit div 10 \<and> digit > unat limit mod 10"
    by (simp add: word_less_nat_alt unat_div unat_mod word_unat_eq_iff)
  also have "\<dots> \<longleftrightarrow> unat limit < unat v * 10 + digit" by (rule above_limit_iff [OF assms])
  finally show ?thesis .
qed

interpretation number_digits: digit_accumulator "number_step limit" unat "\<lambda>_. True" "unat limit" for limit
proof unfold_locales
  fix v :: u64 and digit :: nat
  assume "digit \<le> 9"
  { assume fits: "unat v * 10 + digit \<le> unat limit"
    then have "number_step limit v digit = Some (v * 10 + of_nat digit)"
      unfolding number_step_def number_step_iff [OF \<open>digit \<le> 9\<close>] by simp
    moreover have "unat (v * 10 + of_nat digit) = unat v * 10 + digit"
      using fits unat_u64_less [of limit] by (simp add: unat_word_ariths unat_of_nat take_bit_nat_eq_self)
    ultimately show "\<exists>v'. number_step limit v digit = Some v' \<and> True \<and> unat v' = unat v * 10 + digit" by simp }
  { assume "unat limit < unat v * 10 + digit"
    then show "number_step limit v digit = None"
      unfolding number_step_def number_step_iff [OF \<open>digit \<le> 9\<close>] by simp }
qed

lemma parse_number_exact:
  "map_option unat (parse_number bytes limit) =
     (if bytes \<noteq> [] \<and> digits (map unat bytes) \<and> decimal (map unat bytes) \<le> unat limit
      then Some (decimal (map unat bytes)) else None)"
  using number_digits.scan_exact [of 0 limit "map unat bytes"] by (auto simp: parse_number_def split: if_splits)

section \<open>Fibonacci numbers\<close>

fun fib :: "nat \<Rightarrow> nat" where
  "fib 0 = 0"
| "fib (Suc 0) = 1"
| "fib (Suc (Suc n)) = fib n + fib (Suc n)"

text \<open>Two neighbours at a time, for evaluating large indices.\<close>

primrec fib_pair :: "nat \<Rightarrow> int \<times> int" where
  "fib_pair 0 = (0, 1)"
| "fib_pair (Suc n) = (case fib_pair n of (a, b) \<Rightarrow> (b, a + b))"

lemma fib_pair: "fib_pair n = (int (fib n), int (fib (Suc n)))"
  by (induction n) auto

lemma fib_93: "fib 93 = 12200160415121876738" "fib 94 = 19740274219868223167"
proof -
  have "fib_pair 93 = (12200160415121876738, 19740274219868223167)" by code_simp
  moreover have "fib 94 = fib (Suc 93)" by simp
  ultimately show "fib 93 = 12200160415121876738" "fib 94 = 19740274219868223167"
    unfolding fib_pair by (metis nat_int nat_numeral prod.inject)+
qed

lemma fib_mono: "m \<le> n \<Longrightarrow> fib m \<le> fib n"
proof (rule lift_Suc_mono_le [of fib])
  show "fib n \<le> fib (Suc n)" for n by (cases n) auto
qed

lemma fibonacci_loop_fib:
  "fibonacci_loop n (of_nat (fib k)) (of_nat (fib (Suc k))) = of_nat (fib (Suc k + n))"
proof (induction n arbitrary: k)
  case (Suc n)
  show ?case using Suc [of "Suc k"] by simp
qed simp

lemma fibonacci_exact:
  assumes "number \<le> FAULTLINE_FIBONACCI_MAX"
  shows "unat (fibonacci number) = fib (unat number)"
proof -
  have small: "unat number \<le> 93" using assms by (simp add: FAULTLINE_FIBONACCI_MAX_def word_le_nat_alt)
  have "fibonacci number = of_nat (fib (unat number))"
  proof (cases "number = 0")
    case False
    then have "Suc 0 + (unat number - 1) = unat number" by (simp add: unat_gt_0)
    then show ?thesis using fibonacci_loop_fib [of "unat number - 1" 0] False by (simp add: fibonacci_def del: One_nat_def)
  qed (simp add: fibonacci_def)
  moreover have "fib (unat number) < 2 ^ 64" using fib_mono [OF small] fib_93(1) by simp
  ultimately show ?thesis by (simp add: unat_of_nat take_bit_nat_eq_self)
qed

section \<open>Primes\<close>

definition prime_number :: "nat \<Rightarrow> bool" where
  "prime_number n \<longleftrightarrow> 1 < n \<and> (\<forall>m. m dvd n \<longrightarrow> m = 1 \<or> m = n)"

definition primes_below :: "nat \<Rightarrow> nat set" where
  "primes_below n = {p. prime_number p \<and> p < n}"

lemma prime_small: "\<not> prime_number 0" "\<not> prime_number 1" "prime_number 2"
proof -
  show "prime_number 2" unfolding prime_number_def
  proof (intro conjI allI impI)
    fix m :: nat assume "m dvd 2"
    then have "m \<le> 2" "m \<noteq> 0" by (auto dest: dvd_imp_le intro: gr0I)
    then show "m = 1 \<or> m = 2" by auto
  qed simp
qed (simp_all add: prime_number_def)

lemma even_not_prime: "even n \<Longrightarrow> n \<noteq> 2 \<Longrightarrow> \<not> prime_number n"
  unfolding prime_number_def by auto

text \<open>A number with a proper divisor has one whose square does not pass it.\<close>

lemma small_divisor:
  assumes "1 < n" "\<not> prime_number n"
  shows "\<exists>e. 1 < e \<and> e * e \<le> n \<and> e dvd n"
proof -
  obtain m where m: "m dvd n" "m \<noteq> 1" "m \<noteq> n" using assms by (auto simp: prime_number_def)
  obtain k where k: "n = m * k" using m(1) by blast
  have "m \<noteq> 0" "k \<noteq> 0" using k assms(1) by (metis mult_0 mult_0_right not_less_zero)+
  moreover have "k \<noteq> 1" using m(3) k by auto
  ultimately have big: "1 < m" "1 < k" using m(2) by linarith+
  show ?thesis
  proof (cases "m \<le> k")
    case True
    then show ?thesis using k big by (intro exI [of _ m]) auto
  next
    case False
    then show ?thesis using k big by (intro exI [of _ k]) (auto simp: mult.commute)
  qed
qed

text \<open>What trial division has established when its divisor has reached \<open>d\<close>.\<close>

definition no_divisor_below :: "nat \<Rightarrow> nat \<Rightarrow> bool" where
  "no_divisor_below c d \<longleftrightarrow> odd c \<and> odd d \<and> 3 \<le> c \<and> 3 \<le> d \<and> (\<forall>e. 1 < e \<and> e < d \<and> e < c \<longrightarrow> \<not> e dvd c)"

lemma trial_passed:
  assumes "no_divisor_below c d" "c < d * d"
  shows "prime_number c"
proof (rule ccontr)
  assume "\<not> prime_number c"
  then obtain e where e: "1 < e" "e * e \<le> c" "e dvd c" using small_divisor [of c] assms(1) by (auto simp: no_divisor_below_def)
  then have "e * e < d * d" using assms(2) by simp
  then have "e < d" by (intro power_less_imp_less_base [of e 2 d]) (simp_all add: power2_eq_square)
  moreover have "e < e * e" using e(1) by (intro n_less_m_mult_n) auto
  then have "e < c" using e(2) by (rule less_le_trans)
  ultimately show False using assms(1) e by (auto simp: no_divisor_below_def)
qed

lemma trial_found:
  assumes "no_divisor_below c d" "d dvd c" "d * d \<le> c"
  shows "\<not> prime_number c"
proof -
  have "1 < d" "3 \<le> d" using assms(1) by (auto simp: no_divisor_below_def)
  moreover have "d < d * d" using calculation by (intro n_less_m_mult_n) auto
  then have "d < c" using assms(3) by (rule less_le_trans)
  ultimately show ?thesis using assms(2) by (auto simp: prime_number_def)
qed

lemma trial_next:
  assumes "no_divisor_below c d" "\<not> d dvd c"
  shows "no_divisor_below c (d + 2)"
proof -
  have "\<not> e dvd c" if small: "1 < e" "e < d + 2" "e < c" for e
  proof (cases "e < d")
    case True
    then show ?thesis using assms(1) small by (auto simp: no_divisor_below_def)
  next
    case False
    then consider "e = d" | "e = Suc d" using small by linarith
    then show ?thesis
    proof cases
      case 2
      have "odd d" "odd c" using assms(1) by (auto simp: no_divisor_below_def)
      then show ?thesis using 2 dvd_trans [of 2 e c] by auto
    qed (use assms(2) in simp)
  qed
  then show ?thesis using assms(1) by (auto simp: no_divisor_below_def)
qed

lemma no_divisor_start: "odd c \<Longrightarrow> 3 \<le> c \<Longrightarrow> no_divisor_below c 3"
proof -
  assume c: "odd c" "3 \<le> c"
  have "\<not> e dvd c" if "1 < e" "e < 3" for e
  proof -
    have "e = 2" using that by linarith
    then show ?thesis using c by simp
  qed
  then show ?thesis using c by (simp add: no_divisor_below_def)
qed

lemma unat_add_small: "unat (v :: u64) + n < 2 ^ 64 \<Longrightarrow> unat (v + of_nat n) = unat v + n"
  by (simp add: unat_word_ariths unat_of_nat take_bit_nat_eq_self)

text \<open>Trial division returns, whoever sets the flag, and decides primality unless it was cancelled.\<close>

lemma trial_division_returns:
  assumes "no_divisor_below (unat c) (unat d)" "unat c \<le> 100000000"
  shows "\<exists>r w'. trial_division io c d w = Some (r, w') \<and> (r = Inl TASK_CANCELLED \<or> r = Inr (prime_number (unat c)))"
  using assms(1)
proof (induction "unat c + 2 - unat d" arbitrary: d w rule: less_induct)
  case less
  have pos: "0 < unat d" "3 \<le> unat d" using less.prems by (auto simp: no_divisor_below_def)
  have guard: "d \<le> c div d \<longleftrightarrow> unat d * unat d \<le> unat c"
    using pos by (simp add: word_le_nat_alt unat_div less_eq_div_iff_mult_less_eq)
  have divides: "c mod d = 0 \<longleftrightarrow> unat d dvd unat c"
    by (simp add: word_unat_eq_iff unat_mod dvd_eq_mod_eq_0)
  obtain cancelled w1 where flag: "task_cancelled io w = (cancelled, w1)" by fastforce
  show ?case
  proof (cases "unat d * unat d \<le> unat c")
    case True
    have "unat d < unat d * unat d" using pos by (intro n_less_m_mult_n) auto
    then have small: "unat d < unat c" using True by (rule less_le_trans)
    have step: "unat (d + 2) = unat d + 2" using unat_add_small [of d 2] small assms(2) by simp
    show ?thesis
    proof (cases "cancelled \<or> unat d dvd unat c")
      case stop: True
      then show ?thesis using True trial_found [OF less.prems] by (auto simp: trial_division.simps [of _ _ d] guard divides flag)
    next
      case False
      then have same: "trial_division io c d w = trial_division io c (d + 2) w1"
        using True by (simp add: trial_division.simps [of _ _ d] guard divides flag)
      have "unat c + 2 - unat (d + 2) < unat c + 2 - unat d" using step small by simp
      moreover have "no_divisor_below (unat c) (unat (d + 2))" using trial_next [OF less.prems] False step by simp
      ultimately show ?thesis unfolding same by (rule less.hyps)
    qed
  next
    case False
    then show ?thesis using trial_passed [OF less.prems] by (simp add: trial_division.simps [of _ _ d] guard)
  qed
qed

lemma finite_primes_below [simp]: "finite (primes_below n)"
  by (simp add: primes_below_def)

lemma card_primes_below: "card (primes_below n) \<le> n"
proof -
  have "primes_below n \<subseteq> {..<n}" by (auto simp: primes_below_def)
  then show ?thesis using card_mono [of "{..<n}"] by fastforce
qed

lemma primes_below_step:
  assumes "odd n" "3 \<le> n"
  shows "card (primes_below (n + 2)) = card (primes_below n) + (if prime_number n then 1 else 0)"
proof -
  have "\<not> prime_number (Suc n)" using assms by (intro even_not_prime) auto
  then have "primes_below (n + 2) = (if prime_number n then insert n (primes_below n) else primes_below n)"
    by (auto simp: primes_below_def less_Suc_eq)
  then show ?thesis by (simp add: primes_below_def)
qed

lemma primes_below_3: "primes_below 3 = {2}"
proof -
  have "p < 3 \<Longrightarrow> prime_number p \<Longrightarrow> p = 2" for p
    using prime_small by (cases "p = 0"; cases "p = 1"; cases "p = 2") auto
  then show ?thesis using prime_small by (auto simp: primes_below_def)
qed

lemma count_primes_returns:
  assumes number: "unat number \<le> 100000000" "2 \<le> unat number"
    and start: "odd (unat candidate)" "3 \<le> unat candidate" "unat candidate \<le> unat number + 2"
      "unat count = card (primes_below (unat candidate))"
  shows "\<exists>r w'. count_primes io number candidate count w = Some (r, w') \<and>
    (r = Inl TASK_CANCELLED \<or> (\<exists>n. r = Inr n \<and> unat n = card (primes_below (unat number + 1))))"
  using start
proof (induction "unat number + 3 - unat candidate" arbitrary: candidate count w rule: less_induct)
  case less
  obtain cancelled w1 where flag: "task_cancelled io w = (cancelled, w1)" by fastforce
  have guard: "candidate \<le> number \<longleftrightarrow> unat candidate \<le> unat number" by (rule word_le_nat_alt)
  show ?case
  proof (cases "unat candidate \<le> unat number")
    case True
    have "no_divisor_below (unat candidate) (unat (3 :: u64))" using no_divisor_start [OF less.prems(1,2)] by simp
    moreover have "unat candidate \<le> 100000000" using True number(1) by (rule order.trans)
    ultimately obtain r w2 where trial: "trial_division io candidate 3 w1 = Some (r, w2)"
        "r = Inl TASK_CANCELLED \<or> r = Inr (prime_number (unat candidate))"
      using trial_division_returns [of candidate 3 io w1] by blast
    have step: "unat (candidate + 2) = unat candidate + 2" using unat_add_small [of candidate 2] True number by simp
    let ?count = "if prime_number (unat candidate) then count + 1 else count"
    have "unat count \<le> unat candidate" using less.prems(4) card_primes_below by simp
    then have counted: "unat ?count = card (primes_below (unat (candidate + 2)))"
      using unat_add_small [of count 1] primes_below_step [OF less.prems(1,2)] less.prems(4) True number unfolding step by auto
    show ?thesis
    proof (cases "cancelled \<or> r = Inl TASK_CANCELLED")
      case stop: True
      then show ?thesis using True trial by (auto simp: count_primes.simps [of _ _ candidate] guard flag)
    next
      case False
      then have same: "count_primes io number candidate count w = count_primes io number (candidate + 2) ?count w2"
        using True trial by (simp add: count_primes.simps [of _ _ candidate] guard flag)
      show ?thesis unfolding same
      proof (rule less.hyps)
        show "unat number + 3 - unat (candidate + 2) < unat number + 3 - unat candidate" using True step by simp
      qed (use less.prems True step counted in auto)
    qed
  next
    case False
    have "primes_below (unat candidate) = primes_below (unat number + 1)"
    proof (cases "unat candidate = unat number + 1")
      case two: False
      then have up: "unat candidate = unat number + 2" using False less.prems(3) by linarith
      then have "\<not> prime_number (unat number + 1)" using less.prems(1) number(2) by (intro even_not_prime) auto
      then show ?thesis unfolding up by (auto simp: primes_below_def less_Suc_eq)
    qed simp
    then show ?thesis using less.prems(4) False by (simp add: count_primes.simps [of _ _ candidate] guard)
  qed
qed

section \<open>Sleeping and printing\<close>

text \<open>
  Time passes for the sleeping thread: a reading of the clock before the deadline uses up some of
  \<open>patience\<close>, and neither reading the flag nor a nap gives any back.
\<close>

definition naps_end :: "'w task_io \<Rightarrow> int \<Rightarrow> ('w \<Rightarrow> nat) \<Rightarrow> bool" where
  "naps_end io deadline patience \<longleftrightarrow>
     (\<forall>w now e w'. faultline_monotonic_ms (task_net io) w = (now, e, w') \<longrightarrow>
        (if 0 \<le> now \<and> now < deadline then patience w' < patience w else patience w' \<le> patience w)) \<and>
     (\<forall>w b w'. task_cancelled io w = (b, w') \<longrightarrow> patience w' \<le> patience w) \<and>
     (\<forall>n w r w'. task_nanosleep io n w = (r, w') \<longrightarrow> patience w' \<le> patience w)"

text \<open>A sleep that is neither cancelled nor hit by an error returns on a reading past its deadline.\<close>

lemma sleep_loop_returns:
  assumes "naps_end io deadline patience"
  shows "\<exists>r w'. sleep_loop io deadline w = Some (r, w') \<and>
    (r = Inl TASK_CANCELLED \<or> r = Inl TASK_SYSTEM_ERROR \<or>
     r = Inr () \<and> (\<exists>v now e. faultline_monotonic_ms (task_net io) v = (now, e, w') \<and> deadline \<le> now))"
proof (induction "patience w" arbitrary: w rule: less_induct)
  case less
  obtain cancelled w1 where flag: "task_cancelled io w = (cancelled, w1)" by fastforce
  obtain now e w2 where clock: "faultline_monotonic_ms (task_net io) w1 = (now, e, w2)" by (metis prod_cases3)
  obtain nap w3 where nap: "task_nanosleep io ((if deadline - now > 20 then 20 else deadline - now) * 1000000) w2 = (nap, w3)"
    by fastforce
  show ?case
  proof (cases "cancelled \<or> now < 0 \<or> deadline \<le> now")
    case True
    then show ?thesis using clock by (auto simp: sleep_loop.simps [of _ _ w] flag)
  next
    case False
    then have "patience w2 < patience w1" using assms clock unfolding naps_end_def by (fastforce split: if_splits)
    moreover have "patience w1 \<le> patience w" "patience w3 \<le> patience w2"
      using assms flag nap unfolding naps_end_def by blast+
    ultimately have "patience w3 < patience w" by simp
    note again = less [OF this]
    consider e where "nap = Inl e" "e \<noteq> EINTR" | "nap = Inl EINTR" | "nap = Inr ()" by (cases nap) auto
    then show ?thesis
    proof cases
      case (1 e)
      then show ?thesis using False by (simp add: sleep_loop.simps [of _ _ w] flag clock nap Let_def)
    next
      case 2
      then have "sleep_loop io deadline w = sleep_loop io deadline w3"
        using False by (simp add: sleep_loop.simps [of _ _ w] flag clock nap Let_def)
      then show ?thesis using again by simp
    next
      case 3
      then have "sleep_loop io deadline w = sleep_loop io deadline w3"
        using False by (simp add: sleep_loop.simps [of _ _ w] flag clock nap Let_def)
      then show ?thesis using again by simp
    qed
  qed
qed

lemma run_sleep_returns:
  assumes "\<And>deadline. naps_end io deadline (patience deadline)"
  shows "\<exists>r w'. run_sleep io duration w = Some (r, w') \<and> r \<in> {Inl TASK_CANCELLED, Inl TASK_SYSTEM_ERROR, Inr ()}"
proof -
  obtain now e w1 where clock: "faultline_monotonic_ms (task_net io) w = (now, e, w1)" by (metis prod_cases3)
  show ?thesis
    using sleep_loop_returns [OF assms, of "now + int (unat duration)" w1] by (auto simp: run_sleep_def clock)
qed

lemma print_decimal_reads:
  "digits (map unat (print_decimal n)) \<and> decimal (map unat (print_decimal n)) = n"
proof (induction n rule: print_decimal.induct)
  case (1 n)
  have char: "unat (48 + of_nat d :: u8) = 48 + d" if "d < 10" for d
    using that by (simp add: unat_word_ariths unat_of_nat take_bit_nat_eq_self)
  show ?case
  proof (cases "n < 10")
    case True
    then show ?thesis by (subst (1 2) print_decimal.simps) (simp add: digits_def decimal_def char)
  next
    case False
    then have "print_decimal n = print_decimal (n div 10) @ [48 + of_nat (n mod 10)]" by (subst print_decimal.simps) simp
    then show ?thesis using 1 [OF False] by (simp add: digits_def decimal_def char)
  qed
qed

lemma length_print_decimal: "n < 10 ^ Suc k \<Longrightarrow> length (print_decimal n) \<le> Suc k"
proof (induction k arbitrary: n)
  case 0
  then show ?case by (subst print_decimal.simps) simp
next
  case (Suc k)
  then have "n div 10 < 10 ^ Suc k" by (simp add: less_mult_imp_div_less mult.commute)
  then show ?case using Suc.IH [of "n div 10"] by (subst print_decimal.simps) simp
qed

lemma length_print_u64: "length (print_decimal (unat (v :: u64))) \<le> 20"
  using length_print_decimal [of "unat v" 19] unat_u64_less [of v] by simp

section \<open>What a task returns\<close>

text \<open>The arguments a task takes: at most 1024 bytes, and for the numeric tasks a decimal number within the limit.\<close>

definition task_accepts :: "u16 \<Rightarrow> bytes \<Rightarrow> bool" where
  "task_accepts task_type arguments \<longleftrightarrow>
     length arguments \<le> FAULTLINE_JOB_MAX_ARGUMENT_SIZE \<and>
     (case task_limit task_type of
        None \<Rightarrow> False
      | Some limit \<Rightarrow>
          task_type = task_code TASK_HASH \<or>
          arguments \<noteq> [] \<and> digits (map unat arguments) \<and> decimal (map unat arguments) \<le> unat limit)"

text \<open>A text that reads as a number.\<close>

definition shows_number :: "bytes \<Rightarrow> nat \<Rightarrow> bool" where
  "shows_number text n \<longleftrightarrow> digits (map unat text) \<and> decimal (map unat text) = n"

definition task_result :: "u16 \<Rightarrow> bytes \<Rightarrow> bytes \<Rightarrow> bool" where
  "task_result task_type arguments result \<longleftrightarrow>
     (let n = decimal (map unat arguments) in
      if task_type = task_code TASK_SLEEP then \<exists>text. result = slept_prefix @ text \<and> shows_number text n
      else if task_type = task_code TASK_PRIME_COUNT then shows_number result (card {p. prime_number p \<and> p \<le> n})
      else if task_type = task_code TASK_FIBONACCI then shows_number result (fib n)
      else result = print_hex16 (fnv1a arguments))"

lemma shows_print_decimal [simp]: "shows_number (print_decimal n) n"
  using print_decimal_reads by (simp add: shows_number_def)

lemma task_codes: "task_code TASK_SLEEP = 1" "task_code TASK_PRIME_COUNT = 2" "task_code TASK_FIBONACCI = 3" "task_code TASK_HASH = 4"
  by simp_all

lemma primes_up_to: "primes_below (n + 1) = {p. prime_number p \<and> p \<le> n}"
  by (auto simp: primes_below_def)

text \<open>The text of a task whose number is within its limit: the right result, or why there is none.\<close>

lemma task_text_returns:
  assumes "\<And>deadline. naps_end io deadline (patience deadline)"
    and "task_limit ty = Some limit" "ty = task_code TASK_HASH \<or> number \<le> limit \<and> unat number = decimal (map unat arguments)"
  shows "\<exists>r w'. task_text io ty number arguments w = Some (r, w') \<and>
    (r = Inl TASK_CANCELLED \<or> r = Inl TASK_SYSTEM_ERROR \<and> ty = task_code TASK_SLEEP \<or>
     (\<exists>text. r = Inr text \<and> task_result ty arguments text \<and> length text \<le> 29))"
proof -
  consider "ty = 1" "limit = FAULTLINE_SLEEP_MAX_MS" | "ty = 2" "limit = FAULTLINE_PRIME_COUNT_MAX" |
    "ty = 3" "limit = FAULTLINE_FIBONACCI_MAX" | "ty = 4"
    using assms(2) by (auto simp: task_limit_def split: if_splits)
  then show ?thesis
  proof cases
    case 1
    obtain r w' where "run_sleep io number w = Some (r, w')" "r \<in> {Inl TASK_CANCELLED, Inl TASK_SYSTEM_ERROR, Inr ()}"
      using run_sleep_returns [OF assms(1)] by blast
    then show ?thesis using 1 assms(3) length_print_u64 [of number]
      by (auto simp: task_text_def task_result_def slept_prefix_def)
  next
    case 2
    then have number: "unat number \<le> 100000000" "unat number = decimal (map unat arguments)"
      using assms(3) by (auto simp: FAULTLINE_PRIME_COUNT_MAX_def word_le_nat_alt)
    have "\<exists>r w'. count_primes io number 3 (if number \<ge> 2 then 1 else 0) w = Some (r, w') \<and>
        (r = Inl TASK_CANCELLED \<or> (\<exists>n. r = Inr n \<and> unat n = card (primes_below (unat number + 1))))"
    proof (cases "2 \<le> unat number")
      case True
      then have "number \<ge> 2" by (simp add: word_le_nat_alt)
      moreover have "\<exists>r w'. count_primes io number 3 1 w = Some (r, w') \<and>
        (r = Inl TASK_CANCELLED \<or> (\<exists>n. r = Inr n \<and> unat n = card (primes_below (unat number + 1))))"
        using number(1) True primes_below_3 by (intro count_primes_returns) simp_all
      ultimately show ?thesis by simp
    next
      case False
      then have "unat number + 1 \<le> 2" by simp
      then have "primes_below (unat number + 1) = {}" using prime_small(1,2) by (auto simp: primes_below_def le_Suc_eq less_Suc_eq numeral_2_eq_2)
      moreover have "\<not> number \<ge> 2" "\<not> 3 \<le> number" using False by (auto simp: word_le_nat_alt)
      ultimately show ?thesis by (simp add: count_primes.simps)
    qed
    then obtain r w' where run: "count_primes io number 3 (if number \<ge> 2 then 1 else 0) w = Some (r, w')"
      "r = Inl TASK_CANCELLED \<or> (\<exists>n. r = Inr n \<and> unat n = card (primes_below (unat number + 1)))" by blast
    from run(2) show ?thesis
    proof
      assume "r = Inl TASK_CANCELLED"
      then show ?thesis using 2 run(1) by (simp add: task_text_def)
    next
      assume "\<exists>n. r = Inr n \<and> unat n = card (primes_below (unat number + 1))"
      then obtain n where n: "r = Inr n" "unat n = card {p. prime_number p \<and> p \<le> decimal (map unat arguments)}"
        unfolding primes_up_to number(2) by blast
      have "task_text io ty number arguments w = Some (Inr (print_decimal (unat n)), w')" using 2 run(1) n(1) by (simp add: task_text_def)
      moreover have "task_result ty arguments (print_decimal (unat n))" using 2 n(2) by (simp add: task_result_def flip: n(2))
      ultimately show ?thesis using length_print_u64 [of n] by fastforce
    qed
  next
    case 3
    then have "unat (fibonacci number) = fib (decimal (map unat arguments))" using assms(3) fibonacci_exact by auto
    moreover have "length (print_decimal (unat (fibonacci number))) \<le> 20" by (rule length_print_u64)
    ultimately show ?thesis using 3 by (simp add: task_text_def task_result_def)
  next
    case 4
    then show ?thesis by (simp add: task_text_def task_result_def print_hex16_def)
  qed
qed

lemma task_limit_sleep: "task_limit (task_code TASK_SLEEP) \<noteq> None"
  by (simp add: task_limit_def)

lemma accepted_number:
  assumes "task_accepts ty arguments" "task_limit ty = Some limit"
  shows "\<exists>number. (if ty = task_code TASK_HASH then Some 0 else parse_number arguments limit) = Some number \<and>
    (ty = task_code TASK_HASH \<or> number \<le> limit \<and> unat number = decimal (map unat arguments))"
proof (cases "ty = task_code TASK_HASH")
  case False
  then have "map_option unat (parse_number arguments limit) = Some (decimal (map unat arguments))"
    "decimal (map unat arguments) \<le> unat limit"
    using assms by (auto simp: parse_number_exact task_accepts_def)
  then show ?thesis using False by (auto simp: word_le_nat_alt)
qed auto

lemma rejected_number:
  assumes "\<not> task_accepts ty arguments" "task_limit ty = Some limit" "length arguments \<le> FAULTLINE_JOB_MAX_ARGUMENT_SIZE"
  shows "(if ty = task_code TASK_HASH then Some 0 else parse_number arguments limit) = None"
proof -
  have "ty \<noteq> task_code TASK_HASH" using assms by (auto simp: task_accepts_def)
  moreover have "map_option unat (parse_number arguments limit) = None"
    using assms calculation unfolding parse_number_exact by (auto simp: task_accepts_def)
  ultimately show ?thesis by simp
qed

section \<open>An environment in memory\<close>

definition memory_task_io :: "memory_net task_io" where
  "memory_task_io =
     \<lparr> task_net = memory_net_io, task_cancelled = (\<lambda>w. (False, w)),
       task_nanosleep = (\<lambda>n w. (Inr (), w\<lparr> mn_time := mn_time w + nat n \<rparr>)) \<rparr>"

lemma memory_naps_end: "naps_end memory_task_io deadline (\<lambda>w. nat (deadline - int (mn_time w)))"
  by (auto simp: naps_end_def memory_task_io_def memory_net_io_def faultline_monotonic_ms_def split: if_splits)

section \<open>Properties\<close>



text \<open>Claim C40. The Fibonacci limit is exact: up to it the 64-bit loop never wraps and gives the true
  Fibonacci number, and the next Fibonacci number no longer fits 64 bits.\<close>

theorem fibonacci_limit_exact:
  "(number \<le> FAULTLINE_FIBONACCI_MAX \<longrightarrow> unat (fibonacci number) = fib (unat number)) \<and>
   2 ^ 64 \<le> fib (unat FAULTLINE_FIBONACCI_MAX + 1)"
  using fibonacci_exact fib_93(2) by (simp add: FAULTLINE_FIBONACCI_MAX_def)

theorem fibonacci_limit_exact_witness:
  "unat (fibonacci 90) = fib 90"
  using fibonacci_limit_exact [of 90] by (simp add: FAULTLINE_FIBONACCI_MAX_def)

end
