(* ===== verification/Spec2Isabelle.thy ===== *)
theory Spec2Isabelle
  imports Coordinator_Loop Task Log
begin

text \<open>
  A verification development for Faultline, a fault-tolerant job engine in C11.
\<close>

end
